(* ===== verification/Prelude.thy ===== *)
theory Prelude
  imports Main "HOL-Library.Word"
begin

text \<open>
  Shared vocabulary of the development: the ways in which a CSSC operation can fail, the
  machine integers its classes store (16-bit signed \<open>short\<close>, 16-bit unsigned \<open>seq_no\<close>,
  32-bit \<open>int\<close>), and the C library calls on strings that the sources use (decimal printing
  and parsing, \<open>strchr\<close>, \<open>isdigit\<close>).

  A C string is a \<open>string\<close> without its terminating NUL: the end of the list is the NUL.
  Streams that the program reads or writes are \<open>string\<close>s as well; a write appends to the
  end. Failures of the operating system (a full disk, an unreadable file) are not modelled.
\<close>

section \<open>Theorem collections\<close>

named_theorems machine_int \<open>conversions to machine integers that change nothing in range\<close>
named_theorems cstring \<open>facts on C strings\<close>

section \<open>Failures\<close>

text \<open>
  \<open>Corrupt d\<close> is a call of one of the \<open>corrupt\<close> or \<open>corrupt_file\<close> functions (which do not
  return), with the diagnostic as a constructor; \<open>Assertion\<close> is a failed \<open>ASSERT\<close>;
  \<open>Fatal d\<close> stands for \<open>fatal_quit\<close>, \<open>ctor_fail\<close> and an exception thrown; \<open>Failed d\<close> is a
  \<open>cssc::Failure\<close> value or a \<open>false\<close> returned to the caller; \<open>Diverged\<close> is a loop that never
  ends.
\<close>

datatype diagnostic =
    Expected_I | Missing_arg | Unexpected_arg | Invalid_number | Number_too_big | Missing_number
  | Invalid_serial_number | Invalid_sequence_number | Unexpected_control_line | Bad_state string
  | Missing_sequence_number nat | Own_predecessor nat | Subsequent_predecessor nat nat
  | Diff_unexpected_eof | Diff_corrupt string | Range_error
  | Range_too_long | Ranges_not_allowed | Non_terminal_delta | Unexpected_eof
  | Line_too_long | Sid_not_found | Delta_has_successor | Delta_in_use | Bitkeeper_file
  | P_file_corrupt string | Bad_flag char | Bad_date
  | Body_is_binary | Message string

datatype cssc_error =
    Corrupt diagnostic
  | Assertion
  | Fatal diagnostic
  | Failed diagnostic
  | Diverged

type_synonym 'a res = "cssc_error + 'a"

definition ASSERT :: "bool \<Rightarrow> unit res" where
  "ASSERT b = (if b then Inr () else Inl Assertion)"

definition bindE :: "'a res \<Rightarrow> ('a \<Rightarrow> 'b res) \<Rightarrow> 'b res" where
  "bindE m f = (case m of Inl e \<Rightarrow> Inl e | Inr x \<Rightarrow> f x)"

lemma bindE_simps [simp]:
  "bindE (Inl e) f = Inl e"
  "bindE (Inr x) f = f x"
  by (simp_all add: bindE_def)

lemma bindE_cong [fundef_cong]:
  "m = m' \<Longrightarrow> (\<And>x. m' = Inr x \<Longrightarrow> f x = f' x) \<Longrightarrow> bindE m f = bindE m' f'"
  by (cases m') auto

lemma bindE_eq_Inr:
  "bindE m f = Inr y \<longleftrightarrow> (\<exists>x. m = Inr x \<and> f x = Inr y)"
  by (cases m) auto

lemma bindE_ends:
  "m \<noteq> Inl Diverged \<Longrightarrow> (\<And>x. m = Inr x \<Longrightarrow> f x \<noteq> Inl Diverged) \<Longrightarrow> bindE m f \<noteq> Inl Diverged"
  by (cases m) auto

lemma ASSERT_eq_Inr [simp]: "ASSERT b = Inr u \<longleftrightarrow> b"
  by (simp add: ASSERT_def)

lemma ASSERT_True [simp]: "b \<Longrightarrow> ASSERT b = Inr ()"
  by (simp add: ASSERT_def)

text \<open>A loop over a list that stops at the first failure.\<close>

fun foldE :: "('s \<Rightarrow> 'a \<Rightarrow> 's res) \<Rightarrow> 's \<Rightarrow> 'a list \<Rightarrow> 's res" where
  "foldE f s [] = Inr s"
| "foldE f s (x # xs) = bindE (f s x) (\<lambda>s'. foldE f s' xs)"

lemma foldE_append: "foldE f s (xs @ ys) = bindE (foldE f s xs) (\<lambda>s'. foldE f s' ys)"
  by (induction xs arbitrary: s) (simp_all add: bindE_def split: sum.splits)

lemma foldE_progress:
  assumes "\<And>s x. Inv s \<Longrightarrow> x \<in> set xs \<Longrightarrow> \<exists>s'. f s x = Inr s' \<and> Inv s'" and "Inv s"
  shows "\<exists>s'. foldE f s xs = Inr s' \<and> Inv s'"
  using assms
proof (induction xs arbitrary: s)
  case (Cons x xs)
  then obtain s' where "f s x = Inr s'" "Inv s'" by (meson list.set_intros(1))
  with Cons show ?case by auto
qed simp

lemma foldE_keeps:
  assumes "\<And>s x s'. P s \<Longrightarrow> f s x = Inr s' \<Longrightarrow> P s'" and "P s" and "foldE f s xs = Inr s'"
  shows "P s'"
  using assms(2,3)
proof (induction xs arbitrary: s)
  case (Cons x xs)
  then obtain s1 where "f s x = Inr s1" "foldE f s1 xs = Inr s'" by (auto simp: bindE_eq_Inr)
  with Cons assms(1) show ?case by blast
qed simp

lemma foldE_cong [fundef_cong]:
  "s = t \<Longrightarrow> xs = ys \<Longrightarrow> (\<And>s x. x \<in> set ys \<Longrightarrow> f s x = g s x) \<Longrightarrow> foldE f s xs = foldE g t ys"
proof (induction xs arbitrary: s t ys)
  case (Cons x xs)
  then show ?case by (auto intro!: bindE_cong)
qed simp

section \<open>Machine integers\<close>

text \<open>
  A \<open>short\<close> and an \<open>int\<close> are kept as integers in their range; assigning a wider value
  truncates it to 16 (32) bits and reads it back as two's complement. \<open>seq_no\<close> is
  \<open>unsigned short\<close>, kept as a natural number below \<open>2 ^ 16\<close>.
\<close>

definition short_of :: "int \<Rightarrow> int" where
  "short_of n = signed_take_bit 15 n"

definition int_of32 :: "int \<Rightarrow> int" where
  "int_of32 n = signed_take_bit 31 n"

definition u16_of :: "nat \<Rightarrow> nat" where
  "u16_of n = n mod 65536"

definition is_short :: "int \<Rightarrow> bool" where
  "is_short n \<longleftrightarrow> - 32768 \<le> n \<and> n \<le> 32767"

lemma short_of_id [machine_int, simp]: "- 32768 \<le> n \<Longrightarrow> n \<le> 32767 \<Longrightarrow> short_of n = n"
  by (simp add: short_of_def signed_take_bit_int_eq_self_iff)

lemma int_of32_id [machine_int, simp]:
  "- 2147483648 \<le> n \<Longrightarrow> n \<le> 2147483647 \<Longrightarrow> int_of32 n = n"
  by (simp add: int_of32_def signed_take_bit_int_eq_self_iff)

lemma u16_of_id [machine_int, simp]: "n < 65536 \<Longrightarrow> u16_of n = n"
  by (simp add: u16_of_def)

lemma is_short_short_of [simp]: "is_short (short_of n)"
  using signed_take_bit_int_greater_eq_minus_exp [of 15 n] signed_take_bit_int_less_exp [of 15 n]
  by (simp add: is_short_def short_of_def)

lemma short_of_32768: "short_of 32768 = - 32768"
  by (simp add: short_of_def signed_take_bit_def mask_eq_exp_minus_1 not_int_def)

section \<open>Decimal digits\<close>

definition isdigit :: "char \<Rightarrow> bool" where
  "isdigit c \<longleftrightarrow> 48 \<le> (of_char c :: nat) \<and> (of_char c :: nat) \<le> 57"

definition digit_val :: "char \<Rightarrow> nat" where
  "digit_val c = of_char c - 48"

definition digit_char :: "nat \<Rightarrow> char" where
  "digit_char d = char_of (48 + d)"

lemma isdigit_digit_char [simp, cstring]: "d < 10 \<Longrightarrow> isdigit (digit_char d)"
  by (simp add: isdigit_def digit_char_def)

lemma digit_val_digit_char [simp, cstring]: "d < 10 \<Longrightarrow> digit_val (digit_char d) = d"
  by (simp add: digit_val_def digit_char_def)

lemma isdigit_simps [simp]:
  "\<not> isdigit (CHR ''.'')" "\<not> isdigit (CHR '' '')" "\<not> isdigit (CHR '','')" "\<not> isdigit (CHR ''-'')"
  "\<not> isdigit (CHR 0x0A)" "\<not> isdigit (CHR 0x01)" "\<not> isdigit (CHR ''/'')" "\<not> isdigit (CHR '':'')"
  "\<not> isdigit (CHR ''a'')" "\<not> isdigit (CHR ''c'')" "\<not> isdigit (CHR ''d'')" "\<not> isdigit (CHR ''+'')" "\<not> isdigit (CHR 0x00)"
  by (simp_all add: isdigit_def)

lemma digit_char_noteq [simp]:
  assumes "d < 10" and "\<not> isdigit c"
  shows "digit_char d \<noteq> c" and "c \<noteq> digit_char d"
  using assms isdigit_digit_char by metis+

text \<open>The output of \<open>%u\<close> and, for a value that is not negative, of \<open>%d\<close>.\<close>

fun show_nat :: "nat \<Rightarrow> string" where
  "show_nat n = (if n < 10 then [digit_char n] else show_nat (n div 10) @ [digit_char (n mod 10)])"

declare show_nat.simps [simp del]

definition show_int :: "int \<Rightarrow> string" where
  "show_int n = (if n < 0 then CHR ''-'' # show_nat (nat (- n)) else show_nat (nat n))"

text \<open>\<open>%05lu\<close> and \<open>%02d\<close>: padded on the left with zeroes to a width.\<close>

definition show_pad :: "nat \<Rightarrow> nat \<Rightarrow> string" where
  "show_pad w n = replicate (w - length (show_nat n)) (CHR ''0'') @ show_nat n"

text \<open>The value of a run of decimal digits, accumulated from the left as the parsers do.\<close>

definition dec_val :: "nat \<Rightarrow> string \<Rightarrow> nat" where
  "dec_val = foldl (\<lambda>n c. n * 10 + digit_val c)"

lemma dec_val_Nil [simp]: "dec_val n [] = n"
  by (simp add: dec_val_def)

lemma dec_val_Cons [simp]: "dec_val n (c # s) = dec_val (n * 10 + digit_val c) s"
  by (simp add: dec_val_def)

lemma dec_val_append [simp]: "dec_val n (s @ t) = dec_val (dec_val n s) t"
  by (simp add: dec_val_def)

lemma show_nat_digits: "c \<in> set (show_nat n) \<Longrightarrow> isdigit c"
proof (induction n rule: show_nat.induct)
  case (1 n)
  then show ?case by (cases "n < 10") (auto simp: show_nat.simps [of n])
qed

lemma show_nat_not_Nil [simp]: "show_nat n \<noteq> []"
  by (simp add: show_nat.simps [of n])

lemma dec_val_show_nat [simp]: "dec_val 0 (show_nat n) = n"
proof (induction n rule: show_nat.induct)
  case (1 n)
  then show ?case by (cases "n < 10") (auto simp: show_nat.simps [of n])
qed

lemma list_all_isdigit_show_nat [simp]: "list_all isdigit (show_nat n)"
  by (simp add: list_all_iff show_nat_digits)

lemma hd_show_nat [simp]: "isdigit (hd (show_nat n))"
  using show_nat_digits [of "hd (show_nat n)" n] by simp

lemma show_nat_Cons_obtain:
  obtains c s where "show_nat n = c # s" and "isdigit c" and "list_all isdigit s"
  using list_all_isdigit_show_nat [of n] show_nat_not_Nil [of n]
  by (cases "show_nat n") auto

lemma dec_val_mono: "n \<le> dec_val n s"
proof (induction s arbitrary: n)
  case (Cons c s)
  have "n \<le> n * 10 + digit_val c" by simp
  also have "\<dots> \<le> dec_val (n * 10 + digit_val c) s" by (rule Cons.IH)
  finally show ?case by simp
qed simp

lemma length_show_nat: "n < 10 ^ Suc k \<Longrightarrow> length (show_nat n) \<le> Suc k"
proof (induction k arbitrary: n)
  case 0
  then show ?case by (simp add: show_nat.simps [of n])
next
  case (Suc k)
  have "n div 10 < 10 ^ Suc k" using Suc.prems by (simp add: div_less_iff_less_mult mult.commute)
  then show ?case using Suc.IH [of "n div 10"] by (simp add: show_nat.simps [of n])
qed

lemma notin_show_nat [simp]: "\<not> isdigit c \<Longrightarrow> c \<notin> set (show_nat n)"
  using show_nat_digits by blast

section \<open>Splitting a string at a character\<close>

text \<open>
  \<open>strchr\<close> as the sources use it: the part of the string before the first occurrence of the
  character, and the part after it (\<open>None\<close> when \<open>strchr\<close> returns the null pointer).
\<close>

fun split_at :: "char \<Rightarrow> string \<Rightarrow> string \<times> string option" where
  "split_at c [] = ([], None)"
| "split_at c (x # s) =
     (if x = c then ([], Some s) else (case split_at c s of (a, r) \<Rightarrow> (x # a, r)))"

lemma split_at_append [simp]: "c \<notin> set s \<Longrightarrow> split_at c (s @ c # t) = (s, Some t)"
  by (induction s) auto

lemma split_at_notin [simp]: "c \<notin> set s \<Longrightarrow> split_at c s = (s, None)"
  by (induction s) auto

lemma split_at_Some_length: "split_at c s = (a, Some r) \<Longrightarrow> length r < length s"
  by (induction s arbitrary: a) (auto split: if_splits prod.splits)

text \<open>Reading a character of a C string; at the end it is the terminating NUL.\<close>

definition char_at :: "string \<Rightarrow> nat \<Rightarrow> char" where
  "char_at s i = (if i < length s then s ! i else CHR 0x00)"

lemma char_at_simps [simp]:
  "char_at [] i = CHR 0x00"
  "char_at (c # s) 0 = c"
  "char_at (c # s) (Suc i) = char_at s i"
  by (simp_all add: char_at_def)

section \<open>strtol\<close>

definition isspace :: "char \<Rightarrow> bool" where
  "isspace c \<longleftrightarrow> c \<in> {CHR '' '', CHR 0x09, CHR 0x0A, CHR 0x0B, CHR 0x0C, CHR 0x0D}"

definition long_max :: int where
  "long_max = 9223372036854775807"

definition long_min :: int where
  "long_min = - 9223372036854775808"

text \<open>
  \<open>strtol (s, &end, 10)\<close>: the value, clamped to the range of \<open>long\<close>, whether it was out of
  range (\<open>errno\<close> is then \<open>ERANGE\<close>), and the rest of the string. Without any digit the value
  is zero and nothing is consumed.
\<close>

definition strtol :: "string \<Rightarrow> int \<times> bool \<times> string" where
  "strtol s =
     (let t = dropWhile isspace s;
          neg = (t \<noteq> [] \<and> hd t = CHR ''-'');
          u = (if t \<noteq> [] \<and> (hd t = CHR ''-'' \<or> hd t = CHR ''+'') then tl t else t);
          ds = takeWhile isdigit u;
          n = (if neg then - int (dec_val 0 ds) else int (dec_val 0 ds))
      in if ds = [] then (0, False, s)
         else (max long_min (min long_max n), n < long_min \<or> n > long_max, dropWhile isdigit u))"

lemma isdigit_not_isspace: "isdigit c \<Longrightarrow> \<not> isspace c \<and> c \<noteq> CHR ''-'' \<and> c \<noteq> CHR ''+''"
  by (auto simp: isspace_def isdigit_def)

lemma takeWhile_isdigit_show_nat:
  assumes "rest = [] \<or> \<not> isdigit (hd rest)"
  shows "takeWhile isdigit (show_nat n @ rest) = show_nat n"
    and "dropWhile isdigit (show_nat n @ rest) = rest"
proof -
  have "\<forall>c \<in> set (show_nat n). isdigit c" by (simp add: show_nat_digits)
  with assms show "takeWhile isdigit (show_nat n @ rest) = show_nat n"
    and "dropWhile isdigit (show_nat n @ rest) = rest"
    by (cases rest; simp)+
qed

lemma strtol_show_nat:
  assumes "rest = [] \<or> \<not> isdigit (hd rest)" and "int n \<le> long_max"
  shows "strtol (show_nat n @ rest) = (int n, False, rest)"
proof -
  obtain c s where cs: "show_nat n = c # s" and c: "isdigit c"
    by (rule show_nat_Cons_obtain)
  have "dropWhile isspace (show_nat n @ rest) = show_nat n @ rest"
    using cs isdigit_not_isspace [OF c] by simp
  moreover have "hd (show_nat n @ rest) \<noteq> CHR ''-''" "hd (show_nat n @ rest) \<noteq> CHR ''+''"
    using cs isdigit_not_isspace [OF c] by simp_all
  ultimately show ?thesis
    using assms takeWhile_isdigit_show_nat [OF assms(1)]
    by (simp add: strtol_def Let_def long_min_def)
qed

lemma strtol_rest_shorter:
  assumes "strtol s = (n, e, r)" and "r \<noteq> s"
  shows "length r < length s"
proof -
  define t where "t = dropWhile isspace s"
  define u where "u = (if t \<noteq> [] \<and> (hd t = CHR ''-'' \<or> hd t = CHR ''+'') then tl t else t)"
  have "r = dropWhile isdigit u" and "takeWhile isdigit u \<noteq> []"
    using assms by (auto simp: strtol_def Let_def t_def u_def split: if_splits)
  then have "length r < length u"
    by (metis append_Nil2 length_append less_add_same_cancel2 length_greater_0_conv
        takeWhile_dropWhile_id)
  also have "length u \<le> length t" by (simp add: u_def)
  also have "length t \<le> length s" by (simp add: t_def length_dropWhile_le)
  finally show ?thesis .
qed

end
