(* ===== verification/Line_Reader.thy ===== *)
theory Line_Reader
  imports Prelude
begin

text \<open>
  Reading lines: \<open>class cssc_linebuf\<close> (linebuf.h, linebuf.cc) and \<open>class sccs_file_reader_base\<close>
  (base-reader.h, base-reader.cc), with the search for id keywords of sf-chkid.cc.

  The line buffer grows in chunks of 1024 characters until \<open>fgets\<close> has delivered a newline;
  the model follows the chunks. The main results: a line of any length that ends in a newline
  and holds no NUL is read whole, so a file that consists of such lines is read as the list of
  its lines. The rest of the development takes the lines of a file as such a list.
\<close>

abbreviation newline :: char where
  "newline \<equiv> CHR 0x0A"

abbreviation NUL :: char where
  "NUL \<equiv> CHR 0x00"

abbreviation ctrl_A :: char where
  "ctrl_A \<equiv> CHR 0x01"

section \<open>The line buffer\<close>

definition CHUNK :: nat where
  "CHUNK = 1024"

text \<open>\<open>fgets (buf, size, f)\<close> with \<open>k = size - 1\<close>; \<open>None\<close> is the null pointer at the end of file.\<close>

fun fgets_take :: "nat \<Rightarrow> string \<Rightarrow> string \<times> string" where
  "fgets_take 0 s = ([], s)"
| "fgets_take (Suc k) [] = ([], [])"
| "fgets_take (Suc k) (c # s) =
     (if c = newline then ([c], s) else (case fgets_take k s of (a, r) \<Rightarrow> (c # a, r)))"

definition fgets :: "nat \<Rightarrow> string \<Rightarrow> (string \<times> string) option" where
  "fgets sz s = (if s = [] then None else Some (fgets_take (sz - 1) s))"

lemma fgets_take_length: "fgets_take k s = (a, r) \<Longrightarrow> length s = length a + length r"
  by (induction k s arbitrary: a rule: fgets_take.induct) (auto split: if_splits prod.splits)

lemma fgets_take_nonempty: "fgets_take (Suc k) s = (a, r) \<Longrightarrow> s \<noteq> [] \<Longrightarrow> a \<noteq> []"
  by (cases s) (auto split: if_splits prod.splits)

text \<open>
  The loop of \<open>read_line\<close>. \<open>acc\<close> is what the buffer holds (at most \<open>buflen - 1\<close> characters);
  the character at \<open>buflen - 2\<close> was set to NUL beforehand, so it is the last character read
  when the buffer is full and NUL otherwise.
\<close>

function read_line_loop :: "nat \<Rightarrow> string \<Rightarrow> string \<Rightarrow> string option \<times> nat \<times> string" where
  "read_line_loop buflen acc s =
     (let c = (if length acc = buflen - 1 then last acc else NUL)
      in if c = NUL \<or> c = newline then (Some acc, buflen, s)
         else (case fgets (CHUNK + 1) s of
                 None \<Rightarrow> (None, buflen + CHUNK, s)
               | Some (a, r) \<Rightarrow> read_line_loop (buflen + CHUNK) (acc @ a) r))"
  by pat_completeness auto
termination
proof (relation "measure (\<lambda>(b, acc, s). length s)", simp, goal_cases)
  case (1 buflen acc s c p a r)
  then have "fgets_take CHUNK s = (a, r)" "s \<noteq> []"
    by (auto simp: fgets_def split: if_splits)
  then have "length s = length a + length r" "a \<noteq> []"
    using fgets_take_length [of CHUNK s a r] fgets_take_nonempty [of 1023 s a r] by (auto simp: CHUNK_def numeral_eq_Suc)
  then show ?case by simp
qed

declare read_line_loop.simps [simp del]

text \<open>\<open>cssc_linebuf::read_line\<close>: the line read (\<open>None\<close>: end of file), the new size of the
  buffer, and what is left of the stream.\<close>

definition linebuf_read_line :: "nat \<Rightarrow> string \<Rightarrow> string option \<times> nat \<times> string" where
  "linebuf_read_line buflen s =
     (case fgets buflen s of
        None \<Rightarrow> (None, buflen, s)
      | Some (a, r) \<Rightarrow> read_line_loop buflen a r)"

definition c_str :: "string \<Rightarrow> string" where
  "c_str s = takeWhile (\<lambda>c. c \<noteq> NUL) s"

definition linebuf_write :: "string \<Rightarrow> string" where
  "linebuf_write buf = c_str buf"

text \<open>
  \<open>split\<close>: at most \<open>len\<close> arguments, separated by \<open>c\<close>; an empty last argument is not counted
  when the delimiters are exhausted.
\<close>

fun linebuf_split :: "string \<Rightarrow> nat \<Rightarrow> char \<Rightarrow> string list" where
  "linebuf_split start 0 c = []"
| "linebuf_split start (Suc n) c =
     (case split_at c start of
        (a, None) \<Rightarrow> (if a \<noteq> [] then [a] else [])
      | (a, Some r) \<Rightarrow> a # linebuf_split r n c)"

definition set_char :: "nat \<Rightarrow> nat \<Rightarrow> char \<Rightarrow> string \<Rightarrow> string res" where
  "set_char buflen offset v buf = bindE (ASSERT (offset < buflen)) (\<lambda>_. Inr (buf[offset := v]))"

section \<open>Id keywords\<close>

text \<open>\<open>strchr\<close> also finds the NUL that ends its string, so NUL counts as a keyword letter.\<close>

definition is_id_keyword_letter :: "char \<Rightarrow> bool" where
  "is_id_keyword_letter ch \<longleftrightarrow> ch \<in> set ''MIRLBSDHTEGUYFPQCZWA'' \<or> ch = NUL"

fun keyword_loop :: "nat \<Rightarrow> string \<Rightarrow> bool" where
  "keyword_loop 0 s = False"
| "keyword_loop (Suc n) s =
     (if char_at s 0 = CHR ''%'' \<and> char_at s 1 \<noteq> NUL \<and> char_at s 2 = CHR ''%'' \<and> is_id_keyword_letter (char_at s 1)
      then True else keyword_loop n (tl s))"

definition check_id_keywords :: "string \<Rightarrow> bool" where
  "check_id_keywords s =
     (if length s < 3 then False
      else if CHR ''%'' \<notin> set s then False
      else let t = dropWhile (\<lambda>c. c \<noteq> CHR ''%'') s
           in if length t < 3 then False else keyword_loop (length t - 2) t)"

section \<open>The reader of s-files\<close>

text \<open>
  \<open>read_line_param\<close> removes the last character of the C string that was read, the newline.
  \<open>read_line\<close> returns the character after a leading \<open>^A\<close>, or NUL for a line of text.
\<close>

definition read_line_param :: "nat \<Rightarrow> string \<Rightarrow> string option \<times> nat \<times> string" where
  "read_line_param buflen s =
     (case linebuf_read_line buflen s of
        (None, b, r) \<Rightarrow> (None, b, r)
      | (Some l, b, r) \<Rightarrow> (Some (butlast (c_str l)), b, r))"

definition line_type :: "string \<Rightarrow> char" where
  "line_type l = (if char_at l 0 = ctrl_A then char_at l 1 else NUL)"

definition check_arg :: "string \<Rightarrow> unit res" where
  "check_arg l = (if char_at l 2 \<noteq> CHR '' '' then Inl (Corrupt Missing_arg) else Inr ())"

definition check_noarg :: "string \<Rightarrow> unit res" where
  "check_noarg l = (if char_at l 2 \<noteq> NUL then Inl (Corrupt Unexpected_arg) else Inr ())"

fun strict_atous_loop :: "nat \<Rightarrow> bool \<Rightarrow> string \<Rightarrow> nat res" where
  "strict_atous_loop n empt [] = (if empt then Inl (Corrupt Missing_number) else Inr (u16_of n))"
| "strict_atous_loop n empt (c # s) =
     (if \<not> isdigit c then Inl (Corrupt Invalid_number)
      else let n = n * 10 + digit_val c
           in if n > 65535 then Inl (Corrupt Number_too_big) else strict_atous_loop n False s)"

definition strict_atous :: "string \<Rightarrow> nat res" where
  "strict_atous s = strict_atous_loop 0 True s"

text \<open>\<open>copy_to\<close> copies the rest of the stream in blocks of 8192 characters.\<close>

function copy_to :: "string \<Rightarrow> string \<Rightarrow> string" where
  "copy_to s out = (let b = take 8192 s in if b = [] then out else copy_to (drop 8192 s) (out @ b))"
  by pat_completeness auto
termination
  by (relation "measure (\<lambda>(s, out). length s)") auto

declare copy_to.simps [simp del]

text \<open>All lines of a file, as a loop around \<open>read_line\<close> sees them.\<close>

function read_all :: "nat \<Rightarrow> string \<Rightarrow> string list" where
  "read_all buflen s =
     (case read_line_param buflen s of
        (None, b, r) \<Rightarrow> []
      | (Some l, b, r) \<Rightarrow> if length r < length s then l # read_all b r else [l])"
  by pat_completeness auto
termination
  by (relation "measure (\<lambda>(b, s). length s)") auto

declare read_all.simps [simp del]

definition unlines :: "string list \<Rightarrow> string" where
  "unlines ls = concat (map (\<lambda>l. l @ [newline]) ls)"

lemma unlines_simps [simp]:
  "unlines [] = []"
  "unlines (l # ls) = l @ newline # unlines ls"
  "unlines (ls @ ms) = unlines ls @ unlines ms"
  by (simp_all add: unlines_def)

definition plain_line :: "string \<Rightarrow> bool" where
  "plain_line l \<longleftrightarrow> newline \<notin> set l \<and> NUL \<notin> set l"

section \<open>Lines of any length are read whole\<close>

lemma fgets_take_short:
  "newline \<notin> set l \<Longrightarrow> length l < k \<Longrightarrow> fgets_take k (l @ newline # s) = (l @ [newline], s)"
proof (induction l arbitrary: k)
  case Nil
  then show ?case by (cases k) auto
next
  case (Cons c l)
  then show ?case by (cases k) auto
qed

lemma fgets_take_long:
  "newline \<notin> set l \<Longrightarrow> k \<le> length l \<Longrightarrow> fgets_take k (l @ s) = (take k l, drop k l @ s)"
proof (induction l arbitrary: k)
  case (Cons c l)
  then show ?case by (cases k) auto
qed simp

text \<open>
  The invariant of the loop: the buffer holds a prefix \<open>acc\<close> of the line, and either the whole
  line with its newline, or a prefix without the newline that fills the buffer.
\<close>

lemma read_line_loop_done:
  assumes "length l + 1 < b" and "plain_line l"
  shows "read_line_loop b (l @ [newline]) s = (Some (l @ [newline]), b, s)"
  by (simp add: read_line_loop.simps [of b])

lemma read_line_loop_more:
  assumes "plain_line (acc @ l)" and "length acc + 1 = b" and "acc \<noteq> []"
  shows "\<exists>b'. read_line_loop b acc (l @ newline # s) = (Some (acc @ l @ [newline]), b', s) \<and> b \<le> b'"
  using assms
proof (induction "length l" arbitrary: acc l b rule: less_induct)
  case less
  have last: "last acc \<noteq> NUL" "last acc \<noteq> newline"
    using less.prems(1,3) last_in_set [OF less.prems(3)] unfolding plain_line_def by (metis UnCI set_append)+
  have nl: "newline \<notin> set l" using less.prems(1) by (simp add: plain_line_def)
  show ?case
  proof (cases "length l < CHUNK")
    case True
    have "fgets (CHUNK + 1) (l @ newline # s) = Some (l @ [newline], s)"
      using fgets_take_short [OF nl True] by (simp add: fgets_def)
    moreover have "read_line_loop (b + CHUNK) ((acc @ l) @ [newline]) s
        = (Some ((acc @ l) @ [newline]), b + CHUNK, s)"
      by (rule read_line_loop_done [OF _ less.prems(1)]) (use True less.prems in simp)
    ultimately show ?thesis
      using last less.prems by (auto simp: read_line_loop.simps [of b])
  next
    case False
    let ?a = "take CHUNK l" and ?r = "drop CHUNK l"
    have "fgets (CHUNK + 1) (l @ newline # s) = Some (?a, ?r @ newline # s)"
      using fgets_take_long [OF nl, of CHUNK] False by (simp add: fgets_def)
    then have step: "read_line_loop b acc (l @ newline # s)
        = read_line_loop (b + CHUNK) (acc @ ?a) (?r @ newline # s)"
      using last less.prems by (auto simp: read_line_loop.simps [of b acc])
    have "\<exists>b'. read_line_loop (b + CHUNK) (acc @ ?a) (?r @ newline # s)
        = (Some ((acc @ ?a) @ ?r @ [newline]), b', s) \<and> b + CHUNK \<le> b'"
      by (rule less.hyps) (use less.prems False in \<open>auto simp: CHUNK_def\<close>)
    moreover have "(acc @ ?a) @ ?r @ [newline] = acc @ l @ [newline]"
      by (metis append_assoc append_take_drop_id)
    ultimately show ?thesis unfolding step by (metis add_leD1)
  qed
qed

lemma linebuf_read_line_plain:
  assumes "plain_line l" and "2 \<le> b"
  shows "\<exists>b'. linebuf_read_line b (l @ newline # s) = (Some (l @ [newline]), b', s) \<and> b \<le> b'"
proof (cases "length l < b - 1")
  case True
  then have "fgets b (l @ newline # s) = Some (l @ [newline], s)"
    using fgets_take_short [of l "b - 1" s] assms by (simp add: fgets_def plain_line_def)
  then show ?thesis
    using True assms read_line_loop.simps [of b "l @ [newline]" s] by (simp add: linebuf_read_line_def)
next
  case False
  let ?a = "take (b - 1) l" and ?r = "drop (b - 1) l"
  have "fgets b (l @ newline # s) = Some (?a, ?r @ newline # s)"
    using fgets_take_long [of l "b - 1"] False assms by (simp add: fgets_def plain_line_def)
  moreover have "\<exists>b'. read_line_loop b ?a (?r @ newline # s) = (Some (?a @ ?r @ [newline]), b', s) \<and> b \<le> b'"
    by (rule read_line_loop_more) (use False assms in auto)
  ultimately show ?thesis by (simp add: linebuf_read_line_def) (simp flip: append_assoc)
qed

lemma c_str_plain: "plain_line l \<Longrightarrow> c_str (l @ [newline]) = l @ [newline]"
  by (simp add: c_str_def plain_line_def takeWhile_eq_all_conv) (metis takeWhile_append2)

lemma read_all_unlines:
  "\<forall>l \<in> set ls. plain_line l \<Longrightarrow> 2 \<le> b \<Longrightarrow> read_all b (unlines ls) = ls"
proof (induction ls arbitrary: b)
  case Nil
  then show ?case by (simp add: read_all.simps [of b] read_line_param_def linebuf_read_line_def fgets_def)
next
  case (Cons l ls)
  then obtain b' where "linebuf_read_line b (unlines (l # ls)) = (Some (l @ [newline]), b', unlines ls)" "b \<le> b'"
    using linebuf_read_line_plain [of l b "unlines ls"] by auto
  then show ?case
    using Cons by (simp add: read_all.simps [of b] read_line_param_def c_str_plain)
qed

lemma copy_to_append: "copy_to s out = out @ s"
proof (induction s out rule: copy_to.induct)
  case (1 s out)
  then show ?case by (cases "s = []") (simp_all add: copy_to.simps [of s] copy_to.simps [of "[]"] Let_def)
qed

lemma strict_atous_loop_digits:
  assumes "list_all isdigit d" and "d \<noteq> [] \<or> \<not> e" and "dec_val n d \<le> 65535"
  shows "strict_atous_loop n e d = Inr (dec_val n d)"
  using assms
proof (induction d arbitrary: n e)
  case (Cons c d)
  have "n * 10 + digit_val c \<le> dec_val n (c # d)"
    using dec_val_mono [of "n * 10 + digit_val c" d] by simp
  with Cons show ?case by (simp add: Let_def)
qed simp

lemma strict_atous_show_nat [simp]: "n \<le> 65535 \<Longrightarrow> strict_atous (show_nat n) = Inr n"
  by (simp add: strict_atous_def strict_atous_loop_digits)

section \<open>Properties\<close>

text \<open>
  C20. A file that consists of lines without NUL characters, each ended by a newline, is read as
  exactly the list of its lines, whatever their lengths and whatever size the line buffer has
  grown to: the chunks that \<open>fgets\<close> delivers are put together again.
\<close>

theorem reader_returns_lines:
  assumes "\<forall>l \<in> set ls. plain_line l" and "CHUNK \<le> b"
  shows "read_all b (unlines ls) = ls"
  using assms by (intro read_all_unlines) (auto simp: CHUNK_def)

theorem reader_returns_lines_witness:
  "read_all CHUNK (unlines [replicate 3000 (CHR ''x''), [], ''y'']) = [replicate 3000 (CHR ''x''), [], ''y'']"
  by (rule reader_returns_lines) (auto simp: plain_line_def)

text \<open>
  A last line without a newline loses its last character, and is lost completely when its
  length is that of the buffer.
\<close>

lemma last_line_without_newline: "read_all CHUNK ''ab'' = [''a'']"
  by (simp add: read_all.simps read_line_param_def linebuf_read_line_def fgets_def c_str_def CHUNK_def
      read_line_loop.simps numeral_eq_Suc)

lemma last_line_of_buffer_length:
  assumes "NUL \<notin> set s" and "newline \<notin> set s" and "length s = CHUNK - 1"
  shows "read_all CHUNK s = []"
proof -
  have "fgets_take (CHUNK - 1) (s @ []) = (s, [])"
    using fgets_take_long [of s "CHUNK - 1" "[]"] assms by simp
  moreover have ne: "s \<noteq> []" using assms by (auto simp: CHUNK_def)
  moreover have "last s \<noteq> NUL" "last s \<noteq> newline" using assms last_in_set [OF ne] by metis+
  ultimately show ?thesis using assms
    by (auto simp: read_all.simps [of CHUNK] read_line_param_def linebuf_read_line_def fgets_def
        read_line_loop.simps [of CHUNK] split: if_splits)
qed

end
