(* ===== verification/Names.thy ===== *)
theory Names
  imports Line_Reader
begin

text \<open>
  File names and lists in arguments: \<open>split_filename\<close> (fnsplit.cc), \<open>class sccs_name\<close>
  (sccsname.h, sccsname.cc), and the splitting of MR and comment arguments and of files into
  lines (l-split.cc).

  The lock of an \<open>sccs_name\<close> is its counter together with the file it stands for; whether the
  lock file can be created is the argument \<open>create\<close>. \<open>unlock\<close> gives up the lock object without
  destroying it, so the lock file stays until the program exits.
\<close>

section \<open>Splitting a file name\<close>

fun last_slash :: "string \<Rightarrow> nat option" where
  "last_slash [] = None"
| "last_slash (c # s) =
     (case last_slash s of Some i \<Rightarrow> Some (Suc i) | None \<Rightarrow> if c = CHR ''/'' then Some 0 else None)"

definition split_filename :: "string \<Rightarrow> (string \<times> string) res" where
  "split_filename fullname =
     bindE (ASSERT (length fullname > 0)) (\<lambda>_.
       case last_slash fullname of
         Some i \<Rightarrow> Inr (take (i + 1) fullname, drop (i + 1) fullname)
       | None \<Rightarrow> Inr ([], fullname))"

definition base_part :: "string \<Rightarrow> string res" where
  "base_part name = bindE (split_filename name) (\<lambda>(d, b). Inr b)"

section \<open>Names of s-files\<close>

record sccs_name =
  sname :: string
  gname :: string
  name_front :: string
  name_rear :: string
  lock_held :: bool
  lock_cnt :: int

definition valid_filename :: "string \<Rightarrow> bool res" where
  "valid_filename thename =
     (if thename = [] then Inr False
      else bindE (base_part thename) (\<lambda>base.
        if length base < 2 \<or> base ! 0 \<noteq> CHR ''s'' \<or> base ! 1 \<noteq> CHR ''.'' then Inr False else Inr True))"

definition name_valid :: "sccs_name \<Rightarrow> bool" where
  "name_valid n \<longleftrightarrow> length (sname n) > 0"

definition new_name :: sccs_name where
  "new_name = \<lparr>sname = [], gname = [], name_front = [], name_rear = [], lock_held = False, lock_cnt = 0\<rparr>"

definition name_create :: "sccs_name \<Rightarrow> sccs_name res" where
  "name_create n =
     bindE (split_filename (sname n)) (\<lambda>(dirname, basename).
       if length basename \<ge> 2
       then Inr (n\<lparr>name_front := dirname, name_rear := drop 1 basename, gname := drop 2 basename\<rparr>)
       else Inr (n\<lparr>name_front := dirname, name_rear := basename, gname := []\<rparr>))"

definition name_assign :: "string \<Rightarrow> sccs_name \<Rightarrow> sccs_name res" where
  "name_assign newname n =
     bindE (ASSERT (length newname \<noteq> 0)) (\<lambda>_. name_create (n\<lparr>sname := newname\<rparr>))"

definition sub_file :: "char \<Rightarrow> sccs_name \<Rightarrow> string" where
  "sub_file insertme n = name_front n @ [insertme] @ name_rear n"

definition lfile :: "sccs_name \<Rightarrow> string" where
  "lfile n = ''l'' @ name_rear n"

text \<open>\<open>make_valid\<close>, with the test whether a file is readable as an argument. Its second
  assertion only holds for names that are valid already.\<close>

definition make_valid :: "(string \<Rightarrow> bool) \<Rightarrow> sccs_name \<Rightarrow> sccs_name res" where
  "make_valid is_readable n =
     bindE (ASSERT (length (sname n) \<noteq> 0)) (\<lambda>_.
     bindE (valid_filename (sname n)) (\<lambda>v.
     bindE (ASSERT v) (\<lambda>_.
     bindE (split_filename (sname n)) (\<lambda>(dirpart, basepart).
       let s_dot_foo = ''s.'' @ basepart;
           s1 = dirpart @ s_dot_foo;
           tmp = dirpart @ ''SCCS/'' @ s_dot_foo;
           s2 = (if \<not> is_readable s1 \<and> is_readable tmp then tmp else s1)
       in name_create (n\<lparr>sname := s2\<rparr>)))))"

definition name_lock :: "bool \<Rightarrow> sccs_name \<Rightarrow> bool \<times> sccs_name" where
  "name_lock created n =
     (if lock_cnt n = 0 then (created, n\<lparr>lock_held := created, lock_cnt := lock_cnt n + 1\<rparr>)
      else (True, n\<lparr>lock_cnt := lock_cnt n + 1\<rparr>))"

definition name_unlock :: "sccs_name \<Rightarrow> sccs_name" where
  "name_unlock n = n\<lparr>lock_cnt := lock_cnt n - 1\<rparr>"

section \<open>Splitting arguments\<close>

text \<open>\<open>strtok\<close> with the delimiters blank, tab and newline.\<close>

definition mr_delim :: "char \<Rightarrow> bool" where
  "mr_delim c \<longleftrightarrow> c \<in> {CHR '' '', CHR 0x09, newline}"

function split_mrs :: "string \<Rightarrow> string list" where
  "split_mrs s =
     (let t = dropWhile mr_delim s
      in if t = [] then [] else takeWhile (\<lambda>c. \<not> mr_delim c) t # split_mrs (dropWhile (\<lambda>c. \<not> mr_delim c) t))"
  by pat_completeness auto
termination
proof (relation "measure length", simp, goal_cases)
  case (1 s t)
  then have "\<not> mr_delim (hd t)" "t \<noteq> []" using hd_dropWhile [of mr_delim s] by auto
  then have "length (dropWhile (\<lambda>c. \<not> mr_delim c) t) < length t"
    by (cases t) (auto simp: less_Suc_eq_le length_dropWhile_le)
  also have "length t \<le> length s" using 1 by (simp add: length_dropWhile_le)
  finally show ?case by simp
qed

declare split_mrs.simps [simp del]

text \<open>
  Both functions read C strings: the arguments of a command, and what \<open>prompt_user\<close> has read, which ends at a
  NUL. So the strings here hold no NUL, and \<open>c_str\<close> drops nothing.
\<close>

function split_comments :: "string \<Rightarrow> string list" where
  "split_comments s =
     (case split_at newline s of
        (a, Some r) \<Rightarrow> a # split_comments r
      | (a, None) \<Rightarrow> if a \<noteq> [] then [a] else [])"
  by pat_completeness auto
termination
  by (relation "measure length") (auto dest: split_at_Some_length [OF sym])

declare split_comments.simps [simp del]

text \<open>\<open>read_file_lines\<close>: the loop over the characters of a file.\<close>

fun file_lines_loop :: "string list \<Rightarrow> string \<Rightarrow> bool \<Rightarrow> string \<Rightarrow> string list" where
  "file_lines_loop tmp s empt [] = (if \<not> empt then tmp @ [s] else tmp)"
| "file_lines_loop tmp s empt (ch # f) =
     (if ch = newline then file_lines_loop (tmp @ [s]) [] True f
      else file_lines_loop tmp (s @ [ch]) False f)"

definition read_file_lines :: "string \<Rightarrow> string list" where
  "read_file_lines f = file_lines_loop [] [] True f"

section \<open>Properties\<close>

lemma last_slash_None: "last_slash s = None \<longleftrightarrow> CHR ''/'' \<notin> set s"
  by (induction s) (auto split: option.splits)

lemma last_slash_Some:
  "last_slash s = Some i \<Longrightarrow> i < length s \<and> s ! i = CHR ''/'' \<and> CHR ''/'' \<notin> set (drop (Suc i) s)"
  by (induction s arbitrary: i) (auto split: option.splits if_splits simp: last_slash_None)

lemma split_filename_parts:
  assumes "s \<noteq> []"
  obtains d b where "split_filename s = Inr (d, b)" "s = d @ b" "CHR ''/'' \<notin> set b" "d = [] \<or> last d = CHR ''/''"
proof (cases "last_slash s")
  case None
  moreover have "CHR ''/'' \<notin> set s" using None last_slash_None [of s] by blast
  ultimately show ?thesis using that [of "[]" s] assms by (simp add: split_filename_def)
next
  case (Some i)
  then have i: "i < length s" "s ! i = CHR ''/''" "CHR ''/'' \<notin> set (drop (Suc i) s)"
    using last_slash_Some by auto
  have "last (take (Suc i) s) = CHR ''/''" using i by (simp add: take_Suc_conv_app_nth)
  then show ?thesis
    using that [of "take (i + 1) s" "drop (i + 1) s"] i assms Some by (simp add: split_filename_def)
qed

lemma split_filename_unique:
  assumes "CHR ''/'' \<notin> set b" and "d = [] \<or> last d = CHR ''/''" and "d @ b \<noteq> []"
  shows "split_filename (d @ b) = Inr (d, b)"
proof -
  obtain d' b' where p: "split_filename (d @ b) = Inr (d', b')" "d @ b = d' @ b'" "CHR ''/'' \<notin> set b'"
    "d' = [] \<or> last d' = CHR ''/''"
    using split_filename_parts [OF assms(3)] by metis
  have aux: "e = []" if "d1 @ e @ b1 = d1 @ e @ b2" "CHR ''/'' \<notin> set (e @ b2)" "d1 @ e = [] \<or> last (d1 @ e) = CHR ''/''"
    for d1 e b1 b2 :: string
    using that by (cases e rule: rev_cases) auto
  from p(2) have "d = d' \<and> b = b'"
    by (auto simp: append_eq_append_conv2) (use aux assms(1,2) p(3,4) in \<open>metis append_Nil2 append_Nil\<close>)+
  then show ?thesis using p(1) by simp
qed

text \<open>
  C32. For the name of an s-file, a directory part that is empty or ends in a slash followed by
  \<open>s.\<close> and a module name without slashes: the name is accepted, the g-file is the module name in
  the current directory, and the other files differ from the s-file only in the first letter
  of the last component, so files with different letters are different and none of them is
  the s-file.
\<close>

theorem sccs_name_files:
  assumes "CHR ''/'' \<notin> set m" and "d = [] \<or> last d = CHR ''/''"
  shows "valid_filename (d @ ''s.'' @ m) = Inr True
    \<and> (\<exists>n. name_assign (d @ ''s.'' @ m) new_name = Inr n \<and> name_valid n \<and> gname n = m
        \<and> lfile n = ''l.'' @ m
        \<and> (\<forall>c. sub_file c n = d @ c # ''.'' @ m)
        \<and> (\<forall>c e. sub_file c n = sub_file e n \<longleftrightarrow> c = e)
        \<and> (\<forall>c. sub_file c n = sname n \<longleftrightarrow> c = CHR ''s''))"
proof -
  have sp: "split_filename (d @ ''s.'' @ m) = Inr (d, ''s.'' @ m)"
    using assms by (intro split_filename_unique) auto
  then have "valid_filename (d @ ''s.'' @ m) = Inr True"
    by (simp add: valid_filename_def base_part_def)
  then show ?thesis using sp
    by (simp add: name_assign_def name_create_def new_name_def name_valid_def lfile_def sub_file_def)
qed

theorem sccs_name_files_witness:
  "valid_filename ''SCCS/s.main.c'' = Inr True
   \<and> (\<exists>n. name_assign ''SCCS/s.main.c'' new_name = Inr n \<and> gname n = ''main.c'' \<and> sub_file (CHR ''p'') n = ''SCCS/p.main.c'')"
  using sccs_name_files [of "''main.c''" "''SCCS/''"] by auto

text \<open>The words of a string of MRs hold no delimiter and are not empty.\<close>

lemma split_mrs_words: "w \<in> set (split_mrs s) \<Longrightarrow> w \<noteq> [] \<and> (\<forall>c \<in> set w. \<not> mr_delim c)"
proof (induction s rule: split_mrs.induct)
  case (1 s)
  define t where "t = dropWhile mr_delim s"
  show ?case
  proof (cases "t = []")
    case True
    then show ?thesis using "1.prems" by (simp add: split_mrs.simps [of s] t_def)
  next
    case False
    then have "\<not> mr_delim (hd t)" using hd_dropWhile [of mr_delim s] by (simp add: t_def)
    then have "takeWhile (\<lambda>c. \<not> mr_delim c) t \<noteq> []" using False by (cases t) auto
    moreover have "split_mrs s = takeWhile (\<lambda>c. \<not> mr_delim c) t # split_mrs (dropWhile (\<lambda>c. \<not> mr_delim c) t)"
      using False by (subst split_mrs.simps) (simp add: Let_def t_def)
    moreover have "\<forall>c \<in> set (takeWhile (\<lambda>c. \<not> mr_delim c) t). \<not> mr_delim c" by (blast dest: set_takeWhileD)
    ultimately show ?thesis using "1.prems" "1.IH" [OF t_def False] by (metis set_ConsD)
  qed
qed

lemma split_comments_step:
  "newline \<notin> set a \<Longrightarrow> split_comments (a @ newline # r) = a # split_comments r"
  "newline \<notin> set a \<Longrightarrow> a \<noteq> [] \<Longrightarrow> split_comments a = [a]"
  "split_comments [] = []"
  by (subst split_comments.simps, simp)+

lemma file_lines_loop_step:
  "newline \<notin> set a \<Longrightarrow> file_lines_loop tmp s e (a @ f) = file_lines_loop tmp (s @ a) (e \<and> a = []) f"
  by (induction a arbitrary: s e) auto

text \<open>
  C33. Joining lines with newlines, with or without one after a last line that is not empty, and
  splitting again gives the lines: for comments given on the command line and for a file of
  lines alike, and the two functions agree.
\<close>

theorem split_comments_lines:
  assumes "\<forall>l \<in> set ls. newline \<notin> set l" and "newline \<notin> set a"
  shows "split_comments (unlines ls @ a) = ls @ (if a = [] then [] else [a])
         \<and> read_file_lines (unlines ls @ a) = ls @ (if a = [] then [] else [a])"
proof -
  have "split_comments (unlines ls @ a) = ls @ (if a = [] then [] else [a])"
    using assms by (induction ls) (auto simp: split_comments_step)
  moreover have "file_lines_loop tmp [] True (unlines ls @ a) = tmp @ ls @ (if a = [] then [] else [a])" for tmp
    using assms
  proof (induction ls arbitrary: tmp)
    case Nil
    then show ?case using file_lines_loop_step [of a tmp "[]" True "[]"] by simp
  next
    case (Cons l ls)
    then show ?case using file_lines_loop_step [of l tmp "[]" True "newline # unlines ls @ a"] by simp
  qed
  ultimately show ?thesis by (simp add: read_file_lines_def)
qed

theorem split_comments_lines_witness:
  "split_comments (unlines [''one'', [], ''three''] @ ''four'') = [''one'', [], ''three'', ''four'']
   \<and> read_file_lines (unlines [''one'', [], ''three''] @ ''four'') = [''one'', [], ''three'', ''four'']"
  using split_comments_lines [of "[''one'', [], ''three'']" "''four''"] by simp

end
