(* ===== verification/Sid.thy ===== *)
theory Sid
  imports Prelude
begin

text \<open>
  SCCS identifiers: \<open>class sid\<close> (sid.h, sid.cc), \<open>class release\<close> (release.h, release.cc) and
  \<open>class relvbr\<close> (relvbr.h, relvbr.cc). The four \<open>short\<close> members of a \<open>sid\<close> are the fields of a
  record; \<open>release\<close> and \<open>relvbr\<close> are datatypes whose comparison operators make them instances
  of \<open>linorder\<close>. The comparison operators of \<open>sid\<close> are a partial order only, so they are
  ordinary functions. The main results: printing and parsing a SID are inverse, and on the
  SIDs of the trunk the operators are a linear order in which \<open>++\<close> is the next element.
\<close>

section \<open>release\<close>

datatype release = Release (rel_no: int)

definition release_default :: release where
  "release_default = Release (-1)"

definition release_valid :: "release \<Rightarrow> bool" where
  "release_valid r \<longleftrightarrow> rel_no r > 0"

definition release_inc :: "release \<Rightarrow> release" where
  "release_inc r = Release (short_of (rel_no r + 1))"

definition release_dec :: "release \<Rightarrow> release" where
  "release_dec r = Release (short_of (rel_no r - 1))"

instantiation release :: linorder
begin

definition less_release :: "release \<Rightarrow> release \<Rightarrow> bool" where
  "less_release r1 r2 \<longleftrightarrow> rel_no r1 < rel_no r2"

definition less_eq_release :: "release \<Rightarrow> release \<Rightarrow> bool" where
  "less_eq_release r1 r2 \<longleftrightarrow> rel_no r1 \<le> rel_no r2"

instance
  by standard (auto simp: less_release_def less_eq_release_def release.expand)

end

definition release_print :: "release \<Rightarrow> string" where
  "release_print r = show_int (rel_no r)"

section \<open>relvbr: release, level and branch\<close>

datatype relvbr = Relvbr (rv_rel: int) (rv_level: int) (rv_branch: int)

definition relvbr_default :: relvbr where
  "relvbr_default = Relvbr (-1) (-1) (-1)"

definition relvbr_valid :: "relvbr \<Rightarrow> bool" where
  "relvbr_valid r \<longleftrightarrow> rv_rel r > 0 \<and> rv_level r > 0 \<and> rv_branch r > 0"

instantiation relvbr :: linorder
begin

definition less_relvbr :: "relvbr \<Rightarrow> relvbr \<Rightarrow> bool" where
  "less_relvbr r1 r2 \<longleftrightarrow>
     rv_rel r1 < rv_rel r2 \<or>
     (rv_rel r1 = rv_rel r2 \<and>
      (rv_level r1 < rv_level r2 \<or>
       (rv_level r1 = rv_level r2 \<and> rv_branch r1 < rv_branch r2)))"

definition less_eq_relvbr :: "relvbr \<Rightarrow> relvbr \<Rightarrow> bool" where
  "less_eq_relvbr r1 r2 \<longleftrightarrow>
     rv_rel r1 < rv_rel r2 \<or>
     (rv_rel r1 = rv_rel r2 \<and>
      (rv_level r1 < rv_level r2 \<or>
       (rv_level r1 = rv_level r2 \<and> rv_branch r1 \<le> rv_branch r2)))"

instance
  by standard (auto simp: less_relvbr_def less_eq_relvbr_def relvbr.expand)

end

definition relvbr_print :: "relvbr \<Rightarrow> string" where
  "relvbr_print r = show_int (rv_rel r) @ ''.'' @ show_int (rv_level r) @ ''.'' @ show_int (rv_branch r)"

section \<open>sid\<close>

record sid =
  rel :: int
  level :: int
  branch :: int
  sequence :: int

abbreviation mk_sid :: "int \<Rightarrow> int \<Rightarrow> int \<Rightarrow> int \<Rightarrow> sid" where
  "mk_sid r l b s \<equiv> \<lparr>rel = r, level = l, branch = b, sequence = s\<rparr>"

text \<open>The four-argument constructor asserts that no component follows a zero one.\<close>

definition sid_ctor4 :: "int \<Rightarrow> int \<Rightarrow> int \<Rightarrow> int \<Rightarrow> sid res" where
  "sid_ctor4 r l b s =
     bindE (ASSERT ((r = 0 \<and> l = 0 \<and> b = 0 \<and> s = 0)
                    \<or> (r \<noteq> 0 \<and> l = 0 \<and> b = 0 \<and> s = 0)
                    \<or> (r \<noteq> 0 \<and> l \<noteq> 0 \<and> b = 0 \<and> s = 0)
                    \<or> (r \<noteq> 0 \<and> l \<noteq> 0 \<and> b \<noteq> 0)))
       (\<lambda>_. Inr (mk_sid r l b s))"

definition sid_default :: sid where
  "sid_default = mk_sid (-1) 0 0 0"

definition null_sid :: sid where
  "null_sid = mk_sid 0 0 0 0"

text \<open>
  \<open>get_id_comp\<close> reads one component and advances the pointer it is given. The accumulator
  is an \<open>int\<close>; the result is converted to \<open>short\<close>. On a bad character the pointer stays there.
\<close>

fun get_id_comp_loop :: "int \<Rightarrow> string \<Rightarrow> int \<times> string" where
  "get_id_comp_loop n [] = (short_of n, [])"
| "get_id_comp_loop n (c # s) =
     (if c = CHR ''.'' then (if n = 0 then (-1, c # s) else (short_of n, s))
      else if isdigit c then get_id_comp_loop (int_of32 (n * 10 + int (digit_val c))) s
      else (-1, c # s))"

definition get_id_comp :: "string \<Rightarrow> int \<times> string" where
  "get_id_comp s = get_id_comp_loop 0 s"

definition sid_of_string :: "string \<Rightarrow> sid" where
  "sid_of_string s =
     (let (r, s) = get_id_comp s;
          (l, s) = get_id_comp s;
          (b, s) = get_id_comp s;
          (q, s) = get_id_comp s
      in mk_sid (if s \<noteq> [] \<or> r = 0 \<or> q = -1 then -1 else r) l b q)"

definition sid_of_release :: "release \<Rightarrow> sid" where
  "sid_of_release r = mk_sid (rel_no r) 0 0 0"

definition release_of_sid :: "sid \<Rightarrow> release" where
  "release_of_sid s = Release (rel s)"

definition get_relvbr :: "sid \<Rightarrow> relvbr" where
  "get_relvbr s = Relvbr (rel s) (level s) (branch s)"

text \<open>\<open>release\<close> and \<open>relvbr\<close> from a string; \<open>None\<close> is the null pointer.\<close>

definition release_of_string :: "string option \<Rightarrow> release" where
  "release_of_string so =
     (case so of None \<Rightarrow> Release 0
      | Some s \<Rightarrow> (let (r, s) = get_id_comp s
                  in Release (if s \<noteq> [] \<or> r = 0 then -1 else r)))"

definition relvbr_of_string :: "string option \<Rightarrow> relvbr" where
  "relvbr_of_string so =
     (case so of None \<Rightarrow> Relvbr 0 0 0
      | Some s \<Rightarrow> (let (r, s) = get_id_comp s;
                      (l, s) = get_id_comp s;
                      (b, s) = get_id_comp s
                  in if s \<noteq> [] \<or> r = 0 then Relvbr (-1) (-1) (-1) else Relvbr r l b))"

definition is_null :: "sid \<Rightarrow> bool" where
  "is_null s \<longleftrightarrow> rel s \<le> 0"

definition sid_valid :: "sid \<Rightarrow> bool" where
  "sid_valid s \<longleftrightarrow> rel s > 0"

definition partial_sid :: "sid \<Rightarrow> bool" where
  "partial_sid s \<longleftrightarrow> level s = 0 \<or> (branch s \<noteq> 0 \<and> sequence s = 0)"

definition comparable :: "sid \<Rightarrow> sid \<Rightarrow> bool" where
  "comparable s t =
     (if \<not> sid_valid s \<or> \<not> sid_valid t then False
      else if branch s \<noteq> branch t then False
      else if branch s \<noteq> 0 \<and> rel s \<noteq> rel t \<and> level s \<noteq> level t then False
      else True)"

definition gt :: "sid \<Rightarrow> sid \<Rightarrow> bool" where
  "gt s t =
     (if rel s > rel t then True
      else if rel s \<noteq> rel t then False
      else if level s > level t then True
      else if level s \<noteq> level t then False
      else sequence s > sequence t)"

definition gte :: "sid \<Rightarrow> sid \<Rightarrow> bool" where
  "gte s t =
     (if rel s > rel t then True
      else if rel s \<noteq> rel t then False
      else if level s > level t then True
      else if level s \<noteq> level t then False
      else sequence s \<ge> sequence t)"

definition sid_gt :: "sid \<Rightarrow> sid \<Rightarrow> bool" where
  "sid_gt s t \<longleftrightarrow> comparable s t \<and> gt s t"

definition sid_ge :: "sid \<Rightarrow> sid \<Rightarrow> bool" where
  "sid_ge s t \<longleftrightarrow> comparable s t \<and> gte s t"

definition sid_lt :: "sid \<Rightarrow> sid \<Rightarrow> bool" where
  "sid_lt s t \<longleftrightarrow> comparable s t \<and> \<not> gte s t"

definition sid_le :: "sid \<Rightarrow> sid \<Rightarrow> bool" where
  "sid_le s t \<longleftrightarrow> comparable s t \<and> \<not> gt s t"

definition next_branch :: "sid \<Rightarrow> sid" where
  "next_branch s = s\<lparr>branch := short_of (branch s + 1), sequence := 1\<rparr>"

definition next_level :: "sid \<Rightarrow> sid" where
  "next_level s = s\<lparr>level := short_of (level s + 1), branch := 0, sequence := 0\<rparr>"

definition sid_inc :: "sid \<Rightarrow> sid" where
  "sid_inc s =
     (if branch s \<noteq> 0 then s\<lparr>sequence := short_of (sequence s + 1)\<rparr>
      else if level s \<noteq> 0 then s\<lparr>level := short_of (level s + 1)\<rparr>
      else s\<lparr>rel := short_of (rel s + 1)\<rparr>)"

definition sid_dec :: "sid \<Rightarrow> sid" where
  "sid_dec s =
     (if branch s \<noteq> 0 then s\<lparr>sequence := short_of (sequence s - 1)\<rparr>
      else if level s \<noteq> 0 then s\<lparr>level := short_of (level s - 1)\<rparr>
      else s\<lparr>rel := short_of (rel s - 1)\<rparr>)"

definition is_trunk_successor :: "sid \<Rightarrow> sid \<Rightarrow> bool" where
  "is_trunk_successor s t \<longleftrightarrow> branch s = 0 \<and> sid_lt s t"

definition branch_greater_than :: "sid \<Rightarrow> sid \<Rightarrow> bool" where
  "branch_greater_than s t \<longleftrightarrow> rel s = rel t \<and> level s = level t \<and> branch s > branch t"

definition release_only :: "sid \<Rightarrow> bool" where
  "release_only s \<longleftrightarrow> rel s \<noteq> 0 \<and> level s = 0"

definition trunk_match :: "sid \<Rightarrow> sid \<Rightarrow> bool" where
  "trunk_match s t \<longleftrightarrow> rel s = 0 \<or> (rel s = rel t \<and> (level s = 0 \<or> level s = level t))"

text \<open>The last comparison is against the release of the other SID, as the source has it.\<close>

definition partial_match :: "sid \<Rightarrow> sid \<Rightarrow> bool" where
  "partial_match s t =
     (if \<not> comparable s t then False
      else if rel s = 0 then True
      else if rel s \<noteq> rel t then False
      else if level s = 0 then True
      else if level s \<noteq> level t then False
      else if branch s = 0 then True
      else if branch s \<noteq> branch t then False
      else sequence s = 0 \<or> sequence s = rel t)"

definition successor :: "sid \<Rightarrow> sid res" where
  "successor s =
     (if is_null s then sid_ctor4 1 1 0 0
      else if branch s \<noteq> 0 then
        sid_ctor4 (rel s) (level s) (branch s) (short_of (sequence s + 1))
      else sid_ctor4 (rel s) (short_of (level s + 1)) 0 0)"

definition components :: "sid \<Rightarrow> nat" where
  "components s =
     (if sid_valid s \<and> rel s \<noteq> 0 then
        if level s \<noteq> 0 then
          if branch s \<noteq> 0 then
            if sequence s \<noteq> 0 then 4 else 3
          else 2
        else 1
      else 0)"

definition on_trunk :: "sid \<Rightarrow> bool" where
  "on_trunk s \<longleftrightarrow> components s = 2"

text \<open>\<open>matches\<close> compares the first \<open>nfields\<close> components.\<close>

definition sid_matches_fields :: "sid \<Rightarrow> sid \<Rightarrow> nat \<Rightarrow> bool" where
  "sid_matches_fields s m nfields =
     (if nfields = 0 then True
      else if rel s \<noteq> rel m then False
      else if nfields - 1 = 0 then True
      else if level s \<noteq> level m then False
      else if nfields - 2 = 0 then True
      else if branch s \<noteq> branch m then False
      else if nfields - 3 = 0 then True
      else if sequence s \<noteq> sequence m then False
      else True)"

definition sid_as_string :: "sid \<Rightarrow> string" where
  "sid_as_string s =
     show_int (rel s) @
     (if level s \<noteq> 0 then
        ''.'' @ show_int (level s) @
        (if branch s \<noteq> 0 then
           ''.'' @ show_int (branch s) @
           (if sequence s \<noteq> 0 then ''.'' @ show_int (sequence s) else [])
         else [])
      else [])"

definition sid_print :: "sid \<Rightarrow> string res" where
  "sid_print s =
     bindE (ASSERT (sid_valid s)) (\<lambda>_. bindE (ASSERT (rel s \<noteq> 0)) (\<lambda>_. Inr (sid_as_string s)))"

definition sid_dprint :: "sid \<Rightarrow> string" where
  "sid_dprint s = show_int (rel s) @ ''.'' @ show_int (level s) @ ''.'' @
                  show_int (branch s) @ ''.'' @ show_int (sequence s)"

definition sid_printf :: "sid \<Rightarrow> char \<Rightarrow> bool \<Rightarrow> string res" where
  "sid_printf s c force_zero =
     bindE (ASSERT (sid_valid s)) (\<lambda>_.
     bindE (ASSERT (\<not> partial_sid s)) (\<lambda>_.
       if c = CHR ''R'' then Inr (show_int (rel s))
       else if c = CHR ''L'' then Inr (show_int (level s))
       else if c = CHR ''B'' then
         (if \<not> force_zero \<and> branch s = 0 \<and> sequence s = 0 then Inr [] else Inr (show_int (branch s)))
       else if c = CHR ''S'' then
         (if \<not> force_zero \<and> branch s = 0 \<and> sequence s = 0 then Inr [] else Inr (show_int (sequence s)))
       else Inl Assertion))"

section \<open>Printing and parsing\<close>

text \<open>
  A SID as the rest of the program builds it: the release is positive, a component that is
  zero is followed by zeroes only, and every component is a \<open>short\<close>.
\<close>

definition sid_wf :: "sid \<Rightarrow> bool" where
  "sid_wf s \<longleftrightarrow>
     0 < rel s \<and> 0 \<le> level s \<and> 0 \<le> branch s \<and> 0 \<le> sequence s
     \<and> (level s = 0 \<longrightarrow> branch s = 0) \<and> (branch s = 0 \<longrightarrow> sequence s = 0)
     \<and> rel s \<le> 32767 \<and> level s \<le> 32767 \<and> branch s \<le> 32767 \<and> sequence s \<le> 32767"

lemma get_id_comp_loop_digits:
  assumes "list_all isdigit d" and "dec_val n d \<le> 2147483647"
  shows "get_id_comp_loop (int n) (d @ s) = get_id_comp_loop (int (dec_val n d)) s"
  using assms
proof (induction d arbitrary: n)
  case (Cons c d)
  have "n * 10 + digit_val c \<le> dec_val n (c # d)"
    using dec_val_mono [of "n * 10 + digit_val c" d] by simp
  with Cons.prems(2) have bound: "n * 10 + digit_val c \<le> 2147483647"
    by linarith
  have step: "int_of32 (int n * 10 + int (digit_val c)) = int (n * 10 + digit_val c)"
  proof (subst int_of32_id)
    show "- 2147483648 \<le> int n * 10 + int (digit_val c)" by simp
    show "int n * 10 + int (digit_val c) \<le> 2147483647" using bound by linarith
  qed simp
  have "c \<noteq> CHR ''.''" using Cons.prems(1) by auto
  with Cons.prems step Cons.IH [of "n * 10 + digit_val c"] show ?case by simp
qed simp

lemma get_id_comp_last:
  assumes "0 \<le> n" and "n \<le> 32767"
  shows "get_id_comp (show_int n) = (n, [])"
  using assms get_id_comp_loop_digits [of "show_nat (nat n)" 0 "[]"]
  by (simp add: get_id_comp_def show_int_def)

lemma get_id_comp_dot:
  assumes "0 < n" and "n \<le> 32767"
  shows "get_id_comp (show_int n @ CHR ''.'' # s) = (n, s)"
  using assms get_id_comp_loop_digits [of "show_nat (nat n)" 0 "CHR ''.'' # s"]
  by (simp add: get_id_comp_def show_int_def)

lemma get_id_comp_Nil [simp]: "get_id_comp [] = (0, [])"
  by (simp add: get_id_comp_def)

lemmas get_id_comp_simps = get_id_comp_last get_id_comp_dot

lemma sid_of_string_as_string:
  assumes "sid_wf s"
  shows "sid_of_string (sid_as_string s) = s"
  using assms
  by (cases "level s = 0"; cases "branch s = 0"; cases "sequence s = 0")
     (auto simp: sid_wf_def sid_of_string_def sid_as_string_def get_id_comp_simps)

text \<open>The text of a SID: digits and dots, at most 23 of them.\<close>

lemma sid_print_text: "sid_wf s \<Longrightarrow> sid_print s = Inr (sid_as_string s)"
  by (simp add: sid_print_def sid_valid_def sid_wf_def)

lemma sid_text_chars:
  assumes "sid_wf s" and "\<not> isdigit c" and "c \<noteq> CHR ''.''"
  shows "c \<notin> set (sid_as_string s)"
  using assms by (auto simp: sid_wf_def sid_as_string_def show_int_def dest: show_nat_digits)

lemma length_show_short: "0 \<le> n \<Longrightarrow> n \<le> 32767 \<Longrightarrow> length (show_int n) \<le> 5"
  using length_show_nat [of "nat n" 4] by (simp add: show_int_def nat_less_iff)

lemma sid_text_length: "sid_wf s \<Longrightarrow> length (sid_as_string s) \<le> 23"
  using length_show_short [of "rel s"] length_show_short [of "level s"]
    length_show_short [of "branch s"] length_show_short [of "sequence s"]
  by (auto simp: sid_wf_def sid_as_string_def)

lemma sid_text_Nil: "sid_wf s \<Longrightarrow> sid_as_string s \<noteq> []"
  by (auto simp: sid_wf_def sid_as_string_def show_int_def)

section \<open>The order on the trunk and on a branch\<close>

text \<open>
  \<open>trunk_sid\<close> holds for a SID with two components, \<open>branch_sid r l b\<close> for a SID on branch \<open>b\<close>
  of version \<open>r.l\<close>. The bound leaves room for one increment in a \<open>short\<close>.
\<close>

definition trunk_sid :: "sid \<Rightarrow> bool" where
  "trunk_sid s \<longleftrightarrow> 0 < rel s \<and> rel s \<le> 32767 \<and> 0 < level s \<and> level s < 32767
                   \<and> branch s = 0 \<and> sequence s = 0"

definition branch_sid :: "int \<Rightarrow> int \<Rightarrow> int \<Rightarrow> sid \<Rightarrow> bool" where
  "branch_sid r l b s \<longleftrightarrow> rel s = r \<and> level s = l \<and> branch s = b \<and> 0 < r \<and> 0 < b
                          \<and> 0 < sequence s \<and> sequence s < 32767"

text \<open>The position of a SID on its line of development.\<close>

definition sid_key :: "sid \<Rightarrow> int" where
  "sid_key s = (if branch s = 0 then rel s * 65536 + level s else sequence s)"

lemmas sid_order_defs =
  sid_lt_def sid_le_def sid_gt_def sid_ge_def comparable_def gt_def gte_def sid_valid_def

lemma sid_key_trunk_less:
  assumes "0 \<le> level s" "level s \<le> 32767" "0 \<le> level t" "level t \<le> 32767"
  shows "rel s * 65536 + level s < rel t * 65536 + level t
         \<longleftrightarrow> rel s < rel t \<or> rel s = rel t \<and> level s < level t"
  using assms by auto

lemma sid_key_trunk_le:
  assumes "0 \<le> level s" "level s \<le> 32767" "0 \<le> level t" "level t \<le> 32767"
  shows "rel s * 65536 + level s \<le> rel t * 65536 + level t
         \<longleftrightarrow> rel s < rel t \<or> rel s = rel t \<and> level s \<le> level t"
  using assms by auto

lemmas sid_key_cmp = sid_key_trunk_less sid_key_trunk_le

section \<open>Properties\<close>

text \<open>
  C21. A SID of the form the program builds is printed without a failed assertion, and reading
  the printed text back gives the same SID, for one, two, three and four components.
\<close>

theorem sid_print_parse:
  assumes "sid_wf s"
  shows "sid_print s = Inr (sid_as_string s) \<and> sid_of_string (sid_as_string s) = s"
  using assms sid_of_string_as_string [OF assms]
  by (simp add: sid_print_def sid_valid_def sid_wf_def)

theorem sid_print_parse_witness:
  "sid_print (mk_sid 12 3 1 27) = Inr ''12.3.1.27''
   \<and> sid_of_string ''12.3.1.27'' = mk_sid 12 3 1 27"
proof -
  have "sid_wf (mk_sid 12 3 1 27)" by (simp add: sid_wf_def)
  moreover have "sid_as_string (mk_sid 12 3 1 27) = ''12.3.1.27''" by code_simp
  ultimately show ?thesis using sid_print_parse [of "mk_sid 12 3 1 27"] by simp
qed

text \<open>
  C22. On the trunk the operators of \<open>sid\<close> are a strict linear order; \<open>successor\<close> of a trunk SID
  is its increment, it is larger, and within the release nothing lies between the two.
\<close>

theorem sid_trunk_order:
  assumes "trunk_sid s" and "trunk_sid t" and "trunk_sid u"
  shows "(sid_lt s t \<or> s = t \<or> sid_lt t s)
         \<and> \<not> (sid_lt s t \<and> sid_lt t s)
         \<and> (sid_lt s t \<and> sid_lt t u \<longrightarrow> sid_lt s u)
         \<and> (sid_le s t \<longleftrightarrow> sid_lt s t \<or> s = t)
         \<and> successor s = Inr (sid_inc s) \<and> sid_lt s (sid_inc s)
         \<and> (sid_lt s t \<and> rel t = rel s \<longrightarrow> sid_le (sid_inc s) t)"
proof -
  note defs = sid_order_defs trunk_sid_def sid_inc_def successor_def is_null_def sid_ctor4_def
  have eq: "s = t \<longleftrightarrow> rel s = rel t \<and> level s = level t"
    using assms by (cases s; cases t) (auto simp: trunk_sid_def)
  have "successor s = Inr (sid_inc s)"
    using assms(1) by (cases s) (auto simp: trunk_sid_def sid_inc_def successor_def is_null_def sid_ctor4_def)
  moreover have "sid_lt s (sid_inc s)"
    using assms(1) by (auto simp: sid_order_defs trunk_sid_def sid_inc_def)
  moreover have "sid_lt s t \<and> rel t = rel s \<longrightarrow> sid_le (sid_inc s) t"
    using assms by (auto simp: sid_order_defs trunk_sid_def sid_inc_def)
  moreover have "sid_lt s t \<or> s = t \<or> sid_lt t s" "\<not> (sid_lt s t \<and> sid_lt t s)"
      "sid_le s t \<longleftrightarrow> sid_lt s t \<or> s = t"
    using assms eq by (auto simp: sid_order_defs trunk_sid_def)
  moreover have "sid_lt s t \<and> sid_lt t u \<longrightarrow> sid_lt s u"
    using assms by (auto simp: sid_order_defs trunk_sid_def)
  ultimately show ?thesis by blast
qed

theorem sid_trunk_order_witness:
  "sid_lt (mk_sid 1 9 0 0) (mk_sid 2 1 0 0) \<and> successor (mk_sid 1 9 0 0) = Inr (mk_sid 1 10 0 0)"
proof -
  have t: "trunk_sid (mk_sid 1 9 0 0)" "trunk_sid (mk_sid 2 1 0 0)" by (simp_all add: trunk_sid_def)
  have "\<not> sid_lt (mk_sid 2 1 0 0) (mk_sid 1 9 0 0)" by (simp add: sid_order_defs)
  then show ?thesis
    using sid_trunk_order [OF t t(1)] by (simp add: sid_inc_def)
qed

text \<open>
  Off the trunk the order is wider than the lines of development: two SIDs on different
  branches are comparable as soon as their releases or their levels agree.
\<close>

lemma sid_order_across_branches:
  "sid_lt (mk_sid 1 2 1 1) (mk_sid 1 3 1 1) \<and> sid_lt (mk_sid 1 2 1 1) (mk_sid 3 2 1 1)
   \<and> \<not> comparable (mk_sid 1 2 1 1) (mk_sid 3 4 1 1)"
  by (simp add: sid_order_defs)

text \<open>A component that does not fit a \<open>short\<close> is accepted and wraps around.\<close>

lemma sid_component_wraps: "sid_of_string ''65537.1'' = mk_sid 1 1 0 0"
  by code_simp

text \<open>A full SID with four components does not match itself partially, unless its sequence
  number happens to be its release.\<close>

lemma partial_match_not_reflexive: "\<not> partial_match (mk_sid 1 2 1 2) (mk_sid 1 2 1 2)"
  by (simp add: partial_match_def comparable_def sid_valid_def)

end
