(* ===== verification/Range_List.thy ===== *)
theory Range_List
  imports Sid
begin

text \<open>
  Lists of ranges and of releases: the template \<open>range_list<TYPE>\<close> (sid_list.h, sl-merge.h),
  of which \<open>sid_list\<close> is the instance that the program uses, and \<open>class release_list\<close>
  (rel_list.h, rel_list.cc, rl-merge.cc).

  The template parameter is the record \<open>elem_ops\<close> of the operators that the template calls.
  The linked list headed by \<open>head_\<close> is a list. The locale \<open>range_elem\<close> states what the operators
  have to satisfy for \<open>clean\<close> to be correct; the operators of \<open>sid\<close> satisfy it on the trunk
  together with one branch.
\<close>

section \<open>range_list\<close>

record 'a elem_ops =
  e_lt :: "'a \<Rightarrow> 'a \<Rightarrow> bool"
  e_le :: "'a \<Rightarrow> 'a \<Rightarrow> bool"
  e_gt :: "'a \<Rightarrow> 'a \<Rightarrow> bool"
  e_ge :: "'a \<Rightarrow> 'a \<Rightarrow> bool"
  e_inc :: "'a \<Rightarrow> 'a"
  e_dec :: "'a \<Rightarrow> 'a"

record 'a range =
  r_from :: 'a
  r_to :: 'a

record 'a range_list =
  head :: "'a range list"
  valid_flag :: bool

definition rl_empty :: "'a range_list" where
  "rl_empty = \<lparr>head = [], valid_flag = True\<rparr>"

definition rl_is_empty :: "'a range_list \<Rightarrow> bool" where
  "rl_is_empty l \<longleftrightarrow> head l = []"

definition rl_invalidate :: "'a range_list \<Rightarrow> 'a range_list" where
  "rl_invalidate l = l\<lparr>valid_flag := False\<rparr>"

text \<open>
  The second inner loop of \<open>clean\<close>: while \<open>sp\<close> overlaps or touches the next range of the new
  list, that range is merged into \<open>sp\<close> and deleted. \<open>t1\<close> is \<open>sp_to_1\<close>.
\<close>

fun absorb :: "'a elem_ops \<Rightarrow> 'a range \<Rightarrow> 'a \<Rightarrow> 'a range list \<Rightarrow> 'a range \<times> 'a range list" where
  "absorb ops sp t1 [] = (sp, [])"
| "absorb ops sp t1 (dp # ds) =
     (if e_le ops (r_from dp) t1 then
        let longer = e_gt ops (r_to dp) (r_to sp);
            sp' = (if longer then sp\<lparr>r_to := r_to dp\<rparr> else sp);
            t1' = (if longer then e_inc ops (r_to dp) else t1);
            sp'' = (if e_lt ops (r_from dp) (r_from sp') then sp'\<lparr>r_from := r_from dp\<rparr> else sp')
        in absorb ops sp'' t1' ds
      else (sp, dp # ds))"

text \<open>One turn of the outer loop of \<open>clean\<close>, for a range whose ends are in order.\<close>

definition insert_range :: "'a elem_ops \<Rightarrow> 'a range \<Rightarrow> 'a range list \<Rightarrow> 'a range list" where
  "insert_range ops sp new_head =
     (let below = (\<lambda>dp. e_lt ops (r_to dp) (e_dec ops (r_from sp)));
          (sp', rest) = absorb ops sp (e_inc ops (r_to sp)) (dropWhile below new_head)
      in takeWhile below new_head @ sp' # rest)"

fun clean_loop :: "'a elem_ops \<Rightarrow> 'a range list \<Rightarrow> 'a range list \<Rightarrow> bool \<Rightarrow> 'a range list \<times> bool" where
  "clean_loop ops [] new_head valid = (new_head, valid)"
| "clean_loop ops (sp # sps) new_head valid =
     (if e_le ops (r_from sp) (r_to sp) then clean_loop ops sps (insert_range ops sp new_head) valid
      else clean_loop ops sps new_head False)"

text \<open>\<open>clean\<close> returns whether the list is invalid, after rebuilding it in place.\<close>

definition clean :: "'a elem_ops \<Rightarrow> 'a range_list \<Rightarrow> bool \<times> 'a range_list" where
  "clean ops l =
     (if \<not> valid_flag l then (True, l)
      else let (h, v) = clean_loop ops (head l) [] True
           in (\<not> v, \<lparr>head = h, valid_flag = v\<rparr>))"

definition rl_member :: "'a elem_ops \<Rightarrow> 'a range_list \<Rightarrow> 'a \<Rightarrow> bool" where
  "rl_member ops l i = list_ex (\<lambda>p. e_le ops (r_from p) i \<and> e_le ops i (r_to p)) (head l)"

text \<open>
  The constructor from a string. Every item between commas is at most 63 characters long;
  empty items are skipped; each range is pushed at the front of the list.
\<close>

definition parse_range :: "(string \<Rightarrow> 'a) \<Rightarrow> string \<Rightarrow> 'a range" where
  "parse_range mk buf =
     (case split_at (CHR ''-'') buf of
        (a, None) \<Rightarrow> \<lparr>r_from = mk a, r_to = mk a\<rparr>
      | (a, Some b) \<Rightarrow> \<lparr>r_from = mk a, r_to = mk b\<rparr>)"

function parse_ranges :: "(string \<Rightarrow> 'a) \<Rightarrow> string \<Rightarrow> 'a range list \<Rightarrow> 'a range list res" where
  "parse_ranges mk s acc =
     (case split_at (CHR '','') s of
        (buf, tail) \<Rightarrow>
          if length buf + 1 > 64 then Inl (Fatal Range_too_long)
          else let acc' = (if buf = [] then acc else parse_range mk buf # acc)
               in (case tail of None \<Rightarrow> Inr acc' | Some s' \<Rightarrow> parse_ranges mk s' acc'))"
  by pat_completeness auto
termination
  by (relation "measure (\<lambda>(mk, s, acc). length s)") (auto dest: split_at_Some_length [OF sym])

declare parse_ranges.simps [simp del]

definition range_list_of_string ::
  "'a elem_ops \<Rightarrow> (string \<Rightarrow> 'a) \<Rightarrow> string option \<Rightarrow> 'a range_list res" where
  "range_list_of_string ops mk so =
     (case so of None \<Rightarrow> Inr rl_empty
      | Some [] \<Rightarrow> Inr rl_empty
      | Some s \<Rightarrow>
          bindE (parse_ranges mk s []) (\<lambda>h.
            case clean ops \<lparr>head = h, valid_flag = True\<rparr> of
              (True, l) \<Rightarrow> Inr \<lparr>head = [], valid_flag = False\<rparr>
            | (False, l) \<Rightarrow> bindE (ASSERT (valid_flag l)) (\<lambda>_. Inr l)))"

text \<open>Copying asserts that both lists are valid.\<close>

definition rl_copy :: "'a range_list \<Rightarrow> 'a range_list res" where
  "rl_copy l = bindE (ASSERT (valid_flag l)) (\<lambda>_. Inr \<lparr>head = head l, valid_flag = True\<rparr>)"

definition rl_assign :: "'a range_list \<Rightarrow> 'a range_list \<Rightarrow> 'a range_list res" where
  "rl_assign this l =
     bindE (ASSERT (valid_flag this)) (\<lambda>_.
     bindE (ASSERT (valid_flag l)) (\<lambda>_. Inr (this\<lparr>head := head l\<rparr>)))"

definition rl_merge :: "'a elem_ops \<Rightarrow> 'a range_list \<Rightarrow> 'a range_list \<Rightarrow> 'a range_list" where
  "rl_merge ops this l =
     (if \<not> valid_flag this \<or> \<not> valid_flag l then this
      else if head l = [] then this
      else snd (clean ops (this\<lparr>head := head this @ head l\<rparr>)))"

text \<open>
  \<open>remove\<close>: for a node \<open>dp\<close> of this list and a node \<open>sp\<close> of the argument, the two nodes after
  the three \<open>if\<close> statements and the new node \<open>p\<close>, if one is made. The third \<open>if\<close> changes
  \<open>sp->from\<close>, and makes \<open>p\<close> the head of the list with \<open>p->next = head_->next\<close>, so the
  node that was the head is no longer in the list.
\<close>

definition remove_node ::
  "'a elem_ops \<Rightarrow> 'a range \<Rightarrow> 'a range \<Rightarrow> 'a range \<times> 'a range \<times> 'a range option" where
  "remove_node ops sp dp =
     (let dp1 = (if e_le ops (r_from sp) (r_from dp) \<and> e_ge ops (r_to sp) (r_from dp)
                 then dp\<lparr>r_from := e_inc ops (r_to sp)\<rparr> else dp);
          dp2 = (if e_ge ops (r_to sp) (r_to dp1) \<and> e_le ops (r_from sp) (r_to dp1)
                 then dp1\<lparr>r_to := e_dec ops (r_from sp)\<rparr> else dp1)
      in if e_gt ops (r_from sp) (r_from dp2) \<and> e_lt ops (r_to sp) (r_to dp2)
         then (sp\<lparr>r_from := e_inc ops (r_to dp2)\<rparr>, dp2,
               Some \<lparr>r_from = r_from dp2, r_to = e_dec ops (r_from sp)\<rparr>)
         else (sp, dp2, None))"

fun remove_rest ::
  "'a elem_ops \<Rightarrow> 'a range \<Rightarrow> 'a range \<Rightarrow> 'a range list \<Rightarrow> 'a range \<times> 'a range list" where
  "remove_rest ops sp hd_node [] = (hd_node, [])"
| "remove_rest ops sp hd_node (dp # ds) =
     (case remove_node ops sp dp of
        (sp', dp', np) \<Rightarrow>
          (case remove_rest ops sp' (case np of None \<Rightarrow> hd_node | Some p \<Rightarrow> p) ds of
             (h, ds') \<Rightarrow> (h, dp' # ds')))"

fun remove_loop :: "'a elem_ops \<Rightarrow> 'a range list \<Rightarrow> 'a range list \<Rightarrow> 'a range list" where
  "remove_loop ops [] ds = ds"
| "remove_loop ops (sp # sps) [] = []"
| "remove_loop ops (sp # sps) (d # ds) =
     (case remove_node ops sp d of
        (sp', d', np) \<Rightarrow>
          (case remove_rest ops sp' (case np of None \<Rightarrow> d' | Some p \<Rightarrow> p) ds of
             (h, ds') \<Rightarrow> remove_loop ops sps (h # ds')))"

definition rl_remove :: "'a elem_ops \<Rightarrow> 'a range_list \<Rightarrow> 'a range_list \<Rightarrow> 'a range_list" where
  "rl_remove ops this l =
     (if \<not> valid_flag this \<or> \<not> valid_flag l then this
      else if head l = [] then this
      else if head this = [] then this
      else snd (clean ops (this\<lparr>head := remove_loop ops (head l) (head this)\<rparr>)))"

text \<open>Output: ranges separated by commas; a range of one element is printed once.\<close>

fun print_ranges :: "('a \<Rightarrow> string res) \<Rightarrow> 'a range list \<Rightarrow> string res" where
  "print_ranges pr [] = Inr []"
| "print_ranges pr (p # ps) =
     bindE (pr (r_from p)) (\<lambda>a.
     bindE (if r_to p \<noteq> r_from p then bindE (pr (r_to p)) (\<lambda>b. Inr (CHR ''-'' # b)) else Inr []) (\<lambda>b.
     if ps = [] then Inr (a @ b)
     else bindE (print_ranges pr ps) (\<lambda>r. Inr (a @ b @ CHR '','' # r))))"

definition rl_print :: "('a \<Rightarrow> string res) \<Rightarrow> 'a range_list \<Rightarrow> string res" where
  "rl_print pr l = (if rl_is_empty l \<or> \<not> valid_flag l then Inr [] else print_ranges pr (head l))"

text \<open>The instance for \<open>sid\<close>.\<close>

type_synonym sid_list = "sid range_list"

definition sid_ops :: "sid elem_ops" where
  "sid_ops = \<lparr>e_lt = sid_lt, e_le = sid_le, e_gt = sid_gt, e_ge = sid_ge,
              e_inc = sid_inc, e_dec = sid_dec\<rparr>"

abbreviation sid_list_member :: "sid_list \<Rightarrow> sid \<Rightarrow> bool" where
  "sid_list_member \<equiv> rl_member sid_ops"

definition sid_list_of_string :: "string option \<Rightarrow> sid_list res" where
  "sid_list_of_string = range_list_of_string sid_ops sid_of_string"

section \<open>release_list\<close>

type_synonym release_list = "release list"

definition rel_member :: "release_list \<Rightarrow> release \<Rightarrow> bool" where
  "rel_member rs r \<longleftrightarrow> r \<in> set rs"

definition rel_push :: "release \<Rightarrow> release_list \<Rightarrow> release_list" where
  "rel_push r rs = (if rel_member rs r then rs else rs @ [r])"

function release_list_loop :: "string \<Rightarrow> release_list \<Rightarrow> release_list res" where
  "release_list_loop s rs =
     (if s = [] then Inr rs
      else case strtol s of
        (n, e, p) \<Rightarrow>
          if p = s then Inr rs
          else if n < 0 then Inl (Fatal Ranges_not_allowed)
          else release_list_loop (if p \<noteq> [] \<and> hd p = CHR '','' then tl p else p)
                 (rel_push (Release (short_of n)) rs))"
  by pat_completeness auto
termination
proof (relation "measure (\<lambda>(s, rs). length s)", simp, goal_cases)
  case (1 s rs x n e p)
  then have "length p < length s"
    using strtol_rest_shorter [of s x e p] by (cases x) auto
  then show ?case by auto
qed

declare release_list_loop.simps [simp del]

definition release_list_of_string :: "string \<Rightarrow> release_list res" where
  "release_list_of_string s = release_list_loop s []"

fun rel_merge :: "release_list \<Rightarrow> release_list \<Rightarrow> release_list" where
  "rel_merge this [] = this"
| "rel_merge this (r # m) = rel_merge (rel_push r this) m"

fun rel_remove :: "release_list \<Rightarrow> release_list \<Rightarrow> release_list" where
  "rel_remove [] rm = []"
| "rel_remove (r # rs) rm = (if rel_member rm r then rel_remove rs rm else r # rel_remove rs rm)"

fun rel_print :: "release_list \<Rightarrow> string" where
  "rel_print [] = []"
| "rel_print [r] = release_print r"
| "rel_print (r # s # rs) = release_print r @ '' '' @ rel_print (s # rs)"

definition rel_valid :: "release_list \<Rightarrow> bool" where
  "rel_valid rs \<longleftrightarrow> rs \<noteq> []"

section \<open>What the element type has to satisfy\<close>

text \<open>
  Elements fall into classes (lines of development); elements of different classes are not
  comparable, those of one class are ordered by an integer \<open>key\<close>, and \<open>++\<close> and \<open>--\<close> step
  to the neighbouring key. \<open>ok\<close> says for which elements this is promised.
\<close>

locale range_elem =
  fixes ops :: "'a elem_ops"
    and ok :: "'a \<Rightarrow> bool"
    and cls :: "'a \<Rightarrow> 'c"
    and key :: "'a \<Rightarrow> int"
  assumes le_iff: "ok x \<Longrightarrow> ok y \<Longrightarrow> e_le ops x y \<longleftrightarrow> cls x = cls y \<and> key x \<le> key y"
    and lt_iff: "ok x \<Longrightarrow> ok y \<Longrightarrow> e_lt ops x y \<longleftrightarrow> cls x = cls y \<and> key x < key y"
    and gt_iff: "ok x \<Longrightarrow> ok y \<Longrightarrow> e_gt ops x y \<longleftrightarrow> cls x = cls y \<and> key x > key y"
    and le_inc_iff: "ok x \<Longrightarrow> ok y \<Longrightarrow> e_le ops y (e_inc ops x) \<longleftrightarrow> cls x = cls y \<and> key y \<le> key x + 1"
    and lt_dec_iff: "ok x \<Longrightarrow> ok y \<Longrightarrow> e_lt ops y (e_dec ops x) \<longleftrightarrow> cls x = cls y \<and> key y < key x - 1"
begin

definition range_ok :: "'a range \<Rightarrow> bool" where
  "range_ok r \<longleftrightarrow> ok (r_from r) \<and> ok (r_to r) \<and> cls (r_from r) = cls (r_to r)
                  \<and> key (r_from r) \<le> key (r_to r)"

definition covers :: "'a range \<Rightarrow> 'a \<Rightarrow> bool" where
  "covers r x \<longleftrightarrow> cls x = cls (r_from r) \<and> key (r_from r) \<le> key x \<and> key x \<le> key (r_to r)"

text \<open>The order of a cleaned list: neighbours of one class neither overlap nor touch.\<close>

definition apart :: "'a range \<Rightarrow> 'a range \<Rightarrow> bool" where
  "apart r q \<longleftrightarrow> (cls (r_from r) = cls (r_from q) \<longrightarrow> key (r_to r) + 1 < key (r_from q))"

fun chain :: "'a range list \<Rightarrow> bool" where
  "chain [] = True"
| "chain [r] = True"
| "chain (r # q # rs) = (apart r q \<and> chain (q # rs))"

lemma chain_ConsD: "chain (r # rs) \<Longrightarrow> chain rs"
  by (cases rs) auto

lemma chain_append:
  "chain (P @ Q) \<longleftrightarrow> chain P \<and> chain Q \<and> (P \<noteq> [] \<and> Q \<noteq> [] \<longrightarrow> apart (last P) (hd Q))"
proof (induction P)
  case (Cons r P)
  then show ?case by (cases P; cases Q) auto
qed simp

lemma member_iff:
  assumes "\<forall>r \<in> set (head l). range_ok r" and "ok x"
  shows "rl_member ops l x \<longleftrightarrow> (\<exists>r \<in> set (head l). covers r x)"
  using assms by (auto simp: rl_member_def list_ex_iff covers_def range_ok_def le_iff)

text \<open>
  One step of the absorbing loop: the two ranges touch, so their hull covers what they cover.
\<close>

definition hull :: "'a range \<Rightarrow> 'a range \<Rightarrow> 'a range" where
  "hull sp dp =
     (let sp' = (if e_gt ops (r_to dp) (r_to sp) then sp\<lparr>r_to := r_to dp\<rparr> else sp)
      in if e_lt ops (r_from dp) (r_from sp') then sp'\<lparr>r_from := r_from dp\<rparr> else sp')"

lemma hull_ends:
  assumes "range_ok sp" "range_ok dp" "cls (r_from dp) = cls (r_from sp)"
  shows "range_ok (hull sp dp)"
    and "cls (r_from (hull sp dp)) = cls (r_from sp)"
    and "key (r_from (hull sp dp)) = min (key (r_from sp)) (key (r_from dp))"
    and "key (r_to (hull sp dp)) = max (key (r_to sp)) (key (r_to dp))"
  using assms by (auto simp: hull_def range_ok_def Let_def lt_iff gt_iff)

lemma hull_covers:
  assumes "range_ok sp" "range_ok dp" "cls (r_from dp) = cls (r_from sp)"
    and "key (r_from dp) \<le> key (r_to sp) + 1" and "key (r_from sp) \<le> key (r_to dp) + 1"
  shows "covers (hull sp dp) x \<longleftrightarrow> covers sp x \<or> covers dp x"
  using hull_ends [OF assms(1-3)] assms by (auto simp: covers_def range_ok_def)

lemma absorb_Cons:
  "absorb ops sp (e_inc ops (r_to sp)) (dp # ds) =
     (if e_le ops (r_from dp) (e_inc ops (r_to sp))
      then absorb ops (hull sp dp) (e_inc ops (r_to (hull sp dp))) ds
      else (sp, dp # ds))"
  by (simp add: hull_def Let_def)

text \<open>What the absorbing loop promises of its result.\<close>

definition absorbed :: "'a range \<Rightarrow> 'a range list \<Rightarrow> 'a range \<Rightarrow> 'a range list \<Rightarrow> bool" where
  "absorbed sp ds sp' rest \<longleftrightarrow>
     range_ok sp' \<and> (\<forall>r \<in> set rest. range_ok r) \<and> chain (sp' # rest)
     \<and> (\<forall>x. (covers sp' x \<or> (\<exists>r \<in> set rest. covers r x))
            \<longleftrightarrow> (covers sp x \<or> (\<exists>r \<in> set ds. covers r x)))
     \<and> cls (r_from sp') = cls (r_from sp)
     \<and> (key (r_from sp) \<le> key (r_from sp')
        \<or> (ds \<noteq> [] \<and> cls (r_from (hd ds)) = cls (r_from sp) \<and> key (r_from (hd ds)) \<le> key (r_from sp')))"

lemma absorb_absorbed:
  assumes "range_ok sp" and "\<forall>r \<in> set ds. range_ok r" and "chain ds"
    and "ds \<noteq> [] \<Longrightarrow> cls (r_from (hd ds)) = cls (r_from sp) \<Longrightarrow> key (r_from sp) \<le> key (r_to (hd ds)) + 1"
    and "absorb ops sp (e_inc ops (r_to sp)) ds = (sp', rest)"
  shows "absorbed sp ds sp' rest"
  using assms
proof (induction ds arbitrary: sp)
  case Nil
  then show ?case by (auto simp: absorbed_def)
next
  case (Cons dp ds)
  have dp: "range_ok dp" and ds: "\<forall>r \<in> set ds. range_ok r" and ch: "chain ds"
    using Cons.prems(2,3) chain_ConsD by auto
  have le: "e_le ops (r_from dp) (e_inc ops (r_to sp))
            \<longleftrightarrow> cls (r_from dp) = cls (r_from sp) \<and> key (r_from dp) \<le> key (r_to sp) + 1"
    using Cons.prems(1) dp by (auto simp: range_ok_def le_inc_iff)
  show ?case
  proof (cases "e_le ops (r_from dp) (e_inc ops (r_to sp))")
    case False
    with Cons.prems have eq: "sp' = sp" "rest = dp # ds"
      by (auto simp: absorb_Cons)
    have "apart sp dp" using False le by (auto simp: apart_def)
    with Cons.prems eq show ?thesis by (simp add: absorbed_def)
  next
    case True
    then have same: "cls (r_from dp) = cls (r_from sp)" and touch: "key (r_from dp) \<le> key (r_to sp) + 1"
      using le by auto
    have touch': "key (r_from sp) \<le> key (r_to dp) + 1"
      using Cons.prems(4) same by simp
    note hull = hull_ends [OF Cons.prems(1) dp same]
    have next_dp: "key (r_from (hull sp dp)) \<le> key (r_to (hd ds)) + 1 \<and> key (r_from dp) < key (r_from (hd ds))"
      if "ds \<noteq> []" "cls (r_from (hd ds)) = cls (r_from (hull sp dp))"
    proof -
      have "apart dp (hd ds)" using Cons.prems(3) that(1) by (cases ds) auto
      then have "key (r_to dp) + 1 < key (r_from (hd ds))"
        using that(2) hull(2) same by (simp add: apart_def)
      moreover have "range_ok (hd ds)" using ds that(1) by simp
      ultimately show ?thesis using hull(3) dp by (auto simp: range_ok_def)
    qed
    have "absorb ops (hull sp dp) (e_inc ops (r_to (hull sp dp))) ds = (sp', rest)"
      using Cons.prems(5) True by (simp only: absorb_Cons if_True)
    then have IH: "absorbed (hull sp dp) ds sp' rest"
      using Cons.IH [OF hull(1) ds ch] next_dp by blast
    have low: "key (r_from sp) \<le> key (r_from sp') \<or> key (r_from dp) \<le> key (r_from sp')"
      using IH next_dp hull(3) by (fastforce simp: absorbed_def)
    show ?thesis
      using IH low same hull(2) hull_covers [OF Cons.prems(1) dp same touch touch']
      by (auto simp: absorbed_def)
  qed
qed

lemma insert_range_clean:
  assumes sp: "range_ok sp" and rs: "\<forall>r \<in> set rs. range_ok r" and ch: "chain rs"
  shows "\<forall>r \<in> set (insert_range ops sp rs). range_ok r"
    and "chain (insert_range ops sp rs)"
    and "(\<exists>r \<in> set (insert_range ops sp rs). covers r x) \<longleftrightarrow> covers sp x \<or> (\<exists>r \<in> set rs. covers r x)"
proof -
  define below :: "'a range \<Rightarrow> bool" where "below = (\<lambda>dp. e_lt ops (r_to dp) (e_dec ops (r_from sp)))"
  define P where "P = takeWhile below rs"
  define Q where "Q = dropWhile below rs"
  have PQ: "rs = P @ Q" by (simp add: P_def Q_def)
  have below: "below r \<longleftrightarrow> cls (r_from r) = cls (r_from sp) \<and> key (r_to r) < key (r_from sp) - 1"
    if "range_ok r" for r
    using that sp by (auto simp: below_def range_ok_def lt_dec_iff)
  obtain sp' rest where ab: "absorb ops sp (e_inc ops (r_to sp)) Q = (sp', rest)"
    by (cases "absorb ops sp (e_inc ops (r_to sp)) Q")
  have ins: "insert_range ops sp rs = P @ sp' # rest"
    using ab by (simp add: insert_range_def Let_def below_def P_def Q_def)
  have PQ_ok: "\<forall>r \<in> set (P @ Q). range_ok r" and PQ_ch: "chain (P @ Q)"
    using rs ch by (simp_all only: PQ [symmetric])
  then have Q: "\<forall>r \<in> set Q. range_ok r" "chain Q" by (simp_all add: chain_append)
  have "key (r_from sp) \<le> key (r_to (hd Q)) + 1"
    if "Q \<noteq> []" "cls (r_from (hd Q)) = cls (r_from sp)"
  proof -
    have "\<not> below (hd Q)" using that(1) hd_dropWhile [of below rs] by (simp add: Q_def)
    with below [of "hd Q"] Q(1) that show ?thesis by auto
  qed
  then have abs: "absorbed sp Q sp' rest"
    using absorb_absorbed [OF sp Q _ ab] by blast
  have last: "apart (last P) sp'" if "P \<noteq> []"
  proof -
    have "last P \<in> set (takeWhile below rs)" using that by (simp add: P_def)
    then have "last P \<in> set rs" and bl: "below (last P)" by (blast dest: set_takeWhileD)+
    then have ok: "range_ok (last P)" using rs by blast
    have "Q \<noteq> [] \<Longrightarrow> apart (last P) (hd Q)" using PQ_ch that by (simp add: chain_append)
    moreover have "cls (r_from sp') = cls (r_from sp)"
      "key (r_from sp) \<le> key (r_from sp')
       \<or> (Q \<noteq> [] \<and> cls (r_from (hd Q)) = cls (r_from sp) \<and> key (r_from (hd Q)) \<le> key (r_from sp'))"
      using abs unfolding absorbed_def by blast+
    moreover have "cls (r_from (last P)) = cls (r_from sp) \<and> key (r_to (last P)) < key (r_from sp) - 1"
      using bl below [OF ok] by blast
    ultimately show ?thesis unfolding apart_def by auto
  qed
  show "\<forall>r \<in> set (insert_range ops sp rs). range_ok r"
    using abs PQ_ok unfolding ins absorbed_def by (simp add: ball_Un)
  show "chain (insert_range ops sp rs)"
    using abs last PQ_ch unfolding ins absorbed_def by (simp add: chain_append)
  have "(covers sp' x \<or> (\<exists>r \<in> set rest. covers r x)) \<longleftrightarrow> (covers sp x \<or> (\<exists>r \<in> set Q. covers r x))"
    using abs by (simp add: absorbed_def)
  then show "(\<exists>r \<in> set (insert_range ops sp rs). covers r x) \<longleftrightarrow> covers sp x \<or> (\<exists>r \<in> set rs. covers r x)"
    using ins set_append [of P Q, folded PQ] by auto
qed

lemma clean_loop_ok:
  assumes "\<forall>r \<in> set sps. range_ok r" and "\<forall>r \<in> set rs. range_ok r" and "chain rs"
  shows "\<exists>h. clean_loop ops sps rs v = (h, v) \<and> (\<forall>r \<in> set h. range_ok r) \<and> chain h
           \<and> (\<forall>x. (\<exists>r \<in> set h. covers r x) \<longleftrightarrow> (\<exists>r \<in> set sps \<union> set rs. covers r x))"
  using assms
proof (induction sps arbitrary: rs)
  case (Cons sp sps)
  have "e_le ops (r_from sp) (r_to sp)"
    using Cons.prems(1) by (auto simp: range_ok_def le_iff)
  moreover note insert_range_clean [OF _ Cons.prems(2,3), of sp]
  ultimately show ?case
    using Cons.prems(1) Cons.IH [of "insert_range ops sp rs"] by fastforce
qed auto

theorem clean_covers:
  assumes "valid_flag l" and "\<forall>r \<in> set (head l). range_ok r"
  shows "\<exists>l'. clean ops l = (False, l') \<and> valid_flag l' \<and> chain (head l')
           \<and> (\<forall>r \<in> set (head l'). range_ok r)
           \<and> (\<forall>x. ok x \<longrightarrow> rl_member ops l' x \<longleftrightarrow> (\<exists>r \<in> set (head l). covers r x))"
proof -
  obtain h where h: "clean_loop ops (head l) [] True = (h, True)" "\<forall>r \<in> set h. range_ok r" "chain h"
      "\<forall>x. (\<exists>r \<in> set h. covers r x) \<longleftrightarrow> (\<exists>r \<in> set (head l). covers r x)"
    using clean_loop_ok [OF assms(2), of "[]" True] by auto
  have "clean ops l = (False, \<lparr>head = h, valid_flag = True\<rparr>)"
    using h(1) assms(1) by (simp add: clean_def)
  then show ?thesis using h by (auto simp: member_iff)
qed

lemma insert_range_front:
  assumes "range_ok sp" and "\<forall>r \<in> set rs. range_ok r" and "chain (sp # rs)"
  shows "insert_range ops sp rs = sp # rs"
proof (cases rs)
  case Nil
  then show ?thesis by (simp add: insert_range_def)
next
  case (Cons dp ds)
  then have dp: "range_ok dp" "apart sp dp" using assms by auto
  then have "\<not> e_lt ops (r_to dp) (e_dec ops (r_from sp))" "\<not> e_le ops (r_from dp) (e_inc ops (r_to sp))"
    using assms(1) by (auto simp: apart_def range_ok_def lt_dec_iff le_inc_iff)
  then show ?thesis using Cons by (simp add: insert_range_def)
qed

lemma clean_loop_rev:
  "\<forall>r \<in> set sps \<union> set rs. range_ok r \<Longrightarrow> chain (rev sps @ rs) \<Longrightarrow> clean_loop ops sps rs v = (rev sps @ rs, v)"
proof (induction sps arbitrary: rs)
  case (Cons sp sps)
  have "chain (sp # rs)" using Cons.prems(2) by (simp add: chain_append)
  then have "insert_range ops sp rs = sp # rs" using Cons.prems(1) by (intro insert_range_front) auto
  moreover have "e_le ops (r_from sp) (r_to sp)" using Cons.prems(1) by (auto simp: range_ok_def le_iff)
  ultimately show ?case using Cons.IH [of "sp # rs"] Cons.prems by auto
qed simp

theorem merge_member:
  assumes "valid_flag a" "valid_flag b"
    and "\<forall>r \<in> set (head a). range_ok r" "\<forall>r \<in> set (head b). range_ok r" and "ok x"
  shows "rl_member ops (rl_merge ops a b) x \<longleftrightarrow> rl_member ops a x \<or> rl_member ops b x"
proof (cases "head b = []")
  case True
  then show ?thesis using assms by (simp add: rl_merge_def rl_member_def)
next
  case False
  let ?l = "a\<lparr>head := head a @ head b\<rparr>"
  obtain l' where "clean ops ?l = (False, l')"
      "\<forall>x. ok x \<longrightarrow> rl_member ops l' x \<longleftrightarrow> (\<exists>r \<in> set (head ?l). covers r x)"
    using clean_covers [of ?l] assms by auto
  then show ?thesis
    using False assms by (auto simp: rl_merge_def member_iff)
qed

end

section \<open>SID lists\<close>

text \<open>
  The operators of \<open>sid\<close> keep the contract on the trunk together with one branch \<open>r.l.b\<close>:
  the class is the branch number, the key the position on the line of development.
\<close>

definition sid_line :: "int \<Rightarrow> int \<Rightarrow> int \<Rightarrow> sid \<Rightarrow> bool" where
  "sid_line r l b s \<longleftrightarrow> trunk_sid s \<or> branch_sid r l b s"

text \<open>The neighbours that \<open>++\<close> and \<open>--\<close> may reach are included in \<open>sid_near\<close>.\<close>

definition sid_near :: "int \<Rightarrow> int \<Rightarrow> int \<Rightarrow> sid \<Rightarrow> bool" where
  "sid_near r l b s \<longleftrightarrow>
     0 < rel s \<and>
     (branch s = 0 \<and> sequence s = 0 \<and> 0 \<le> level s \<and> level s \<le> 32767
      \<or> branch s = b \<and> 0 < b \<and> rel s = r \<and> level s = l)"

lemma sid_line_near:
  assumes "sid_line r l b s"
  shows "sid_near r l b s" "sid_near r l b (sid_inc s)" "sid_near r l b (sid_dec s)"
    and "branch (sid_inc s) = branch s" "branch (sid_dec s) = branch s"
    and "sid_key (sid_inc s) = sid_key s + 1" "sid_key (sid_dec s) = sid_key s - 1"
  using assms
  by (auto simp: sid_line_def trunk_sid_def branch_sid_def sid_near_def sid_inc_def sid_dec_def
      sid_key_def)

lemma sid_nearE:
  assumes "sid_near r l b s"
  obtains (trunk) rs ls where "s = mk_sid rs ls 0 0" "0 < rs" "0 \<le> ls" "ls \<le> 32767"
  | (branch) q where "s = mk_sid r l b q" "0 < r" "0 < b"
  using assms by (cases s) (auto simp: sid_near_def)

lemma sid_near_comparable:
  "sid_near r l b s \<Longrightarrow> sid_near r l b t \<Longrightarrow> comparable s t \<longleftrightarrow> branch s = branch t"
  by (elim sid_nearE) (simp_all add: comparable_def sid_valid_def)

lemma sid_near_gt:
  "sid_near r l b s \<Longrightarrow> sid_near r l b t \<Longrightarrow> branch s = branch t \<Longrightarrow> gt s t \<longleftrightarrow> sid_key s > sid_key t"
  by (elim sid_nearE) (auto simp: gt_def sid_key_def)

lemma sid_near_gte:
  "sid_near r l b s \<Longrightarrow> sid_near r l b t \<Longrightarrow> branch s = branch t \<Longrightarrow> gte s t \<longleftrightarrow> sid_key s \<ge> sid_key t"
  by (elim sid_nearE) (auto simp: gte_def sid_key_def)

lemma sid_near_cmp:
  assumes "sid_near r l b s" and "sid_near r l b t"
  shows "sid_le s t \<longleftrightarrow> branch s = branch t \<and> sid_key s \<le> sid_key t"
    and "sid_lt s t \<longleftrightarrow> branch s = branch t \<and> sid_key s < sid_key t"
    and "sid_gt s t \<longleftrightarrow> branch s = branch t \<and> sid_key s > sid_key t"
  using sid_near_comparable [OF assms] sid_near_gt [OF assms] sid_near_gte [OF assms]
  by (auto simp: sid_le_def sid_lt_def sid_gt_def)

interpretation srl: range_elem sid_ops "sid_line r l b" branch sid_key for r l b
proof
  fix x y
  assume x: "sid_line r l b x" and y: "sid_line r l b y"
  note near = sid_line_near [OF x] sid_line_near [OF y]
  show "e_le sid_ops x y \<longleftrightarrow> branch x = branch y \<and> sid_key x \<le> sid_key y"
    "e_lt sid_ops x y \<longleftrightarrow> branch x = branch y \<and> sid_key x < sid_key y"
    "e_gt sid_ops x y \<longleftrightarrow> branch x = branch y \<and> sid_key x > sid_key y"
    using sid_near_cmp [OF near(1) near(8)] by (simp_all add: sid_ops_def)
  show "e_le sid_ops y (e_inc sid_ops x) \<longleftrightarrow> branch x = branch y \<and> sid_key y \<le> sid_key x + 1"
    using sid_near_cmp [OF near(8) near(2)] near by (auto simp: sid_ops_def)
  show "e_lt sid_ops y (e_dec sid_ops x) \<longleftrightarrow> branch x = branch y \<and> sid_key y < sid_key x - 1"
    using sid_near_cmp [OF near(8) near(3)] near by (auto simp: sid_ops_def)
qed

lemma range_ok_sid_iff:
  assumes "sid_line r l b (r_from p)" and "sid_line r l b (r_to p)" and "sid_le (r_from p) (r_to p)"
  shows "srl.range_ok r l b p"
  using assms sid_near_cmp(1) [OF sid_line_near(1) [OF assms(1)] sid_line_near(1) [OF assms(2)]]
  by (simp add: srl.range_ok_def)

text \<open>
  C23. Cleaning a SID list whose ranges lie on the trunk or on one branch, each with its ends in
  order, reports a valid list that has exactly the same members, in which neighbouring ranges
  of one line of development neither overlap nor touch.
\<close>

theorem sid_list_clean_members:
  assumes "valid_flag rl"
    and "\<forall>p \<in> set (head rl). sid_line r l b (r_from p) \<and> sid_line r l b (r_to p)
                             \<and> sid_le (r_from p) (r_to p)"
  shows "\<exists>rl'. clean sid_ops rl = (False, rl') \<and> valid_flag rl'
           \<and> (\<forall>x. sid_line r l b x \<longrightarrow> (sid_list_member rl' x \<longleftrightarrow> sid_list_member rl x))
           \<and> srl.chain (head rl')"
proof -
  have ok: "\<forall>p \<in> set (head rl). srl.range_ok r l b p"
    using assms(2) range_ok_sid_iff by blast
  show ?thesis
    using srl.clean_covers [OF assms(1) ok] srl.member_iff [OF ok] by auto
qed

theorem sid_list_clean_members_witness:
  "\<exists>rl'. clean sid_ops \<lparr>head = [\<lparr>r_from = mk_sid 1 4 0 0, r_to = mk_sid 1 6 0 0\<rparr>,
                               \<lparr>r_from = mk_sid 1 1 0 0, r_to = mk_sid 1 3 0 0\<rparr>], valid_flag = True\<rparr>
           = (False, rl') \<and> sid_list_member rl' (mk_sid 1 5 0 0) \<and> \<not> sid_list_member rl' (mk_sid 1 7 0 0)"
proof -
  let ?rl = "\<lparr>head = [\<lparr>r_from = mk_sid 1 4 0 0, r_to = mk_sid 1 6 0 0\<rparr>,
                      \<lparr>r_from = mk_sid 1 1 0 0, r_to = mk_sid 1 3 0 0\<rparr>], valid_flag = True\<rparr>"
  obtain rl' where cl: "clean sid_ops ?rl = (False, rl')"
      and mem: "\<forall>x. sid_line 1 1 1 x \<longrightarrow> (sid_list_member rl' x \<longleftrightarrow> sid_list_member ?rl x)"
    using sid_list_clean_members [of ?rl 1 1 1]
    by (auto simp: sid_line_def trunk_sid_def sid_order_defs)
  have "sid_list_member ?rl (mk_sid 1 5 0 0)" "\<not> sid_list_member ?rl (mk_sid 1 7 0 0)"
    by (simp_all add: rl_member_def sid_ops_def sid_order_defs)
  moreover have "sid_line 1 1 1 (mk_sid 1 5 0 0)" "sid_line 1 1 1 (mk_sid 1 7 0 0)"
    by (simp_all add: sid_line_def trunk_sid_def)
  ultimately show ?thesis using cl mem by blast
qed

text \<open>
  Merging two such SID lists gives a list whose members are those of either list.
\<close>

lemma sid_list_merge_members:
  assumes "valid_flag a" and "valid_flag c"
    and "\<forall>p \<in> set (head a) \<union> set (head c).
           sid_line r l b (r_from p) \<and> sid_line r l b (r_to p) \<and> sid_le (r_from p) (r_to p)"
    and "sid_line r l b x"
  shows "sid_list_member (rl_merge sid_ops a c) x \<longleftrightarrow> sid_list_member a x \<or> sid_list_member c x"
  using assms range_ok_sid_iff by (intro srl.merge_member) auto

lemma sid_list_merge_members_witness:
  "sid_list_member (rl_merge sid_ops
      \<lparr>head = [\<lparr>r_from = mk_sid 1 2 1 1, r_to = mk_sid 1 2 1 4\<rparr>], valid_flag = True\<rparr>
      \<lparr>head = [\<lparr>r_from = mk_sid 1 2 1 3, r_to = mk_sid 1 2 1 9\<rparr>], valid_flag = True\<rparr>) (mk_sid 1 2 1 7)"
  using sid_list_merge_members
    [of "\<lparr>head = [\<lparr>r_from = mk_sid 1 2 1 1, r_to = mk_sid 1 2 1 4\<rparr>], valid_flag = True\<rparr>"
        "\<lparr>head = [\<lparr>r_from = mk_sid 1 2 1 3, r_to = mk_sid 1 2 1 9\<rparr>], valid_flag = True\<rparr>"
        1 2 1 "mk_sid 1 2 1 7"]
  by (simp add: sid_line_def branch_sid_def rl_member_def sid_ops_def sid_order_defs)

text \<open>A list that is printed and read again: the constructor pushes every range at the front, and
  \<open>clean\<close> puts them back in order.\<close>

definition range_text :: "sid range \<Rightarrow> string" where
  "range_text p = sid_as_string (r_from p) @ (if r_to p \<noteq> r_from p then CHR ''-'' # sid_as_string (r_to p) else [])"

lemma print_ranges_text:
  "ps \<noteq> [] \<Longrightarrow> \<forall>p \<in> set ps. sid_wf (r_from p) \<and> sid_wf (r_to p) \<Longrightarrow>
   \<exists>t. print_ranges sid_print ps = Inr t \<and> t \<noteq> [] \<and> set t \<inter> {CHR '' '', CHR 0x0A, CHR 0x00} = {}
       \<and> parse_ranges sid_of_string t acc = Inr (rev ps @ acc)"
proof (induction ps arbitrary: acc)
  case (Cons p ps)
  let ?x = "range_text p"
  have wf: "sid_wf (r_from p)" "sid_wf (r_to p)" using Cons.prems(2) by auto
  note sidp = wf [THEN sid_print_text] wf [THEN sid_text_chars] wf [THEN sid_of_string_as_string]
    wf [THEN sid_text_length] wf [THEN sid_text_Nil]
  have x: "CHR '','' \<notin> set ?x" "?x \<noteq> []" "length ?x + 1 \<le> 64" "set ?x \<inter> {CHR '' '', CHR 0x0A, CHR 0x00} = {}"
    "parse_range sid_of_string ?x = p"
    using sidp by (auto simp: range_text_def parse_range_def)
  show ?case
  proof (cases "ps = []")
    case True
    have "parse_ranges sid_of_string ?x acc = Inr (p # acc)"
      using x by (subst parse_ranges.simps) (simp add: Let_def)
    moreover have "print_ranges sid_print [p] = Inr ?x" using sidp by (simp add: range_text_def)
    ultimately show ?thesis using True x by auto
  next
    case False
    obtain t where t: "print_ranges sid_print ps = Inr t" "set t \<inter> {CHR '' '', CHR 0x0A, CHR 0x00} = {}"
      "parse_ranges sid_of_string t (p # acc) = Inr (rev ps @ p # acc)"
      using Cons.IH [OF False, of "p # acc"] Cons.prems by auto
    have "parse_ranges sid_of_string (?x @ CHR '','' # t) acc = Inr (rev (p # ps) @ acc)"
      using x t by (subst parse_ranges.simps) (simp add: Let_def)
    moreover have "print_ranges sid_print (p # ps) = Inr (?x @ CHR '','' # t)"
      using sidp t(1) False by (simp add: range_text_def)
    ultimately show ?thesis using x t(2) by (intro exI [of _ "?x @ CHR '','' # t"]) auto
  qed
qed simp

lemma sid_list_text:
  assumes "valid_flag rl" and "head rl \<noteq> []" and "\<forall>p \<in> set (head rl). srl.range_ok r l b p" and "srl.chain (head rl)"
    and wf: "\<forall>p \<in> set (head rl). sid_wf (r_from p) \<and> sid_wf (r_to p)"
  shows "\<exists>t. rl_print sid_print rl = Inr t \<and> t \<noteq> [] \<and> set t \<inter> {CHR '' '', CHR 0x0A, CHR 0x00} = {}
       \<and> sid_list_of_string (Some t) = Inr rl"
proof -
  obtain t where t: "print_ranges sid_print (head rl) = Inr t" "t \<noteq> []" "set t \<inter> {CHR '' '', CHR 0x0A, CHR 0x00} = {}"
    "parse_ranges sid_of_string t [] = Inr (rev (head rl))"
    using print_ranges_text [OF assms(2) wf, of "[]"] by auto
  have "clean_loop sid_ops (rev (head rl)) [] True = (head rl, True)"
    using srl.clean_loop_rev [of "rev (head rl)" "[]" r l b True] assms(3,4) by simp
  then have "clean sid_ops \<lparr>head = rev (head rl), valid_flag = True\<rparr> = (False, rl)"
    using assms(1) by (cases rl) (simp add: clean_def)
  then have "sid_list_of_string (Some t) = Inr rl"
    using t assms(1) by (cases t) (auto simp: sid_list_of_string_def range_list_of_string_def)
  then show ?thesis
    using t assms(1,2) by (auto simp: rl_print_def rl_is_empty_def)
qed

text \<open>
  A cleaned SID list whose ranges lie on the trunk or on one branch is printed and read back
  unchanged, as the p-file needs it.
\<close>

theorem sid_list_print_read:
  assumes "valid_flag rl" and "head rl \<noteq> []"
    and "\<forall>p \<in> set (head rl). sid_line r l b (r_from p) \<and> sid_line r l b (r_to p) \<and> sid_le (r_from p) (r_to p)
                             \<and> sid_wf (r_from p) \<and> sid_wf (r_to p)"
    and "srl.chain (head rl)"
  shows "\<exists>t. rl_print sid_print rl = Inr t \<and> sid_list_of_string (Some t) = Inr rl"
proof -
  have "\<forall>p \<in> set (head rl). srl.range_ok r l b p" "\<forall>p \<in> set (head rl). sid_wf (r_from p) \<and> sid_wf (r_to p)"
    using assms(3) range_ok_sid_iff by blast+
  then show ?thesis using sid_list_text [OF assms(1,2) _ assms(4)] by blast
qed

theorem sid_list_print_read_witness:
  "\<exists>t. rl_print sid_print \<lparr>head = [\<lparr>r_from = mk_sid 1 1 0 0, r_to = mk_sid 1 3 0 0\<rparr>,
                               \<lparr>r_from = mk_sid 1 6 0 0, r_to = mk_sid 1 6 0 0\<rparr>], valid_flag = True\<rparr> = Inr t
       \<and> sid_list_of_string (Some t) = Inr \<lparr>head = [\<lparr>r_from = mk_sid 1 1 0 0, r_to = mk_sid 1 3 0 0\<rparr>,
                               \<lparr>r_from = mk_sid 1 6 0 0, r_to = mk_sid 1 6 0 0\<rparr>], valid_flag = True\<rparr>"
  by (rule sid_list_print_read [of _ 1 1 1])
     (simp_all add: sid_line_def trunk_sid_def sid_order_defs srl.apart_def sid_key_def sid_wf_def)

text \<open>
  Removing a range \<open>s-u\<close> that lies inside another range \<open>f-e\<close>, both on the trunk or on one branch, leaves
  only the part below \<open>s\<close>: everything from \<open>s\<close> on is gone, and with it the SIDs above \<open>u\<close> up to \<open>e\<close>, which were
  members and were not to be removed. The node that stands for the part above is taken out of the list when the
  new node for the part below becomes its head.
\<close>

theorem sid_list_remove_loses_members:
  assumes "sid_line r l b f" and "sid_line r l b e" and "sid_line r l b s" and "sid_line r l b u"
    and "sid_lt f s" and "sid_le s u" and "sid_lt u e"
    and old: "old = \<lparr>head = [\<lparr>r_from = f, r_to = e\<rparr>], valid_flag = True\<rparr>"
    and new: "new = rl_remove sid_ops old \<lparr>head = [\<lparr>r_from = s, r_to = u\<rparr>], valid_flag = True\<rparr>"
  shows "(\<forall>x. sid_line r l b x \<longrightarrow> (sid_list_member new x \<longleftrightarrow> sid_list_member old x \<and> sid_lt x s))
    \<and> (\<forall>x. sid_line r l b x \<and> sid_lt u x \<and> sid_le x e \<longrightarrow> sid_list_member old x \<and> \<not> sid_list_member new x)"
proof -
  note near = sid_line_near(1) [OF assms(1)] sid_line_near(1) [OF assms(2)] sid_line_near(1) [OF assms(3)]
    sid_line_near(1) [OF assms(4)] sid_line_near(3) [OF assms(3)]
  have dec: "branch (sid_dec s) = branch s" "sid_key (sid_dec s) = sid_key s - 1"
    using sid_line_near [OF assms(3)] by simp_all
  note cmp = sid_near_cmp [OF near(1) near(3)] sid_near_cmp [OF near(3) near(4)] sid_near_cmp [OF near(4) near(2)]
    sid_near_cmp [OF near(3) near(1)] sid_near_cmp [OF near(2) near(4)] sid_near_cmp [OF near(1) near(5)]
  have k: "branch f = branch s" "branch s = branch u" "branch u = branch e" "sid_key f < sid_key s" "sid_key s \<le> sid_key u"
      "sid_key u < sid_key e"
    using assms(5-7) cmp by simp_all
  have "new = \<lparr>head = [\<lparr>r_from = f, r_to = sid_dec s\<rparr>], valid_flag = True\<rparr>"
    using k cmp dec
    by (simp add: new old rl_remove_def remove_node_def sid_ops_def sid_ge_def clean_def insert_range_def Let_def)
  then have m: "sid_list_member new x \<longleftrightarrow> branch x = branch f \<and> sid_key f \<le> sid_key x \<and> sid_key x < sid_key s"
      "sid_list_member old x \<longleftrightarrow> branch x = branch f \<and> sid_key f \<le> sid_key x \<and> sid_key x \<le> sid_key e" if "sid_line r l b x" for x
    using sid_near_cmp(1) [OF near(1) sid_line_near(1) [OF that]] sid_near_cmp(1) [OF sid_line_near(1) [OF that] near(5)]
      sid_near_cmp(1) [OF sid_line_near(1) [OF that] near(2)] dec k
    by (auto simp: old rl_member_def sid_ops_def)
  show ?thesis
    using m k sid_near_cmp(2) [OF sid_line_near(1) near(3)] sid_near_cmp(1) [OF sid_line_near(1) near(2)]
      sid_near_cmp(2) [OF near(4) sid_line_near(1)] by auto
qed

text \<open>1.5 is removed from 1.1-1.9, and 1.7 is lost.\<close>

theorem sid_list_remove_loses_members_witness:
  "sid_list_member \<lparr>head = [\<lparr>r_from = mk_sid 1 1 0 0, r_to = mk_sid 1 9 0 0\<rparr>], valid_flag = True\<rparr> (mk_sid 1 7 0 0)
   \<and> \<not> sid_list_member (rl_remove sid_ops
        \<lparr>head = [\<lparr>r_from = mk_sid 1 1 0 0, r_to = mk_sid 1 9 0 0\<rparr>], valid_flag = True\<rparr>
        \<lparr>head = [\<lparr>r_from = mk_sid 1 5 0 0, r_to = mk_sid 1 5 0 0\<rparr>], valid_flag = True\<rparr>)
     (mk_sid 1 7 0 0)"
proof -
  have line: "sid_line 1 1 1 (mk_sid 1 n 0 0)" if "1 \<le> n" "n \<le> 9" for n
    using that by (simp add: sid_line_def trunk_sid_def)
  note sid_list_remove_loses_members [OF line line line line _ _ _ refl refl, of 1 9 5 5]
  then show ?thesis using line [of 7] by (simp add: sid_order_defs)
qed

text \<open>
  \<open>clean\<close> joins ranges whose ends are one increment apart. For ranges given by releases only
  the increment is a whole release, so the levels in between become members.
\<close>

lemma release_ranges_join:
  "(case sid_list_of_string (Some ''1-2,3-4'') of Inr l \<Rightarrow> sid_list_member l (mk_sid 2 5 0 0) | Inl _ \<Rightarrow> False)
   \<and> (case sid_list_of_string (Some ''1-2'') of Inr l \<Rightarrow> \<not> sid_list_member l (mk_sid 2 5 0 0) | Inl _ \<Rightarrow> False)
   \<and> (case sid_list_of_string (Some ''3-4'') of Inr l \<Rightarrow> \<not> sid_list_member l (mk_sid 2 5 0 0) | Inl _ \<Rightarrow> False)"
  by code_simp

section \<open>Release lists\<close>

lemma rel_push_set [simp]: "set (rel_push r rs) = insert r (set rs)"
  by (auto simp: rel_push_def rel_member_def)

lemma rel_push_distinct [simp]: "distinct rs \<Longrightarrow> distinct (rel_push r rs)"
  by (simp add: rel_push_def rel_member_def)

lemma rel_merge_set: "set (rel_merge a m) = set a \<union> set m"
  by (induction a m rule: rel_merge.induct) auto

lemma rel_merge_distinct: "distinct a \<Longrightarrow> distinct (rel_merge a m)"
  by (induction a m rule: rel_merge.induct) auto

lemma rel_remove_filter: "rel_remove a rm = filter (\<lambda>r. r \<notin> set rm) a"
  by (induction a) (auto simp: rel_member_def)

lemma release_list_loop_distinct:
  "release_list_loop s rs = Inr rs' \<Longrightarrow> distinct rs \<Longrightarrow> distinct rs'"
proof (induction s rs rule: release_list_loop.induct)
  case (1 s rs)
  obtain n e p where st: "strtol s = (n, e, p)" by (cases "strtol s")
  from "1.prems" "1.IH" [OF _ st [symmetric] refl] show ?case
    by (auto simp: release_list_loop.simps [of s rs] st split: if_splits)
qed

text \<open>
  C25. A release list read from a string has no duplicates, and merging and removing keep that:
  \<open>merge\<close> computes the union and \<open>remove\<close> the difference of the lists as sets.
\<close>

theorem release_list_operations:
  assumes "release_list_of_string s = Inr a"
  shows "distinct a \<and> distinct (rel_merge a m) \<and> distinct (rel_remove a m)
         \<and> (rel_member (rel_merge a m) r \<longleftrightarrow> rel_member a r \<or> rel_member m r)
         \<and> (rel_member (rel_remove a m) r \<longleftrightarrow> rel_member a r \<and> \<not> rel_member m r)"
proof -
  have "distinct a"
    using assms release_list_loop_distinct by (auto simp: release_list_of_string_def)
  then show ?thesis
    by (auto simp: rel_merge_distinct rel_remove_filter rel_merge_set rel_member_def)
qed

theorem release_list_operations_witness:
  "release_list_of_string ''1,3'' = Inr [Release 1, Release 3]
   \<and> rel_member (rel_remove [Release 1, Release 3] [Release 3]) (Release 1)
   \<and> \<not> rel_member (rel_remove [Release 1, Release 3] [Release 3]) (Release 3)"
proof -
  have parse: "release_list_of_string ''1,3'' = Inr [Release 1, Release 3]"
    by code_simp
  show ?thesis
    using parse release_list_operations [OF parse, of "[Release 3]" "Release 1"]
      release_list_operations [OF parse, of "[Release 3]" "Release 3"]
    by (simp add: rel_member_def)
qed

end
