(* ===== verification/Sccs_Date.thy ===== *)
theory Sccs_Date
  imports Prelude
begin

text \<open>
  \<open>class sccs_date\<close> (sccsdate.h, sccsdate.cc). The \<open>int\<close> members are the fields of a record;
  the two string constructors, the printing functions and the comparison operators follow
  the source. Reading a character at the end of a string gives the NUL that terminates it.
  The main results: a date printed in the s-file format is read back unchanged, and the
  comparison operators are the chronological order.
\<close>

section \<open>Calendar\<close>

definition y2k_window :: "int \<Rightarrow> int res" where
  "y2k_window year =
     (let y = (if year < 69 then year + 2000 else year + 1900)
      in bindE (ASSERT (y \<ge> 1969)) (\<lambda>_. bindE (ASSERT (y < 2069)) (\<lambda>_. Inr y)))"

definition is_leapyear :: "int \<Rightarrow> bool" where
  "is_leapyear year =
     (if year mod 4 \<noteq> 0 then False
      else if year mod 100 \<noteq> 0 then True
      else if year mod 400 \<noteq> 0 then False
      else True)"

definition days_in_month :: "int \<Rightarrow> int \<Rightarrow> int" where
  "days_in_month mon year =
     (if mon \<in> {1, 3, 5, 7, 8, 10, 12} then 31
      else if mon \<in> {4, 6, 9, 11} then 30
      else if mon = 2 then (if is_leapyear year then 29 else 28)
      else -1)"

section \<open>The class\<close>

record sccs_date =
  year :: int
  month :: int
  month_day :: int
  hour :: int
  minute :: int
  second :: int
  yearday :: int

definition date_default :: sccs_date where
  "date_default = \<lparr>year = -1, month = -1, month_day = -1, hour = -1, minute = -1, second = -1,
                   yearday = -1\<rparr>"

text \<open>The two loops of \<open>update_yearday\<close>.\<close>

function sum_months :: "int \<Rightarrow> int \<Rightarrow> int \<Rightarrow> int \<Rightarrow> int" where
  "sum_months m mon yr yd =
     (if m < mon then sum_months (m + 1) mon yr (yd + days_in_month m yr) else yd)"
  by pat_completeness auto
termination
  by (relation "measure (\<lambda>(m, mon, yr, yd). nat (mon - m))") auto

function sum_days :: "int \<Rightarrow> int \<Rightarrow> int \<Rightarrow> int" where
  "sum_days d md yd = (if d < md then sum_days (d + 1) md (yd + 1) else yd)"
  by pat_completeness auto
termination
  by (relation "measure (\<lambda>(d, md, yd). nat (md - d))") auto

declare sum_months.simps [simp del] sum_days.simps [simp del]

definition update_yearday :: "sccs_date \<Rightarrow> sccs_date" where
  "update_yearday d =
     d\<lparr>yearday := sum_days 1 (month_day d) (sum_months 1 (month d) (year d) 1)\<rparr>"

definition date_ctor6 :: "int \<Rightarrow> int \<Rightarrow> int \<Rightarrow> int \<Rightarrow> int \<Rightarrow> int \<Rightarrow> sccs_date" where
  "date_ctor6 yr mth day hr mi se =
     update_yearday \<lparr>year = yr, month = mth, month_day = day, hour = hr, minute = mi,
                     second = se, yearday = -1\<rparr>"

definition date_valid :: "sccs_date \<Rightarrow> bool" where
  "date_valid d \<longleftrightarrow>
     year d \<ge> 0
     \<and> month d > 0 \<and> month d < 13
     \<and> month_day d > 0 \<and> month_day d \<le> days_in_month (month d) (year d)
     \<and> hour d \<ge> 0 \<and> hour d < 24
     \<and> minute d \<ge> 0 \<and> minute d < 60
     \<and> second d \<ge> 0 \<and> second d \<le> 61"

section \<open>Parsing\<close>

definition get_two_digits :: "string \<Rightarrow> nat \<Rightarrow> int" where
  "get_two_digits s pos = int (digit_val (char_at s pos)) * 10 + int (digit_val (char_at s (pos + 1)))"

text \<open>\<open>get_part\<close> skips to the next digit and takes one or two of them.\<close>

fun get_part :: "string \<Rightarrow> int \<Rightarrow> int \<times> string" where
  "get_part [] def = (def, [])"
| "get_part (c # s) def =
     (if isdigit c then
        (if s \<noteq> [] \<and> isdigit (hd s)
         then (int (digit_val c) * 10 + int (digit_val (hd s)), tl s)
         else (int (digit_val c), s))
      else get_part s def)"

definition count_digits :: "string \<Rightarrow> nat" where
  "count_digits s = length (filter isdigit s)"

text \<open>The constructor for a cutoff given on the command line.\<close>

definition date_of_cutoff :: "string \<Rightarrow> sccs_date res" where
  "date_of_cutoff s =
     (let n_digits = count_digits s; (yr, s) = get_part s (-1)
      in if yr = -1 then Inr date_default
         else
           bindE (if n_digits > 12
                  then (if isdigit (char_at s 0) \<and> isdigit (char_at s 1)
                        then Inr (yr * 100 + get_two_digits s 0, drop 2 s)
                        else Inr (yr, s))
                  else bindE (y2k_window yr) (\<lambda>y. Inr (y, s)))
             (\<lambda>(yr, s).
                let (mon, s) = get_part s 12;
                    (day, s) = get_part s (days_in_month mon yr);
                    (hr, s) = get_part s 23;
                    (mi, s) = get_part s 59;
                    (se, s) = get_part s 59
                in Inr (date_ctor6 yr mon day hr mi se)))"

text \<open>The constructor for a date and a time in an s-file or a p-file.\<close>

definition date_fields_ok :: "string \<Rightarrow> char \<Rightarrow> bool" where
  "date_fields_ok s sep \<longleftrightarrow>
     isdigit (char_at s 0) \<and> isdigit (char_at s 1) \<and> char_at s 2 = sep
     \<and> isdigit (char_at s 3) \<and> isdigit (char_at s 4) \<and> char_at s 5 = sep
     \<and> isdigit (char_at s 6) \<and> isdigit (char_at s 7) \<and> char_at s 8 = CHR 0x00"

definition date_of_strings :: "string \<Rightarrow> string \<Rightarrow> sccs_date res" where
  "date_of_strings date_arg time =
     (let four = (length date_arg > 4 \<and> isdigit (char_at date_arg 0) \<and> isdigit (char_at date_arg 1)
                  \<and> isdigit (char_at date_arg 2) \<and> isdigit (char_at date_arg 3)
                  \<and> char_at date_arg 4 = CHR ''/'');
          century = (if four then get_two_digits date_arg 0 else 0);
          date1 = (if four then drop 2 date_arg else date_arg);
          c0 = (of_char (char_at date1 0) :: nat);
          date2 = (if 58 \<le> c0 \<and> c0 \<le> 64 then char_of (c0 - 10) # tl date1 else date1)
      in if date_fields_ok date2 (CHR ''/'') \<and> date_fields_ok time (CHR '':'') then
           let yr = get_two_digits date2 0 in
           bindE (if century \<noteq> 0
                  then let y = century * 100 + yr
                       in bindE (ASSERT (y \<ge> 1969)) (\<lambda>_. bindE (ASSERT (y < 2069)) (\<lambda>_. Inr y))
                  else y2k_window yr)
             (\<lambda>yr. Inr (date_ctor6 yr (get_two_digits date2 3) (get_two_digits date2 6)
                                   (get_two_digits time 0) (get_two_digits time 3) (get_two_digits time 6)))
         else Inr date_default)"

section \<open>Printing\<close>

text \<open>\<open>%02d\<close>, and the C remainder of the year by 100.\<close>

definition show_pad_int :: "nat \<Rightarrow> int \<Rightarrow> string" where
  "show_pad_int w n = (if n < 0 then CHR ''-'' # show_pad (w - 1) (nat (- n)) else show_pad w (nat n))"

definition year_yy :: "sccs_date \<Rightarrow> int" where
  "year_yy d = sgn (year d) * (\<bar>year d\<bar> mod 100)"

definition show_three :: "char \<Rightarrow> int \<Rightarrow> int \<Rightarrow> int \<Rightarrow> string" where
  "show_three sep a b c = show_pad_int 2 a @ sep # show_pad_int 2 b @ sep # show_pad_int 2 c"

definition date_printf :: "sccs_date \<Rightarrow> char \<Rightarrow> string res" where
  "date_printf d fmt =
     (if fmt = CHR ''D'' then Inr (show_three (CHR ''/'') (year_yy d) (month d) (month_day d))
      else if fmt = CHR ''H'' then Inr (show_three (CHR ''/'') (month d) (month_day d) (year_yy d))
      else if fmt = CHR ''T'' then Inr (show_three (CHR '':'') (hour d) (minute d) (second d))
      else if fmt = CHR ''y'' then Inr (show_pad_int 2 (year_yy d))
      else if fmt = CHR ''o'' then Inr (show_pad_int 2 (month d))
      else if fmt = CHR ''d'' then Inr (show_pad_int 2 (month_day d))
      else if fmt = CHR ''h'' then Inr (show_pad_int 2 (hour d))
      else if fmt = CHR ''m'' then Inr (show_pad_int 2 (minute d))
      else if fmt = CHR ''s'' then Inr (show_pad_int 2 (second d))
      else Inl Assertion)"

definition date_print :: "sccs_date \<Rightarrow> string res" where
  "date_print d =
     bindE (date_printf d (CHR ''D'')) (\<lambda>a.
     bindE (date_printf d (CHR ''T'')) (\<lambda>b. Inr (a @ '' '' @ b)))"

definition date_as_string :: "sccs_date \<Rightarrow> string" where
  "date_as_string d =
     show_three (CHR ''/'') (year_yy d) (month d) (month_day d) @ '' '' @
     show_three (CHR '':'') (hour d) (minute d) (second d)"

section \<open>Comparison\<close>

definition date_compare :: "sccs_date \<Rightarrow> sccs_date \<Rightarrow> int res" where
  "date_compare d e =
     bindE (ASSERT (date_valid d)) (\<lambda>_.
     bindE (ASSERT (date_valid e)) (\<lambda>_.
       Inr (if year d - year e \<noteq> 0 then year d - year e
            else if yearday d - yearday e \<noteq> 0 then yearday d - yearday e
            else if hour d - hour e \<noteq> 0 then hour d - hour e
            else if minute d - minute e \<noteq> 0 then minute d - minute e
            else second d - second e)))"

definition date_gt :: "sccs_date \<Rightarrow> sccs_date \<Rightarrow> bool res" where
  "date_gt d e = bindE (date_compare d e) (\<lambda>c. Inr (c > 0))"

definition date_lt :: "sccs_date \<Rightarrow> sccs_date \<Rightarrow> bool res" where
  "date_lt d e = bindE (date_compare d e) (\<lambda>c. Inr (c < 0))"

definition date_le :: "sccs_date \<Rightarrow> sccs_date \<Rightarrow> bool res" where
  "date_le d e = bindE (date_compare d e) (\<lambda>c. Inr (c \<le> 0))"

section \<open>Printing and reading back\<close>

lemma digit_char_0: "digit_char 0 = CHR ''0''"
  by code_simp

lemma show_pad_two:
  assumes "n < 100"
  shows "show_pad 2 n = [digit_char (n div 10), digit_char (n mod 10)]"
proof (cases "n < 10")
  case True
  then show ?thesis by (simp add: show_pad_def show_nat.simps [of n] digit_char_0)
next
  case False
  then have "n div 10 < 10" using assms by simp
  with False show ?thesis
    by (simp add: show_pad_def show_nat.simps [of n] show_nat.simps [of "n div 10"])
qed

lemma show_pad_int_two:
  assumes "0 \<le> n" and "n < 100"
  shows "show_pad_int 2 n = [digit_char (nat n div 10), digit_char (nat n mod 10)]"
  using assms by (simp add: show_pad_int_def show_pad_two nat_less_iff)

lemma two_digit_int:
  assumes "0 \<le> n"
  shows "int (nat n div 10) * 10 + int (nat n mod 10) = n"
proof -
  have "int (nat n div 10 * 10 + nat n mod 10) = n" using assms by (simp only: div_mult_mod_eq int_nat_eq if_True)
  then show ?thesis by (simp only: of_nat_add of_nat_mult of_nat_numeral)
qed

text \<open>The shape of \<open>yy/mm/dd\<close> and of \<open>hh:mm:ss\<close>, and what the reader makes of it.\<close>

lemma show_three_reads:
  assumes "0 \<le> a" "a < 100" "0 \<le> b" "b < 100" "0 \<le> c" "c < 100"
  shows "date_fields_ok (show_three sep a b c) sep"
    and "get_two_digits (show_three sep a b c) 0 = a"
    and "get_two_digits (show_three sep a b c) 3 = b"
    and "get_two_digits (show_three sep a b c) 6 = c"
proof -
  have digits: "nat n div 10 < 10" "nat n mod 10 < 10" "int (nat n div 10) * 10 + int (nat n mod 10) = n"
    if "0 \<le> n" "n < 100" for n
    using that two_digit_int [of n] by simp_all
  note char_at_def [simp] show_three_def [simp] get_two_digits_def [simp]
  show "date_fields_ok (show_three sep a b c) sep"
    using assms digits by (simp add: show_pad_int_two date_fields_ok_def)
  show "get_two_digits (show_three sep a b c) 0 = a"
    using assms digits [of a] by (simp add: show_pad_int_two)
  show "get_two_digits (show_three sep a b c) 3 = b"
    using assms digits [of b] by (simp add: show_pad_int_two)
  show "get_two_digits (show_three sep a b c) 6 = c"
    using assms digits [of c] by (simp add: show_pad_int_two)
qed

lemma show_three_char_at:
  assumes "0 \<le> a" "a < 100" "0 \<le> b" "b < 100" "\<not> isdigit sep"
  shows "\<not> isdigit (char_at (show_three sep a b c) 2)"
    and "isdigit (char_at (show_three sep a b c) 0)"
  using assms by (simp_all add: char_at_def show_three_def show_pad_int_two)

lemma isdigit_below_colon: "isdigit c \<Longrightarrow> \<not> (58 \<le> (of_char c :: nat))"
  by (simp add: isdigit_def)

text \<open>
  A date as every constructor leaves it: valid fields, and the day of the year computed by
  \<open>update_yearday\<close>.
\<close>

definition date_ok :: "sccs_date \<Rightarrow> bool" where
  "date_ok d \<longleftrightarrow> date_valid d \<and> update_yearday d = d"

lemma date_ok_ctor6:
  assumes "date_ok d"
  shows "date_ctor6 (year d) (month d) (month_day d) (hour d) (minute d) (second d) = d"
proof -
  have "update_yearday d = d" using assms by (simp add: date_ok_def)
  then show ?thesis by (cases d) (simp add: date_ctor6_def update_yearday_def)
qed

lemma y2k_window_year:
  assumes "1969 \<le> y" "y < 2069"
  shows "y2k_window (y mod 100) = Inr y"
proof (cases "y < 2000")
  case True
  then have "y mod 100 = (y - 1900) mod 100" using mod_mult_self2 [of "y - 1900" 100 19] by simp
  then have "y mod 100 = y - 1900" using assms True by simp
  then show ?thesis using assms True by (simp add: y2k_window_def)
next
  case False
  then have "y mod 100 = (y - 2000) mod 100" using mod_mult_self2 [of "y - 2000" 100 20] by simp
  then have "y mod 100 = y - 2000" using assms False by simp
  then show ?thesis using assms False by (simp add: y2k_window_def)
qed

lemma date_valid_two_digits:
  assumes "date_valid d"
  shows "0 \<le> month d" "month d < 100" "0 \<le> month_day d" "month_day d < 100"
        "0 \<le> hour d" "hour d < 100" "0 \<le> minute d" "minute d < 100" "0 \<le> second d" "second d < 100"
  using assms by (auto simp: date_valid_def days_in_month_def split: if_splits)

lemma date_of_strings_show:
  assumes v: "date_valid d" and y: "1969 \<le> year d" "year d < 2069"
  shows "date_of_strings (show_three (CHR ''/'') (year_yy d) (month d) (month_day d))
                         (show_three (CHR '':'') (hour d) (minute d) (second d))
         = Inr (date_ctor6 (year d) (month d) (month_day d) (hour d) (minute d) (second d))"
proof -
  note two = date_valid_two_digits [OF v]
  have yy: "year_yy d = year d mod 100" using y by (simp add: year_yy_def)
  then have yr: "0 \<le> year_yy d" "year_yy d < 100" by simp_all
  show ?thesis
    using show_three_reads [of "year_yy d" "month d" "month_day d" "CHR ''/''"]
      show_three_reads [of "hour d" "minute d" "second d" "CHR '':''"]
      show_three_char_at [of "year_yy d" "month d" "CHR ''/''" "month_day d"]
      isdigit_below_colon [of "char_at (show_three (CHR ''/'') (year_yy d) (month d) (month_day d)) 0"]
      y2k_window_year [OF y] two yr
    by (simp add: date_of_strings_def Let_def yy)
qed

lemma show_three_chars:
  assumes "0 \<le> a" "a < 100" "0 \<le> b" "b < 100" "0 \<le> c" "c < 100" "\<not> isdigit x" "x \<noteq> sep"
  shows "x \<notin> set (show_three sep a b c)"
  using assms by (simp add: show_three_def show_pad_int_two)

text \<open>A date that an s-file can hold, and its two words.\<close>

definition date_sfile :: "sccs_date \<Rightarrow> bool" where
  "date_sfile d \<longleftrightarrow> date_ok d \<and> 1969 \<le> year d \<and> year d < 2069"

definition date_word :: "sccs_date \<Rightarrow> string" where
  "date_word d = show_three (CHR ''/'') (year_yy d) (month d) (month_day d)"

definition time_word :: "sccs_date \<Rightarrow> string" where
  "time_word d = show_three (CHR '':'') (hour d) (minute d) (second d)"

lemma date_words:
  assumes "date_sfile d"
  shows "date_print d = Inr (date_word d @ '' '' @ time_word d)"
    and "length (date_word d) = 8" "length (time_word d) = 8"
    and "date_of_strings (date_word d) (time_word d) = Inr d"
    and "\<And>x. \<not> isdigit x \<Longrightarrow> x \<noteq> CHR ''/'' \<Longrightarrow> x \<notin> set (date_word d)"
    and "\<And>x. \<not> isdigit x \<Longrightarrow> x \<noteq> CHR '':'' \<Longrightarrow> x \<notin> set (time_word d)"
proof -
  have v: "date_valid d" and y: "1969 \<le> year d" "year d < 2069" and ok: "date_ok d"
    using assms by (auto simp: date_sfile_def date_ok_def)
  note two = date_valid_two_digits [OF v]
  have yr: "0 \<le> year_yy d" "year_yy d < 100" using y by (simp_all add: year_yy_def)
  show "date_print d = Inr (date_word d @ '' '' @ time_word d)"
    by (simp add: date_print_def date_printf_def date_word_def time_word_def)
  show "length (date_word d) = 8" "length (time_word d) = 8"
    using two yr by (simp_all add: date_word_def time_word_def show_three_def show_pad_int_two)
  show "date_of_strings (date_word d) (time_word d) = Inr d"
    using date_of_strings_show [OF v y] date_ok_ctor6 [OF ok] by (simp add: date_word_def time_word_def)
  show "x \<notin> set (date_word d)" if "\<not> isdigit x" "x \<noteq> CHR ''/''" for x
    unfolding date_word_def using two yr that by (intro show_three_chars) auto
  show "x \<notin> set (time_word d)" if "\<not> isdigit x" "x \<noteq> CHR '':''" for x
    unfolding time_word_def using two that by (intro show_three_chars) auto
qed

text \<open>
  C26. A date that an s-file can hold (a valid date from 1969 to 2068) is printed as two words
  of eight characters with a blank between them, and the constructor that reads two such words
  gives the same date back: the two-digit year returns to its century, and the day of the year
  is recomputed.
\<close>

theorem date_print_read:
  assumes "date_ok d" and "1969 \<le> year d" and "year d < 2069"
  shows "\<exists>dt tm. date_print d = Inr (dt @ '' '' @ tm) \<and> length dt = 8 \<and> length tm = 8
                 \<and> date_of_strings dt tm = Inr d"
  using date_words [of d] assms unfolding date_sfile_def by blast

theorem date_print_read_witness:
  "\<exists>dt tm. date_print (date_ctor6 2000 2 29 23 59 61) = Inr (dt @ '' '' @ tm)
           \<and> length dt = 8 \<and> length tm = 8
           \<and> date_of_strings dt tm = Inr (date_ctor6 2000 2 29 23 59 61)"
proof -
  have "date_ok (date_ctor6 2000 2 29 23 59 61)" by code_simp
  moreover have "1969 \<le> year (date_ctor6 2000 2 29 23 59 61)"
    and "year (date_ctor6 2000 2 29 23 59 61) < 2069" by code_simp+
  ultimately show ?thesis by (rule date_print_read)
qed

section \<open>Chronological order\<close>

lemma sum_days_eq: "d \<le> md \<Longrightarrow> sum_days d md yd = yd + (md - d)"
proof (induction d md yd rule: sum_days.induct)
  case (1 d md yd)
  then show ?case by (cases "d < md") (auto simp: sum_days.simps [of d] sum_days.simps [of md])
qed

text \<open>The number of days of the year before the first of a month.\<close>

fun days_before :: "int \<Rightarrow> nat \<Rightarrow> int" where
  "days_before yr 0 = 0"
| "days_before yr (Suc n) = days_before yr n + days_in_month (int n + 1) yr"

lemma sum_months_eq:
  assumes "k \<le> n"
  shows "sum_months (int k + 1) (int n + 1) yr yd = yd + days_before yr n - days_before yr k"
  using assms
proof (induction "n - k" arbitrary: k yd)
  case 0
  then show ?case by (simp add: sum_months.simps)
next
  case (Suc j)
  then have less: "k < n" and "j = n - Suc k" by auto
  with Suc.hyps(1) [of "Suc k" "yd + days_in_month (int k + 1) yr"]
  have "sum_months (int k + 1 + 1) (int n + 1) yr (yd + days_in_month (int k + 1) yr)
        = yd + days_in_month (int k + 1) yr + days_before yr n - days_before yr (Suc k)"
    by (simp add: add.commute)
  with less show ?case by (subst sum_months.simps) simp
qed

lemma yearday_ctor6:
  assumes "1 \<le> mo" and "1 \<le> day"
  shows "yearday (date_ctor6 yr mo day hr mi se) = days_before yr (nat (mo - 1)) + day"
proof -
  have "sum_months 1 mo yr 1 = 1 + days_before yr (nat (mo - 1))"
    using assms sum_months_eq [of 0 "nat (mo - 1)" yr 1] by simp
  then show ?thesis
    using assms by (simp add: date_ctor6_def update_yearday_def sum_days_eq)
qed

lemma date_ctor6_simps [simp]:
  "year (date_ctor6 yr mo day hr mi se) = yr"
  "month (date_ctor6 yr mo day hr mi se) = mo"
  "month_day (date_ctor6 yr mo day hr mi se) = day"
  "hour (date_ctor6 yr mo day hr mi se) = hr"
  "minute (date_ctor6 yr mo day hr mi se) = mi"
  "second (date_ctor6 yr mo day hr mi se) = se"
  by (simp_all add: date_ctor6_def update_yearday_def)

lemma days_in_month_pos: "1 \<le> mo \<Longrightarrow> mo \<le> 12 \<Longrightarrow> 28 \<le> days_in_month mo yr"
  by (simp add: days_in_month_def) presburger

lemma days_before_mono:
  assumes "m < n" and "n \<le> 12"
  shows "days_before yr m + days_in_month (int m + 1) yr \<le> days_before yr n"
  using assms
proof (induction n)
  case (Suc n)
  show ?case
  proof (cases "m = n")
    case False
    with Suc have "days_before yr m + days_in_month (int m + 1) yr \<le> days_before yr n" by simp
    moreover have "0 \<le> days_in_month (int n + 1) yr"
      using days_in_month_pos [of "int n + 1" yr] Suc.prems by simp
    ultimately show ?thesis by simp
  qed simp
qed simp

text \<open>Within a year the day of the year orders the days.\<close>

lemma yearday_less:
  assumes "1 \<le> mo" "mo \<le> 12" "1 \<le> day" "day \<le> days_in_month mo yr"
    and "1 \<le> mo'" "mo' \<le> 12" "1 \<le> day'" "day' \<le> days_in_month mo' yr"
  shows "days_before yr (nat (mo - 1)) + day < days_before yr (nat (mo' - 1)) + day'
         \<longleftrightarrow> mo < mo' \<or> mo = mo' \<and> day < day'"
proof -
  have less: "days_before yr (nat (m - 1)) + d < days_before yr (nat (m' - 1)) + d'"
    if "m < m'" "1 \<le> m" "m' \<le> 12" "d \<le> days_in_month m yr" "1 \<le> d'" for m m' d d'
  proof -
    have "nat (m - 1) < nat (m' - 1)" "nat (m' - 1) \<le> 12" using that by auto
    then show ?thesis using days_before_mono [of "nat (m - 1)" "nat (m' - 1)" yr] that by simp
  qed
  show ?thesis
    using less [of mo mo' day day'] less [of mo' mo day' day] assms
    by (cases mo mo' rule: linorder_cases) auto
qed

definition chron_key :: "sccs_date \<Rightarrow> int list" where
  "chron_key d = [year d, month d, month_day d, hour d, minute d, second d]"

lemma date_ok_yearday:
  assumes "date_ok d"
  shows "yearday d = days_before (year d) (nat (month d - 1)) + month_day d"
proof -
  have "yearday d = yearday (date_ctor6 (year d) (month d) (month_day d) (hour d) (minute d) (second d))"
    by (simp only: date_ok_ctor6 [OF assms])
  also have "\<dots> = days_before (year d) (nat (month d - 1)) + month_day d"
    using assms by (intro yearday_ctor6) (auto simp: date_ok_def date_valid_def)
  finally show ?thesis .
qed

text \<open>
  C27. On dates whose fields are valid and whose day of the year was computed by
  \<open>update_yearday\<close> (what every constructor of a date does), the operators \<open><\<close>, \<open><=\<close> and \<open>>\<close>
  are the chronological order, the lexicographic order of year, month, day, hour, minute and
  second, although the code compares days of the year instead of months and days.
\<close>

theorem date_compare_chronological:
  assumes "date_ok d" and "date_ok e"
  shows "date_lt d e = Inr ((chron_key d, chron_key e) \<in> lexord {(x, y). x < y})
         \<and> date_gt d e = Inr ((chron_key e, chron_key d) \<in> lexord {(x, y). x < y})
         \<and> date_le d e = Inr ((chron_key e, chron_key d) \<notin> lexord {(x, y). x < y})"
proof -
  have v: "date_valid d" "date_valid e" using assms by (auto simp: date_ok_def)
  have yd: "year d = year e \<Longrightarrow> yearday d < yearday e \<longleftrightarrow>
        month d < month e \<or> month d = month e \<and> month_day d < month_day e"
    and ye: "year d = year e \<Longrightarrow> yearday e < yearday d \<longleftrightarrow>
        month e < month d \<or> month e = month d \<and> month_day e < month_day d"
    using v date_ok_yearday assms by (auto simp: date_valid_def yearday_less)
  have "date_lt d e = Inr ((chron_key d, chron_key e) \<in> lexord {(x, y). x < y})"
    using v yd ye by (auto simp: date_lt_def date_compare_def chron_key_def)
  moreover have "date_gt d e = Inr ((chron_key e, chron_key d) \<in> lexord {(x, y). x < y})"
    using v yd ye by (auto simp: date_gt_def date_compare_def chron_key_def)
  moreover have "date_le d e = Inr ((chron_key e, chron_key d) \<notin> lexord {(x, y). x < y})"
    using v yd ye by (auto simp: date_le_def date_compare_def chron_key_def)
  ultimately show ?thesis by blast
qed

theorem date_compare_chronological_witness:
  "date_lt (date_ctor6 1999 12 31 23 59 59) (date_ctor6 2000 1 1 0 0 0) = Inr True
   \<and> date_gt (date_ctor6 2000 3 1 0 0 0) (date_ctor6 2000 2 29 12 0 0) = Inr True"
proof -
  have ok: "date_ok (date_ctor6 1999 12 31 23 59 59)" "date_ok (date_ctor6 2000 1 1 0 0 0)"
    "date_ok (date_ctor6 2000 3 1 0 0 0)" "date_ok (date_ctor6 2000 2 29 12 0 0)"
    by code_simp+
  show ?thesis
    using date_compare_chronological [OF ok(1,2)] date_compare_chronological [OF ok(3,4)]
    by (simp add: chron_key_def)
qed

end
