(* ===== verification/Delta.thy ===== *)
theory Delta
  imports Range_List Sccs_Date
begin

text \<open>
  \<open>class delta\<close> (delta.h): one entry of the delta table of an s-file. The members are the
  fields of a record and each member function that changes an object is a function on it.
  Sequence numbers (\<open>unsigned short\<close>) and the line counts (\<open>unsigned long\<close>) are natural
  numbers; the counts never reach the width of their type.
\<close>

type_synonym seq_no = nat

record delta =
  delta_type :: char
  delta_id :: sid
  delta_date :: sccs_date
  user :: string
  seq :: seq_no
  prev_seq :: seq_no
  have_includes :: bool
  have_excludes :: bool
  have_ignores :: bool
  included_seqs :: "seq_no list"
  excluded_seqs :: "seq_no list"
  ignored_seqs :: "seq_no list"
  mrs :: "string list"
  comments :: "string list"
  inserted :: nat
  deleted :: nat
  unchanged :: nat

definition is_valid_delta_type :: "char \<Rightarrow> bool" where
  "is_valid_delta_type t \<longleftrightarrow> t = CHR ''D'' \<or> t = CHR ''R''"

definition delta_default :: delta where
  "delta_default =
     \<lparr>delta_type = CHR ''D'', delta_id = sid_default, delta_date = date_default, user = [],
      seq = 0, prev_seq = 0, have_includes = False, have_excludes = False, have_ignores = False,
      included_seqs = [], excluded_seqs = [], ignored_seqs = [], mrs = [], comments = [],
      inserted = 0, deleted = 0, unchanged = 0\<rparr>"

definition delta_ctor8 ::
  "char \<Rightarrow> sid \<Rightarrow> sccs_date \<Rightarrow> string \<Rightarrow> seq_no \<Rightarrow> seq_no \<Rightarrow> string list \<Rightarrow> string list \<Rightarrow> delta res" where
  "delta_ctor8 t i d u s p ms cs =
     bindE (ASSERT (is_valid_delta_type t)) (\<lambda>_. Inr
       (delta_default\<lparr>delta_type := t, delta_id := i, delta_date := d, user := u, seq := s,
                      prev_seq := p, mrs := ms, comments := cs\<rparr>))"

text \<open>A \<open>std::set\<close> of sequence numbers is a sorted list without duplicates.\<close>

definition delta_ctor10 ::
  "char \<Rightarrow> sid \<Rightarrow> sccs_date \<Rightarrow> string \<Rightarrow> seq_no \<Rightarrow> seq_no \<Rightarrow> seq_no list \<Rightarrow> seq_no list \<Rightarrow>
   string list \<Rightarrow> string list \<Rightarrow> delta res" where
  "delta_ctor10 t i d u s p incl excl ms cs =
     bindE (ASSERT (is_valid_delta_type t)) (\<lambda>_. Inr
       (delta_default\<lparr>delta_type := t, delta_id := i, delta_date := d, user := u, seq := s,
                      prev_seq := p, have_includes := incl \<noteq> [], have_excludes := excl \<noteq> [],
                      included_seqs := incl, excluded_seqs := excl, mrs := ms, comments := cs\<rparr>))"

definition set_idu :: "nat \<Rightarrow> nat \<Rightarrow> nat \<Rightarrow> delta \<Rightarrow> delta" where
  "set_idu i d u dl = dl\<lparr>inserted := i, deleted := d, unchanged := u\<rparr>"

definition set_inserted :: "nat \<Rightarrow> delta \<Rightarrow> delta" where
  "set_inserted i dl = dl\<lparr>inserted := i\<rparr>"

definition increment_inserted :: "delta \<Rightarrow> delta" where
  "increment_inserted dl = dl\<lparr>inserted := inserted dl + 1\<rparr>"

definition increment_deleted :: "delta \<Rightarrow> delta" where
  "increment_deleted dl = dl\<lparr>deleted := deleted dl + 1\<rparr>"

definition increment_unchanged :: "delta \<Rightarrow> delta" where
  "increment_unchanged dl = dl\<lparr>unchanged := unchanged dl + 1\<rparr>"

definition set_has_includes :: "bool \<Rightarrow> delta \<Rightarrow> delta res" where
  "set_has_includes v dl =
     bindE (if \<not> v then ASSERT (included_seqs dl = []) else Inr ()) (\<lambda>_. Inr (dl\<lparr>have_includes := v\<rparr>))"

definition add_include :: "seq_no \<Rightarrow> delta \<Rightarrow> delta" where
  "add_include s dl = dl\<lparr>included_seqs := included_seqs dl @ [s], have_includes := True\<rparr>"

definition set_has_excludes :: "bool \<Rightarrow> delta \<Rightarrow> delta res" where
  "set_has_excludes v dl =
     bindE (if \<not> v then ASSERT (excluded_seqs dl = []) else Inr ()) (\<lambda>_. Inr (dl\<lparr>have_excludes := v\<rparr>))"

definition add_exclude :: "seq_no \<Rightarrow> delta \<Rightarrow> delta" where
  "add_exclude s dl = dl\<lparr>excluded_seqs := excluded_seqs dl @ [s], have_excludes := True\<rparr>"

definition set_has_ignores :: "bool \<Rightarrow> delta \<Rightarrow> delta res" where
  "set_has_ignores v dl =
     bindE (if \<not> v then ASSERT (ignored_seqs dl = []) else Inr ()) (\<lambda>_. Inr (dl\<lparr>have_ignores := v\<rparr>))"

definition add_ignore :: "seq_no \<Rightarrow> delta \<Rightarrow> delta" where
  "add_ignore s dl = dl\<lparr>ignored_seqs := ignored_seqs dl @ [s], have_ignores := True\<rparr>"

definition add_mr :: "string \<Rightarrow> delta \<Rightarrow> delta" where
  "add_mr s dl = dl\<lparr>mrs := mrs dl @ [s]\<rparr>"

definition add_comment :: "string \<Rightarrow> delta \<Rightarrow> delta" where
  "add_comment s dl = dl\<lparr>comments := comments dl @ [s]\<rparr>"

definition prepend_comments :: "string list \<Rightarrow> delta \<Rightarrow> delta" where
  "prepend_comments pre dl = dl\<lparr>comments := pre @ comments dl\<rparr>"

definition removed :: "delta \<Rightarrow> bool" where
  "removed dl \<longleftrightarrow> delta_type dl = CHR ''R''"

definition set_type :: "char \<Rightarrow> delta \<Rightarrow> delta res" where
  "set_type t dl = bindE (ASSERT (is_valid_delta_type t)) (\<lambda>_. Inr (dl\<lparr>delta_type := t\<rparr>))"

text \<open>
  What every operation of the class keeps: the type letter is one of the two, and a list of
  sequence numbers that is not empty has its \<open>have_\<close> flag set.
\<close>

definition delta_wf :: "delta \<Rightarrow> bool" where
  "delta_wf dl \<longleftrightarrow>
     is_valid_delta_type (delta_type dl)
     \<and> (included_seqs dl \<noteq> [] \<longrightarrow> have_includes dl)
     \<and> (excluded_seqs dl \<noteq> [] \<longrightarrow> have_excludes dl)
     \<and> (ignored_seqs dl \<noteq> [] \<longrightarrow> have_ignores dl)"

lemma delta_wf_ctors:
  "delta_wf delta_default"
  "delta_ctor8 t i d u s p ms cs = Inr dl \<Longrightarrow> delta_wf dl"
  "delta_ctor10 t i d u s p incl excl ms cs = Inr dl \<Longrightarrow> delta_wf dl"
  by (auto simp: delta_wf_def delta_default_def delta_ctor8_def delta_ctor10_def
      is_valid_delta_type_def bindE_eq_Inr)

lemma delta_wf_ops:
  assumes "delta_wf dl"
  shows "delta_wf (add_include s dl)" "delta_wf (add_exclude s dl)" "delta_wf (add_ignore s dl)"
    "set_has_includes v dl = Inr dl1 \<Longrightarrow> delta_wf dl1"
    "set_has_excludes v dl = Inr dl2 \<Longrightarrow> delta_wf dl2"
    "set_has_ignores v dl = Inr dl3 \<Longrightarrow> delta_wf dl3"
    "set_type t dl = Inr dl4 \<Longrightarrow> delta_wf dl4"
  using assms
  by (auto simp: delta_wf_def add_include_def add_exclude_def add_ignore_def set_has_includes_def
      set_has_excludes_def set_has_ignores_def set_type_def bindE_eq_Inr split: if_splits)

end
