(* ===== verification/Delta_Table.thy ===== *)
theory Delta_Table
  imports Delta
begin

text \<open>
  The delta table (delta-table.h, delta-table.cc, dtbl-prepend.cc) and its iterators
  (delta-iterator.h, delta-iterator.cc). The table keeps its deltas in a vector, a map from
  sequence numbers to positions of the vector, the highest sequence number and the highest
  release; the \<open>std::map\<close> is a HOL map. The invariant \<open>table_wf\<close> says that the derived members
  agree with the vector, every operation keeps it, and the searches are characterised by the
  vector alone.
\<close>

record delta_table =
  high_seqno :: seq_no
  high_release :: sid
  items :: "delta list"
  seq_table :: "seq_no \<rightharpoonup> nat"

definition table_empty :: delta_table where
  "table_empty = \<lparr>high_seqno = 0, high_release = null_sid, items = [], seq_table = Map.empty\<rparr>"

lemma table_empty_simps [simp]:
  "items table_empty = []" "high_seqno table_empty = 0" "seq_table table_empty = Map.empty"
  by (simp_all add: table_empty_def)

definition update_highest :: "delta \<Rightarrow> delta_table \<Rightarrow> delta_table" where
  "update_highest d t =
     (let t = (if seq d > high_seqno t then t\<lparr>high_seqno := seq d\<rparr> else t)
      in if \<not> removed d then
           if is_null (high_release t) then
             (if on_trunk (delta_id d) then t\<lparr>high_release := delta_id d\<rparr> else t)
           else if sid_gt (delta_id d) (high_release t) then t\<lparr>high_release := delta_id d\<rparr>
           else t
         else t)"

definition table_add :: "delta \<Rightarrow> delta_table \<Rightarrow> delta_table" where
  "table_add d t =
     update_highest d (t\<lparr>items := items t @ [d], seq_table := (seq_table t)(seq d \<mapsto> length (items t))\<rparr>)"

text \<open>\<open>operator +=\<close>: adds the deltas of another table one by one.\<close>

definition table_append :: "delta_table \<Rightarrow> delta_table \<Rightarrow> delta_table" where
  "table_append t other = foldl (\<lambda>t d. table_add d t) t (items other)"

definition table_prepend :: "delta \<Rightarrow> delta_table \<Rightarrow> delta_table" where
  "table_prepend d t = table_append (table_add d table_empty) t"

text \<open>\<open>stl_delta_list::delta_at_seq\<close>: the position from the map, then the element there.\<close>

definition stl_delta_at_seq :: "delta_table \<Rightarrow> seq_no \<Rightarrow> delta option" where
  "stl_delta_at_seq t s = map_option (\<lambda>p. items t ! p) (seq_table t s)"

definition delta_at_seq_exists :: "delta_table \<Rightarrow> seq_no \<Rightarrow> bool res" where
  "delta_at_seq_exists t s =
     bindE (ASSERT (0 < s)) (\<lambda>_. bindE (ASSERT (s \<le> high_seqno t)) (\<lambda>_.
       Inr (seq_table t s \<noteq> None)))"

definition delta_at_seq :: "delta_table \<Rightarrow> seq_no \<Rightarrow> delta res" where
  "delta_at_seq t s =
     bindE (ASSERT (0 < s)) (\<lambda>_. bindE (ASSERT (s \<le> high_seqno t)) (\<lambda>_.
       (case stl_delta_at_seq t s of None \<Rightarrow> Inl Assertion | Some d \<Rightarrow> Inr d)))"

definition next_seqno :: "delta_table \<Rightarrow> seq_no" where
  "next_seqno t = u16_of (high_seqno t + 1)"

section \<open>Iterators\<close>

datatype delta_selector = Current | All

record delta_iterator =
  it_pos :: nat
  it_first :: bool
  it_selector :: delta_selector

definition iter_start :: "delta_selector \<Rightarrow> delta_iterator" where
  "iter_start sel = \<lparr>it_pos = 0, it_first = True, it_selector = sel\<rparr>"

definition advance :: "delta_iterator \<Rightarrow> delta_iterator" where
  "advance it = (if it_first it then it\<lparr>it_first := False\<rparr> else it\<lparr>it_pos := it_pos it + 1\<rparr>)"

text \<open>
  \<open>next\<close> returns whether there is another delta, and the moved iterator. The measure counts
  the positions that are left.
\<close>

definition iter_left :: "delta_table \<Rightarrow> delta_iterator \<Rightarrow> nat" where
  "iter_left t it = (if it_first it then 1 else 0) + (length (items t) - it_pos it)"

function iter_next :: "delta_table \<Rightarrow> delta_iterator \<Rightarrow> bool \<times> delta_iterator" where
  "iter_next t it =
     (let it = advance it
      in if it_pos it < length (items t) then
           if it_selector it = All \<or> \<not> removed (items t ! it_pos it) then (True, it)
           else iter_next t it
         else (False, it))"
  by pat_completeness auto
termination
  by (relation "measure (\<lambda>(t, it). iter_left t it)") (auto simp: iter_left_def advance_def)

declare iter_next.simps [simp del]

definition iter_delta :: "delta_table \<Rightarrow> delta_iterator \<Rightarrow> delta" where
  "iter_delta t it = items t ! it_pos it"

lemma iter_next_left:
  "iter_next t it = (True, it') \<Longrightarrow> iter_left t it' < iter_left t it"
proof (induction t it rule: iter_next.induct)
  case (1 t it)
  show ?case
  proof (cases "it_pos (advance it) < length (items t)
                \<and> \<not> (it_selector (advance it) = All \<or> \<not> removed (items t ! it_pos (advance it)))")
    case True
    then have "iter_left t it' < iter_left t (advance it)"
      using 1 by (simp add: iter_next.simps [of t it] Let_def)
    then show ?thesis using True
      by (auto simp: iter_left_def advance_def split: if_splits)
  next
    case False
    then show ?thesis using "1.prems"
      by (auto simp: iter_next.simps [of t it] Let_def iter_left_def advance_def split: if_splits)
  qed
qed

text \<open>The loop of \<open>find\<close> and \<open>find_any\<close>: the first delta selected that has the SID.\<close>

function find_loop :: "delta_table \<Rightarrow> sid \<Rightarrow> delta_iterator \<Rightarrow> delta_iterator option" where
  "find_loop t i it =
     (case iter_next t it of
        (True, it') \<Rightarrow> if delta_id (iter_delta t it') = i then Some it' else find_loop t i it'
      | (False, _) \<Rightarrow> None)"
  by pat_completeness auto
termination
  by (relation "measure (\<lambda>(t, i, it). iter_left t it)") (auto dest: iter_next_left simp: eq_commute)

declare find_loop.simps [simp del]

definition table_find :: "delta_table \<Rightarrow> sid \<Rightarrow> delta option" where
  "table_find t i = map_option (iter_delta t) (find_loop t i (iter_start Current))"

definition table_find_any :: "delta_table \<Rightarrow> sid \<Rightarrow> delta option" where
  "table_find_any t i = map_option (iter_delta t) (find_loop t i (iter_start All))"

text \<open>The deltas that an iterator visits, for the loops that only read them.\<close>

definition selected :: "delta_selector \<Rightarrow> delta_table \<Rightarrow> delta list" where
  "selected sel t = filter (\<lambda>d. sel = All \<or> \<not> removed d) (items t)"

section \<open>What the iterators visit\<close>

definition iter_rest :: "delta_table \<Rightarrow> delta_iterator \<Rightarrow> delta list" where
  "iter_rest t it =
     filter (\<lambda>d. it_selector it = All \<or> \<not> removed d)
            (drop (if it_first it then it_pos it else it_pos it + 1) (items t))"

lemma iter_rest_start [simp]: "iter_rest t (iter_start sel) = selected sel t"
  by (simp add: iter_rest_def iter_start_def selected_def)

lemma iter_next_rest:
  "(case iter_next t it of
      (True, it') \<Rightarrow> iter_rest t it = iter_delta t it' # iter_rest t it'
    | (False, _) \<Rightarrow> iter_rest t it = [])"
proof (induction t it rule: iter_next.induct)
  case (1 t it)
  let ?a = "advance it"
  have adv: "(if it_first it then it_pos it else it_pos it + 1) = it_pos ?a" "\<not> it_first ?a"
    "it_selector ?a = it_selector it"
    by (simp_all add: advance_def)
  show ?case
  proof (cases "it_pos ?a < length (items t)")
    case True
    then have "drop (it_pos ?a) (items t) = items t ! it_pos ?a # drop (Suc (it_pos ?a)) (items t)"
      by (simp add: Cons_nth_drop_Suc)
    with 1 [OF refl] True adv show ?thesis
      by (auto simp: iter_next.simps [of t it] Let_def iter_rest_def iter_delta_def
          split: prod.splits bool.splits)
  next
    case False
    with adv show ?thesis by (simp add: iter_next.simps [of t it] Let_def iter_rest_def)
  qed
qed

lemma find_loop_rest:
  "map_option (iter_delta t) (find_loop t i it) = List.find (\<lambda>d. delta_id d = i) (iter_rest t it)"
proof (induction t i it rule: find_loop.induct)
  case (1 t i it)
  obtain b it' where n: "iter_next t it = (b, it')" by (cases "iter_next t it")
  with iter_next_rest [of t it] 1 [OF n [symmetric]] show ?case
    by (cases b) (auto simp: find_loop.simps [of t i it])
qed

lemma table_find_eq: "table_find t i = List.find (\<lambda>d. delta_id d = i) (selected Current t)"
  by (simp add: table_find_def find_loop_rest)

lemma table_find_any_eq: "table_find_any t i = List.find (\<lambda>d. delta_id d = i) (items t)"
  by (simp add: table_find_any_def find_loop_rest) (simp add: selected_def)

section \<open>The invariant\<close>

definition table_wf :: "delta_table \<Rightarrow> bool" where
  "table_wf t \<longleftrightarrow>
     high_seqno t = Max (insert 0 (seq ` set (items t)))
     \<and> seq_table t = map_of (rev (zip (map seq (items t)) [0..<length (items t)]))"

lemma update_highest_simps [simp]:
  "items (update_highest d t) = items t"
  "seq_table (update_highest d t) = seq_table t"
  "high_seqno (update_highest d t) = max (high_seqno t) (seq d)"
  by (simp_all add: update_highest_def Let_def max_def)

lemma table_add_simps [simp]:
  "items (table_add d t) = items t @ [d]"
  "seq_table (table_add d t) = (seq_table t)(seq d \<mapsto> length (items t))"
  "high_seqno (table_add d t) = max (high_seqno t) (seq d)"
  by (simp_all add: table_add_def)

lemma table_wf_empty [simp]: "table_wf table_empty"
  by (simp add: table_wf_def table_empty_def)

lemma table_wf_add: "table_wf t \<Longrightarrow> table_wf (table_add d t)"
  by (auto simp: table_wf_def max.commute insert_commute [of 0])

lemma foldl_table_add:
  "items (foldl (\<lambda>t d. table_add d t) t ds) = items t @ ds"
  "table_wf t \<Longrightarrow> table_wf (foldl (\<lambda>t d. table_add d t) t ds)"
  by (induction ds arbitrary: t) (simp_all add: table_wf_add)

lemma table_append_wf:
  "items (table_append t u) = items t @ items u"
  "table_wf t \<Longrightarrow> table_wf (table_append t u)"
  by (simp_all add: table_append_def foldl_table_add)

lemma table_prepend_wf:
  "items (table_prepend d t) = d # items t"
  "table_wf (table_prepend d t)"
  by (simp_all add: table_prepend_def table_append_wf table_wf_add)

lemma seq_table_bound:
  assumes "table_wf t" and "seq_table t s = Some p"
  shows "p < length (items t)" and "seq (items t ! p) = s" and "s \<le> high_seqno t"
proof -
  have "(s, p) \<in> set (zip (map seq (items t)) [0..<length (items t)])"
    using assms by (auto simp: table_wf_def dest: map_of_SomeD)
  then show p: "p < length (items t)" and s: "seq (items t ! p) = s"
    by (auto simp: set_zip)
  have "s \<in> insert 0 (seq ` set (items t))" using p s by auto
  then show "s \<le> high_seqno t"
    using assms(1) by (auto simp: table_wf_def intro!: Max_ge)
qed

lemma stl_delta_at_seq_add:
  assumes "table_wf t"
  shows "stl_delta_at_seq (table_add d t) k = (if k = seq d then Some d else stl_delta_at_seq t k)"
  using seq_table_bound [OF assms, of k]
  by (cases "seq_table t k") (auto simp: stl_delta_at_seq_def nth_append)

lemma find_key:
  "distinct (map key ds) \<Longrightarrow> List.find (\<lambda>d. key d = k) ds = Some d \<longleftrightarrow> d \<in> set ds \<and> key d = k"
  by (induction ds) (auto simp: image_iff)

section \<open>The table as an index from sequence numbers to deltas\<close>

text \<open>
  What the rest of the program relies on: looking up a key after an insertion, and a bound on
  the keys from which a fresh key is made.
\<close>

locale seq_index =
  fixes inv :: "'t \<Rightarrow> bool"
    and empty_index :: 't
    and add :: "'d \<Rightarrow> 't \<Rightarrow> 't"
    and lookup :: "'t \<Rightarrow> nat \<Rightarrow> 'd option"
    and key :: "'d \<Rightarrow> nat"
    and high :: "'t \<Rightarrow> nat"
  assumes inv_empty: "inv empty_index"
    and inv_add: "inv t \<Longrightarrow> inv (add d t)"
    and lookup_empty: "lookup empty_index k = None"
    and lookup_add: "inv t \<Longrightarrow> lookup (add d t) k = (if k = key d then Some d else lookup t k)"
    and high_bound: "inv t \<Longrightarrow> lookup t k = Some d \<Longrightarrow> k \<le> high t"
    and high_add: "inv t \<Longrightarrow> high (add d t) = max (high t) (key d)"
begin

definition add_all :: "'t \<Rightarrow> 'd list \<Rightarrow> 't" where
  "add_all = foldl (\<lambda>t d. add d t)"

lemma add_all_simps [simp]:
  "add_all t [] = t"
  "add_all t (d # ds) = add_all (add d t) ds"
  by (simp_all add: add_all_def)

lemma inv_add_all: "inv t \<Longrightarrow> inv (add_all t ds)"
  by (induction ds arbitrary: t) (simp_all add: inv_add)

lemma fresh_key: "inv t \<Longrightarrow> high t < k \<Longrightarrow> lookup t k = None"
  using high_bound [of t k] by (cases "lookup t k") auto

text \<open>The last of the deltas with a key is the one that is found.\<close>

lemma lookup_add_all:
  "inv t \<Longrightarrow> lookup (add_all t ds) k =
     (case List.find (\<lambda>d. key d = k) (rev ds) of Some d \<Rightarrow> Some d | None \<Rightarrow> lookup t k)"
proof (induction ds arbitrary: t)
  case (Cons d ds)
  have *: "List.find P (xs @ ys) = (case List.find P xs of Some x \<Rightarrow> Some x | None \<Rightarrow> List.find P ys)"
    for P and xs ys :: "'d list"
    by (induction xs) auto
  show ?case using Cons.IH [OF inv_add [OF Cons.prems]] Cons.prems
    by (auto simp: * lookup_add split: option.splits)
qed simp

lemma lookup_distinct:
  assumes "distinct (map key ds)"
  shows "lookup (add_all empty_index ds) k = Some d \<longleftrightarrow> d \<in> set ds \<and> key d = k"
  using find_key [of key "rev ds" k d] assms
  by (auto simp: lookup_add_all inv_empty lookup_empty rev_map [symmetric] split: option.splits)

end

interpretation dt: seq_index table_wf table_empty table_add stl_delta_at_seq seq high_seqno
proof
  show "table_wf table_empty" by simp
  show "table_wf t \<Longrightarrow> table_wf (table_add d t)" for d t by (rule table_wf_add)
  show "stl_delta_at_seq table_empty k = None" for k
    by (simp add: stl_delta_at_seq_def table_empty_def)
  show "table_wf t \<Longrightarrow> stl_delta_at_seq (table_add d t) k = (if k = seq d then Some d else stl_delta_at_seq t k)"
    for t d k by (rule stl_delta_at_seq_add)
  show "table_wf t \<Longrightarrow> stl_delta_at_seq t k = Some d \<Longrightarrow> k \<le> high_seqno t" for t k d
    using seq_table_bound(3) [of t k] by (auto simp: stl_delta_at_seq_def)
  show "table_wf t \<Longrightarrow> high_seqno (table_add d t) = max (high_seqno t) (seq d)" for t d
    by simp
qed

lemma stl_delta_at_seq_items:
  assumes "table_wf t"
  shows "stl_delta_at_seq t k = List.find (\<lambda>d. seq d = k) (rev (items t))"
proof -
  let ?u = "dt.add_all table_empty (items t)"
  have u: "table_wf ?u" "items ?u = items t"
    using foldl_table_add [of table_empty "items t"] by (simp_all add: dt.add_all_def)
  then have "seq_table ?u = seq_table t" using assms by (simp add: table_wf_def)
  with u have "stl_delta_at_seq t k = stl_delta_at_seq ?u k" by (simp add: stl_delta_at_seq_def)
  then show ?thesis
    by (auto simp: dt.lookup_add_all dt.lookup_empty split: option.splits)
qed

lemma delta_at_seq_stl:
  assumes "table_wf t" and "0 < s"
  shows "delta_at_seq t s = Inr d \<longleftrightarrow> stl_delta_at_seq t s = Some d"
  using assms dt.high_bound [OF assms(1), of s d]
  by (auto simp: delta_at_seq_def bindE_eq_Inr split: option.splits)

section \<open>Properties\<close>

text \<open>
  A table filled by \<open>add\<close> from the deltas of a file, whose sequence numbers are different
  and positive, finds by sequence number exactly those deltas; \<open>highest_seqno\<close> bounds all
  sequence numbers; and \<open>find\<close> (\<open>find_any\<close>) returns the first delta that has the SID and is
  not removed (the first that has the SID).
\<close>

lemma delta_table_lookup:
  assumes "distinct (map seq ds)" and "0 < s"
    and t: "t = foldl (\<lambda>t d. table_add d t) table_empty ds"
  shows "(delta_at_seq t s = Inr d \<longleftrightarrow> d \<in> set ds \<and> seq d = s)
         \<and> (d \<in> set ds \<longrightarrow> seq d \<le> high_seqno t)
         \<and> table_find t i = List.find (\<lambda>d. \<not> removed d \<and> delta_id d = i) ds
         \<and> table_find_any t i = List.find (\<lambda>d. delta_id d = i) ds"
proof -
  have wf: "table_wf t" and it: "items t = ds"
    using t foldl_table_add [of table_empty ds] by simp_all
  have "delta_at_seq t s = Inr d \<longleftrightarrow> d \<in> set ds \<and> seq d = s"
    using assms dt.lookup_distinct [of ds s d] delta_at_seq_stl [OF wf] t
    by (simp add: dt.add_all_def)
  moreover have "d \<in> set ds \<longrightarrow> seq d \<le> high_seqno t"
    using wf it by (auto simp: table_wf_def)
  moreover have "List.find P (filter Q xs) = List.find (\<lambda>x. Q x \<and> P x) xs" for P Q and xs :: "delta list"
    by (induction xs) auto
  then have "table_find t i = List.find (\<lambda>d. \<not> removed d \<and> delta_id d = i) ds"
    by (simp add: table_find_eq selected_def it)
  moreover have "table_find_any t i = List.find (\<lambda>d. delta_id d = i) ds"
    by (simp add: table_find_any_eq it)
  ultimately show ?thesis by blast
qed

lemma delta_table_lookup_witness:
  "let d1 = delta_default\<lparr>seq := 1, delta_id := mk_sid 1 1 0 0\<rparr>;
       d2 = delta_default\<lparr>seq := 2, delta_id := mk_sid 1 2 0 0, delta_type := CHR ''R''\<rparr>;
       t = foldl (\<lambda>t d. table_add d t) table_empty [d2, d1]
   in delta_at_seq t 1 = Inr d1 \<and> table_find t (mk_sid 1 2 0 0) = None
      \<and> table_find_any t (mk_sid 1 2 0 0) = Some d2"
proof -
  define d1 where "d1 = delta_default\<lparr>seq := 1, delta_id := mk_sid 1 1 0 0\<rparr>"
  define d2 where "d2 = delta_default\<lparr>seq := 2, delta_id := mk_sid 1 2 0 0, delta_type := CHR ''R''\<rparr>"
  note w = delta_table_lookup [of "[d2, d1]" 1 "foldl (\<lambda>t d. table_add d t) table_empty [d2, d1]"
      d1 "mk_sid 1 2 0 0"]
  show ?thesis
    unfolding Let_def d1_def [symmetric] d2_def [symmetric]
    using w by (simp add: d1_def d2_def removed_def del: foldl_Cons)
qed

text \<open>
  C16. Prepending a delta whose sequence number is \<open>next_seqno\<close> (below the limit of the 16-bit
  type) keeps the invariant and the order of the old deltas, makes the new delta the one found
  under its number, raises the highest sequence number by one, and changes no other lookup.
\<close>

theorem table_prepend_next:
  assumes "table_wf t" and "high_seqno t < 65535" and "seq d = next_seqno t"
  shows "table_wf (table_prepend d t) \<and> items (table_prepend d t) = d # items t
         \<and> high_seqno (table_prepend d t) = high_seqno t + 1
         \<and> delta_at_seq (table_prepend d t) (seq d) = Inr d
         \<and> (k \<noteq> seq d \<longrightarrow> stl_delta_at_seq (table_prepend d t) k = stl_delta_at_seq t k)"
proof -
  have s: "seq d = Suc (high_seqno t)" using assms by (simp add: next_seqno_def)
  have wf: "table_wf (table_prepend d t)" and it: "items (table_prepend d t) = d # items t"
    by (rule table_prepend_wf)+
  have *: "List.find P (xs @ [y]) = (case List.find P xs of Some x \<Rightarrow> Some x | None \<Rightarrow> if P y then Some y else None)"
    for P xs and y :: delta by (induction xs) auto
  have look: "stl_delta_at_seq (table_prepend d t) j
        = (case stl_delta_at_seq t j of Some x \<Rightarrow> Some x | None \<Rightarrow> if seq d = j then Some d else None)" for j
    by (simp add: stl_delta_at_seq_items wf assms(1) it *)
  have "stl_delta_at_seq t (seq d) = None" using s assms(1) by (simp add: dt.fresh_key)
  then have "delta_at_seq (table_prepend d t) (seq d) = Inr d"
    using delta_at_seq_stl [OF wf, of "seq d"] s by (simp add: look)
  moreover have "high_seqno (table_prepend d t) = high_seqno t + 1"
    using wf it assms(1) s by (simp add: table_wf_def insert_commute [of 0])
  ultimately show ?thesis
    using wf it look [of k] by (auto split: option.splits)
qed

theorem table_prepend_next_witness:
  "let d1 = delta_default\<lparr>seq := 1\<rparr>; d2 = delta_default\<lparr>seq := 2\<rparr>;
       t = table_add d1 table_empty
   in items (table_prepend d2 t) = [d2, d1] \<and> high_seqno (table_prepend d2 t) = 2
      \<and> delta_at_seq (table_prepend d2 t) 2 = Inr d2"
proof -
  define d1 where "d1 = delta_default\<lparr>seq := 1\<rparr>"
  define d2 where "d2 = delta_default\<lparr>seq := 2\<rparr>"
  have s: "seq d1 = 1" "seq d2 = 2" by (simp_all add: d1_def d2_def)
  then have "table_wf (table_add d1 table_empty)" "high_seqno (table_add d1 table_empty) < 65535"
    "seq d2 = next_seqno (table_add d1 table_empty)"
    by (simp_all add: table_wf_add next_seqno_def)
  from table_prepend_next [OF this] s show ?thesis
    unfolding Let_def d1_def [symmetric] d2_def [symmetric] by simp
qed

text \<open>At the limit of \<open>unsigned short\<close> the next sequence number wraps around to zero.\<close>

lemma next_seqno_wraps: "high_seqno t = 65535 \<Longrightarrow> next_seqno t = 0"
  by (simp add: next_seqno_def u16_of_def)

end
