(* ===== verification/Seq_State.thy ===== *)
theory Seq_State
  imports Delta_Table
begin

text \<open>
  \<open>class seq_state\<close> (seqstate.h, seqstate.cc): for every sequence number, whether its delta is
  included, excluded or ignored in the version that is wanted, and which \<open>^AI\<close> and \<open>^AD\<close> blocks
  are open while the body of the s-file is read. \<open>decide_disposition\<close> says whether the current
  body line belongs to the version.

  The vector \<open>states_\<close> is a list of length \<open>last_ + 1\<close>. The program indexes it without a check;
  an index beyond the end is undefined behaviour, in the model an update there changes nothing.
  The loops of the source count an \<open>unsigned short\<close> up to \<open>last_\<close>, which does not end when
  \<open>last_\<close> is 65535 (\<open>seq_loop_never_ends\<close> below). The constructor is the first of them: for
  65535 it is \<open>Diverged\<close>, so that every object has a smaller \<open>last_\<close>, for which the loops over
  its sequence numbers end as those of the model do.
\<close>

record one_state =
  included :: bool
  excluded :: bool
  ignored :: bool
  non_recursive :: bool
  is_explicit :: bool
  active :: bool
  command :: char

record seq_state =
  states :: "one_state list"
  last_seq :: seq_no
  active_seq :: seq_no
  inserting :: bool

definition initial_condition :: one_state where
  "initial_condition =
     \<lparr>included = False, excluded = False, ignored = False, non_recursive = False,
      is_explicit = False, active = False, command = CHR 0x00\<rparr>"

definition is_included :: "seq_state \<Rightarrow> seq_no \<Rightarrow> bool" where
  "is_included st n = included (states st ! n)"

definition is_excluded :: "seq_state \<Rightarrow> seq_no \<Rightarrow> bool" where
  "is_excluded st n = excluded (states st ! n)"

definition is_ignored :: "seq_state \<Rightarrow> seq_no \<Rightarrow> bool" where
  "is_ignored st n = ignored (states st ! n)"

text \<open>
  The loop of \<open>decide_disposition\<close>: the highest open insertion and the highest open deletion
  that are part of the version, and the highest open insertion that is not.
\<close>

definition scan_one :: "seq_state \<Rightarrow> nat \<times> nat \<times> nat \<Rightarrow> seq_no \<Rightarrow> nat \<times> nat \<times> nat" where
  "scan_one st acc s =
     (case acc of (our_highest_insert, our_highest_delete, owner) \<Rightarrow>
        let current = states st ! s in
        if \<not> active current then acc
        else if command current = CHR ''I'' then
          (if is_included st s
           then (if our_highest_insert < s then (s, our_highest_delete, owner) else acc)
           else (if owner < s then (our_highest_insert, our_highest_delete, s) else acc))
        else
          (if is_included st s \<and> our_highest_delete < s then (our_highest_insert, s, owner) else acc))"

definition scan_states :: "seq_state \<Rightarrow> nat \<times> nat \<times> nat" where
  "scan_states st = foldl (scan_one st) (0, 0, 0) [0..<Suc (last_seq st)]"

definition decide_disposition :: "seq_state \<Rightarrow> seq_state" where
  "decide_disposition st =
     (case scan_states st of (our_highest_insert, our_highest_delete, owner) \<Rightarrow>
        if our_highest_delete > our_highest_insert then st\<lparr>inserting := False\<rparr>
        else if our_highest_insert > owner then
          st\<lparr>active_seq := our_highest_insert, inserting := \<not> is_ignored st our_highest_insert\<rparr>
        else st\<lparr>inserting := False\<rparr>)"

text \<open>The object after the loop of the constructor, and the constructor.\<close>

definition cleared_state :: "seq_no \<Rightarrow> seq_state" where
  "cleared_state l =
     decide_disposition \<lparr>states = replicate (Suc l) initial_condition, last_seq = l,
                         active_seq = 0, inserting = False\<rparr>"

text \<open>A loop that counts an \<open>unsigned short\<close> up to \<open>l\<close> ends.\<close>

definition counter_ends :: "seq_no \<Rightarrow> bool" where
  "counter_ends l \<longleftrightarrow> l < 65535"

lemma counter_ends_code [code]: "counter_ends l \<longleftrightarrow> int l < 65535"
  by (simp add: counter_ends_def)

definition new_seq_state :: "seq_no \<Rightarrow> seq_state res" where
  "new_seq_state l = (if counter_ends l then Inr (cleared_state l) else Inl Diverged)"

definition copy_seq_state :: "seq_state \<Rightarrow> seq_state" where
  "copy_seq_state s = decide_disposition (s\<lparr>inserting := False\<rparr>)"

definition update_state :: "seq_no \<Rightarrow> (one_state \<Rightarrow> one_state) \<Rightarrow> seq_state \<Rightarrow> seq_state" where
  "update_state n f st = st\<lparr>states := (states st)[n := f (states st ! n)]\<rparr>"

definition set_included :: "seq_no \<Rightarrow> bool \<Rightarrow> seq_state \<Rightarrow> seq_state" where
  "set_included n nonrec =
     update_state n (\<lambda>s. s\<lparr>included := True, ignored := False, excluded := False, non_recursive := nonrec\<rparr>)"

definition set_ignored :: "seq_no \<Rightarrow> seq_state \<Rightarrow> seq_state" where
  "set_ignored n =
     update_state n (\<lambda>s. s\<lparr>ignored := True, included := False, excluded := False, non_recursive := True\<rparr>)"

definition set_excluded :: "seq_no \<Rightarrow> seq_state \<Rightarrow> seq_state" where
  "set_excluded n =
     update_state n (\<lambda>s. s\<lparr>excluded := True, included := False, ignored := False\<rparr>)"

definition set_explicitly_included :: "seq_no \<Rightarrow> seq_state \<Rightarrow> seq_state" where
  "set_explicitly_included n st =
     (if \<not> is_included st n
      then update_state n (\<lambda>s. s\<lparr>is_explicit := True, non_recursive := True\<rparr>) (set_included n False st)
      else st)"

definition set_explicitly_excluded :: "seq_no \<Rightarrow> seq_state \<Rightarrow> seq_state" where
  "set_explicitly_excluded n st =
     update_state n (\<lambda>s. s\<lparr>is_explicit := True, non_recursive := True\<rparr>) (set_excluded n st)"

definition is_explicitly_tagged :: "seq_state \<Rightarrow> seq_no \<Rightarrow> bool" where
  "is_explicitly_tagged st n = is_explicit (states st ! n)"

definition is_nonrecursive :: "seq_state \<Rightarrow> seq_no \<Rightarrow> bool" where
  "is_nonrecursive st n = non_recursive (states st ! n)"

definition is_recursive :: "seq_state \<Rightarrow> seq_no \<Rightarrow> bool" where
  "is_recursive st n = (\<not> non_recursive (states st ! n))"

text \<open>\<open>start\<close> and \<open>end\<close> return a message when the control line is not possible here.\<close>

definition seq_start :: "seq_no \<Rightarrow> char \<Rightarrow> seq_state \<Rightarrow> string + seq_state" where
  "seq_start s c st =
     (if c \<noteq> CHR ''I'' \<and> c \<noteq> CHR ''D'' then Inl ''invalid command letter''
      else if s > last_seq st then Inl ''invalid sequence number''
      else if active (states st ! s) then
        (if command (states st ! s) = CHR ''I''
         then Inl ''^AI for sequence number which is already active''
         else Inl ''^AD for sequence number which is already active'')
      else Inr (decide_disposition (update_state s (\<lambda>x. x\<lparr>active := True, command := c\<rparr>) st)))"

definition seq_end :: "seq_no \<Rightarrow> seq_state \<Rightarrow> string + seq_state" where
  "seq_end s st =
     (if s > last_seq st then Inl ''invalid sequence number''
      else if active (states st ! s) then
        Inr (decide_disposition (update_state s (\<lambda>x. x\<lparr>active := False, command := CHR 0x00\<rparr>) st))
      else Inl ''unmatched ^AE'')"

definition include_line :: "seq_state \<Rightarrow> bool" where
  "include_line st = inserting st"

text \<open>
  The counter of the source's loops is an \<open>unsigned short\<close>: with \<open>last_\<close> at its largest value
  the test that ends the loop never fails, with a smaller one it fails after \<open>last_ + 1\<close> steps.
\<close>

lemma seq_loop_never_ends: "u16_of k \<le> 65535"
  unfolding u16_of_def using mod_less_divisor [of 65536 k] by linarith

lemma seq_loop_ends: "counter_ends l \<Longrightarrow> \<not> u16_of (Suc l) \<le> l"
  by (simp add: counter_ends_def)

section \<open>The highest number with a property\<close>

fun highest :: "(nat \<Rightarrow> bool) \<Rightarrow> nat \<Rightarrow> nat" where
  "highest P 0 = 0"
| "highest P (Suc n) = (if P n then n else highest P n)"

lemma highest_ge: "s < n \<Longrightarrow> P s \<Longrightarrow> s \<le> highest P n"
  by (induction n) (auto simp: less_Suc_eq)

lemma highest_in: "highest P n = 0 \<or> highest P n < n \<and> P (highest P n)"
  by (induction n) auto

lemma highest_less: "highest P n < n \<or> n = 0"
  by (induction n) auto

definition open_insert :: "seq_state \<Rightarrow> nat \<Rightarrow> bool" where
  "open_insert st s \<longleftrightarrow> active (states st ! s) \<and> command (states st ! s) = CHR ''I''"

definition open_other :: "seq_state \<Rightarrow> nat \<Rightarrow> bool" where
  "open_other st s \<longleftrightarrow> active (states st ! s) \<and> command (states st ! s) \<noteq> CHR ''I''"

lemma scan_states_highest:
  "foldl (scan_one st) (0, 0, 0) [0..<n] =
     (highest (\<lambda>s. open_insert st s \<and> is_included st s) n,
      highest (\<lambda>s. open_other st s \<and> is_included st s) n,
      highest (\<lambda>s. open_insert st s \<and> \<not> is_included st s) n)"
proof (induction n)
  case (Suc n)
  have "highest P n < n \<or> n = 0 \<and> highest P n = 0" for P
    using highest_less [of P n] by (cases n) auto
  then show ?case
    using Suc by (auto simp: scan_one_def Let_def open_insert_def open_other_def)
qed simp

section \<open>The declarative meaning of the disposition\<close>

text \<open>
  The open blocks as a map from sequence numbers to command letters, and the rule by which a
  line is visible in a version \<open>inc\<close>: the open insertion with the highest number is part of the
  version, and no deletion that is part of the version has a higher number.
\<close>

definition visible :: "(nat \<Rightarrow> bool) \<Rightarrow> (nat \<rightharpoonup> char) \<Rightarrow> bool" where
  "visible inc op \<longleftrightarrow>
     (\<exists>i. 0 < i \<and> op i = Some (CHR ''I'') \<and> inc i
          \<and> (\<forall>j. op j = Some (CHR ''I'') \<longrightarrow> j \<le> i)
          \<and> (\<forall>j. op j = Some (CHR ''D'') \<and> inc j \<longrightarrow> j < i))"

definition open_blocks :: "seq_state \<Rightarrow> (nat \<rightharpoonup> char)" where
  "open_blocks st =
     (\<lambda>s. if s \<le> last_seq st \<and> active (states st ! s) then Some (command (states st ! s)) else None)"

definition in_version :: "seq_state \<Rightarrow> nat \<Rightarrow> bool" where
  "in_version st s \<longleftrightarrow> s \<le> last_seq st \<and> is_included st s"

text \<open>
  What holds of every state the program reaches: the vector has its length, no number is both
  included and ignored or excluded, an open block has one of the two letters, and the flag is up to date.
\<close>

definition states_wf :: "seq_state \<Rightarrow> bool" where
  "states_wf st \<longleftrightarrow>
     length (states st) = Suc (last_seq st)
     \<and> (\<forall>s \<le> last_seq st. \<not> (included (states st ! s) \<and> (ignored (states st ! s) \<or> excluded (states st ! s)))
            \<and> (active (states st ! s) \<longrightarrow> command (states st ! s) \<in> {CHR ''I'', CHR ''D''}))"

definition seq_wf :: "seq_state \<Rightarrow> bool" where
  "seq_wf st \<longleftrightarrow> states_wf st \<and> inserting st = visible (in_version st) (open_blocks st)"

lemma decide_disposition_simps [simp]:
  "states (decide_disposition st) = states st"
  "last_seq (decide_disposition st) = last_seq st"
  by (auto simp: decide_disposition_def split: prod.splits)

lemma states_wf_decide [simp]: "states_wf (decide_disposition st) = states_wf st"
  by (simp add: states_wf_def)

lemma in_version_decide [simp]: "in_version (decide_disposition st) = in_version st"
  by (rule ext) (simp add: in_version_def is_included_def)

lemma open_blocks_decide [simp]: "open_blocks (decide_disposition st) = open_blocks st"
  by (rule ext) (simp add: open_blocks_def)

lemma open_blocks_I: "open_blocks st s = Some (CHR ''I'') \<longleftrightarrow> s < Suc (last_seq st) \<and> open_insert st s"
  by (auto simp: open_blocks_def open_insert_def)

lemma open_blocks_D:
  "states_wf st \<Longrightarrow> open_blocks st s = Some (CHR ''D'') \<longleftrightarrow> s < Suc (last_seq st) \<and> open_other st s"
  by (auto simp: open_blocks_def open_other_def states_wf_def)

lemma decide_disposition_visible:
  assumes wf: "states_wf st"
  shows "inserting (decide_disposition st) \<longleftrightarrow> visible (in_version st) (open_blocks st)"
proof -
  let ?n = "Suc (last_seq st)"
  define a where "a = highest (\<lambda>s. open_insert st s \<and> is_included st s) ?n"
  define d where "d = highest (\<lambda>s. open_other st s \<and> is_included st s) ?n"
  define w where "w = highest (\<lambda>s. open_insert st s \<and> \<not> is_included st s) ?n"
  have scan: "scan_states st = (a, d, w)"
    by (simp add: scan_states_def scan_states_highest a_def d_def w_def del: upt_Suc)
  have a: "a = 0 \<or> a < ?n \<and> open_insert st a \<and> is_included st a"
    and d: "d = 0 \<or> d < ?n \<and> open_other st d \<and> is_included st d"
    and w: "w = 0 \<or> w < ?n \<and> open_insert st w \<and> \<not> is_included st w"
    unfolding a_def d_def w_def using highest_in by blast+
  have a_max: "s \<le> a" if "s < ?n" "open_insert st s" "is_included st s" for s
    unfolding a_def using that by (intro highest_ge) auto
  have d_max: "s \<le> d" if "s < ?n" "open_other st s" "is_included st s" for s
    unfolding d_def using that by (intro highest_ge) auto
  have w_max: "s \<le> w" if "s < ?n" "open_insert st s" "\<not> is_included st s" for s
    unfolding w_def using that by (intro highest_ge) auto
  have ign: "\<not> is_ignored st a" if "0 < a"
    using a wf that by (auto simp: states_wf_def is_included_def is_ignored_def)
  have dis: "inserting (decide_disposition st) \<longleftrightarrow> d \<le> a \<and> w < a"
    using scan ign by (auto simp: decide_disposition_def)
  have diff: "\<not> (open_insert st s \<and> open_other st s)" for s
    by (simp add: open_insert_def open_other_def)
  have vis: "visible (in_version st) (open_blocks st) \<longleftrightarrow>
     (\<exists>i. 0 < i \<and> i < ?n \<and> open_insert st i \<and> is_included st i
        \<and> (\<forall>j < ?n. open_insert st j \<longrightarrow> j \<le> i)
        \<and> (\<forall>j < ?n. open_other st j \<and> is_included st j \<longrightarrow> j < i))"
    unfolding visible_def open_blocks_I open_blocks_D [OF wf] in_version_def less_Suc_eq_le
    by (intro arg_cong [where f = Ex] ext) blast
  show ?thesis
  proof
    assume "inserting (decide_disposition st)"
    then have da: "d \<le> a" "w < a" using dis by auto
    then have "open_insert st a" "is_included st a" "a < ?n" using a by auto
    moreover have "j \<le> a" if "j < ?n" "open_insert st j" for j
      using a_max [of j] w_max [of j] da that by (cases "is_included st j") auto
    moreover have "j < a" if "j < ?n" "open_other st j" "is_included st j" for j
      using d_max [of j] da that diff [of j] \<open>open_insert st a\<close> by (cases "j = a") auto
    ultimately show "visible (in_version st) (open_blocks st)"
      unfolding vis using da by (intro exI [of _ a]) auto
  next
    assume "visible (in_version st) (open_blocks st)"
    then obtain i where i: "0 < i" "i < ?n" "open_insert st i" "is_included st i"
      "\<forall>j < ?n. open_insert st j \<longrightarrow> j \<le> i" "\<forall>j < ?n. open_other st j \<and> is_included st j \<longrightarrow> j < i"
      unfolding vis by blast
    then have "i = a" using a_max [of i] a by force
    moreover have "d \<le> i" using d i by auto
    moreover have "w < i" using w i by (metis le_neq_implies_less)
    ultimately show "inserting (decide_disposition st)" using dis by simp
  qed
qed

section \<open>The operations keep the invariant\<close>

lemma seq_wf_decide: "states_wf st \<Longrightarrow> seq_wf (decide_disposition st)"
  by (simp add: seq_wf_def decide_disposition_visible)

lemma update_state_simps [simp]:
  "last_seq (update_state n f st) = last_seq st"
  "inserting (update_state n f st) = inserting st"
  "length (states (update_state n f st)) = length (states st)"
  "n < length (states st) \<Longrightarrow>
     states (update_state n f st) ! m = (if m = n then f (states st ! n) else states st ! m)"
  by (auto simp: update_state_def nth_list_update)

lemma update_state_wf:
  assumes "states_wf st" and "n \<le> last_seq st"
    and "\<not> (included (f (states st ! n)) \<and> (ignored (f (states st ! n)) \<or> excluded (f (states st ! n))))"
    and "active (f (states st ! n)) \<longrightarrow> command (f (states st ! n)) \<in> {CHR ''I'', CHR ''D''}"
  shows "states_wf (update_state n f st)"
  using assms by (auto simp: states_wf_def)

lemma cleared_state_wf: "seq_wf (cleared_state l)"
  unfolding cleared_state_def
  by (rule seq_wf_decide)
     (auto simp: states_wf_def initial_condition_def nth_Cons split: nat.splits)

lemma set_states_wf:
  assumes "states_wf st" and "n \<le> last_seq st"
  shows "states_wf (set_included n b st)" and "states_wf (set_excluded n st)"
    and "states_wf (set_ignored n st)" and "states_wf (set_explicitly_included n st)"
    and "states_wf (set_explicitly_excluded n st)"
proof -
  have n: "n < length (states st)" and s: "active (states st ! n) \<longrightarrow> command (states st ! n) \<in> {CHR ''I'', CHR ''D''}"
    using assms by (auto simp: states_wf_def)
  show inc: "states_wf (set_included n b st)" for b
    unfolding set_included_def using assms s by (intro update_state_wf) auto
  show exc: "states_wf (set_excluded n st)"
    unfolding set_excluded_def using assms s by (intro update_state_wf) auto
  show "states_wf (set_ignored n st)"
    unfolding set_ignored_def using assms s by (intro update_state_wf) auto
  show "states_wf (set_explicitly_included n st)"
    using assms s n inc [of False] unfolding set_explicitly_included_def
    by (auto intro!: update_state_wf simp: set_included_def)
  show "states_wf (set_explicitly_excluded n st)"
    using assms s n exc unfolding set_explicitly_excluded_def
    by (auto intro!: update_state_wf simp: set_excluded_def)
qed

lemma set_states_last [simp]:
  "last_seq (set_included n b st) = last_seq st" "last_seq (set_excluded n st) = last_seq st"
  "last_seq (set_ignored n st) = last_seq st" "last_seq (set_explicitly_included n st) = last_seq st"
  "last_seq (set_explicitly_excluded n st) = last_seq st"
  by (simp_all add: set_included_def set_excluded_def set_ignored_def set_explicitly_included_def
      set_explicitly_excluded_def)

lemma set_states_inserting [simp]:
  "inserting (set_included n b st) = inserting st" "inserting (set_excluded n st) = inserting st"
  "inserting (set_ignored n st) = inserting st" "inserting (set_explicitly_included n st) = inserting st"
  "inserting (set_explicitly_excluded n st) = inserting st"
  by (simp_all add: set_included_def set_excluded_def set_ignored_def set_explicitly_included_def
      set_explicitly_excluded_def)

lemma seq_wf_no_blocks:
  "states_wf st \<Longrightarrow> open_blocks st = Map.empty \<Longrightarrow> \<not> inserting st \<Longrightarrow> seq_wf st"
  by (simp add: seq_wf_def visible_def)

lemma seq_start_correct:
  assumes "states_wf st"
  shows "seq_start s c st = Inr st' \<Longrightarrow>
           seq_wf st' \<and> open_blocks st' = (open_blocks st)(s \<mapsto> c) \<and> in_version st' = in_version st
           \<and> last_seq st' = last_seq st \<and> open_blocks st s = None \<and> s \<le> last_seq st \<and> c \<in> {CHR ''I'', CHR ''D''}"
    and "(\<exists>st'. seq_start s c st = Inr st') \<longleftrightarrow>
           c \<in> {CHR ''I'', CHR ''D''} \<and> s \<le> last_seq st \<and> open_blocks st s = None"
proof -
  let ?u = "update_state s (\<lambda>x. x\<lparr>active := True, command := c\<rparr>) st"
  have len: "length (states st) = Suc (last_seq st)" using assms by (simp add: states_wf_def)
  assume st': "seq_start s c st = Inr st'"
  then have c: "c \<in> {CHR ''I'', CHR ''D''}" and s: "s \<le> last_seq st" and na: "\<not> active (states st ! s)"
    and eq: "st' = decide_disposition ?u"
    by (auto simp: seq_start_def split: if_splits)
  have wf: "states_wf ?u" using assms s c by (intro update_state_wf) (auto simp: states_wf_def)
  have "open_blocks ?u = (open_blocks st)(s \<mapsto> c)"
    using s len by (auto simp: open_blocks_def fun_eq_iff)
  moreover have "in_version ?u = in_version st"
    using s len by (auto simp: in_version_def is_included_def fun_eq_iff)
  moreover have "open_blocks st s = None" using na by (simp add: open_blocks_def)
  ultimately show "seq_wf st' \<and> open_blocks st' = (open_blocks st)(s \<mapsto> c) \<and> in_version st' = in_version st
           \<and> last_seq st' = last_seq st \<and> open_blocks st s = None \<and> s \<le> last_seq st \<and> c \<in> {CHR ''I'', CHR ''D''}"
    using wf eq s c by (simp add: seq_wf_decide)
next
  show "(\<exists>st'. seq_start s c st = Inr st') \<longleftrightarrow>
           c \<in> {CHR ''I'', CHR ''D''} \<and> s \<le> last_seq st \<and> open_blocks st s = None"
    by (auto simp: seq_start_def open_blocks_def)
qed

lemma seq_end_correct:
  assumes "states_wf st"
  shows "seq_end s st = Inr st' \<Longrightarrow>
           seq_wf st' \<and> open_blocks st' = (open_blocks st)(s := None) \<and> in_version st' = in_version st
           \<and> last_seq st' = last_seq st \<and> open_blocks st s \<noteq> None \<and> s \<le> last_seq st"
    and "(\<exists>st'. seq_end s st = Inr st') \<longleftrightarrow> open_blocks st s \<noteq> None"
proof -
  let ?u = "update_state s (\<lambda>x. x\<lparr>active := False, command := CHR 0x00\<rparr>) st"
  have len: "length (states st) = Suc (last_seq st)" using assms by (simp add: states_wf_def)
  assume st': "seq_end s st = Inr st'"
  then have s: "s \<le> last_seq st" and ac: "active (states st ! s)" and eq: "st' = decide_disposition ?u"
    by (auto simp: seq_end_def split: if_splits)
  have wf: "states_wf ?u" using assms s by (intro update_state_wf) (auto simp: states_wf_def)
  have "open_blocks ?u = (open_blocks st)(s := None)"
    using s len by (auto simp: open_blocks_def fun_eq_iff)
  moreover have "in_version ?u = in_version st"
    using s len by (auto simp: in_version_def is_included_def fun_eq_iff)
  moreover have "open_blocks st s \<noteq> None" using s ac by (simp add: open_blocks_def)
  ultimately show "seq_wf st' \<and> open_blocks st' = (open_blocks st)(s := None) \<and> in_version st' = in_version st
           \<and> last_seq st' = last_seq st \<and> open_blocks st s \<noteq> None \<and> s \<le> last_seq st"
    using wf eq s by (simp add: seq_wf_decide)
next
  show "(\<exists>st'. seq_end s st = Inr st') \<longleftrightarrow> open_blocks st s \<noteq> None"
    by (auto simp: seq_end_def open_blocks_def)
qed

section \<open>Every state the program reaches\<close>

text \<open>
  The life of a \<open>seq_state\<close>: it is constructed for the highest sequence number, the setters
  choose the version, then control lines of the body are applied.
\<close>

inductive prepared :: "seq_no \<Rightarrow> seq_state \<Rightarrow> bool" for l where
  new: "new_seq_state l = Inr st \<Longrightarrow> prepared l st"
| incl: "prepared l st \<Longrightarrow> n \<le> l \<Longrightarrow> prepared l (set_included n b st)"
| excl: "prepared l st \<Longrightarrow> n \<le> l \<Longrightarrow> prepared l (set_excluded n st)"
| ign: "prepared l st \<Longrightarrow> n \<le> l \<Longrightarrow> prepared l (set_ignored n st)"
| expl_incl: "prepared l st \<Longrightarrow> n \<le> l \<Longrightarrow> prepared l (set_explicitly_included n st)"
| expl_excl: "prepared l st \<Longrightarrow> n \<le> l \<Longrightarrow> prepared l (set_explicitly_excluded n st)"

inductive scanning :: "seq_no \<Rightarrow> seq_state \<Rightarrow> bool" for l where
  begin_body: "prepared l st \<Longrightarrow> scanning l st"
| open_block: "scanning l st \<Longrightarrow> seq_start s c st = Inr st' \<Longrightarrow> scanning l st'"
| close_block: "scanning l st \<Longrightarrow> seq_end s st = Inr st' \<Longrightarrow> scanning l st'"

lemma open_blocks_update:
  assumes "states_wf st" and "n \<le> last_seq st" and "\<And>x. active (f x) = active x" and "\<And>x. command (f x) = command x"
  shows "open_blocks (update_state n f st) = open_blocks st"
  using assms by (auto simp: open_blocks_def fun_eq_iff states_wf_def)

lemma open_blocks_set:
  assumes "states_wf st" and "n \<le> last_seq st"
  shows "open_blocks (set_included n b st) = open_blocks st" "open_blocks (set_excluded n st) = open_blocks st"
    "open_blocks (set_ignored n st) = open_blocks st" "open_blocks (set_explicitly_included n st) = open_blocks st"
    "open_blocks (set_explicitly_excluded n st) = open_blocks st"
proof -
  note wf = set_states_wf [OF assms]
  have inc: "open_blocks (set_included n b st) = open_blocks st" for b
    unfolding set_included_def by (rule open_blocks_update [OF assms]) simp_all
  have exc: "open_blocks (set_excluded n st) = open_blocks st"
    unfolding set_excluded_def by (rule open_blocks_update [OF assms]) simp_all
  show "open_blocks (set_included n b st) = open_blocks st" by (rule inc)
  show "open_blocks (set_excluded n st) = open_blocks st" by (rule exc)
  show "open_blocks (set_ignored n st) = open_blocks st"
    unfolding set_ignored_def by (rule open_blocks_update [OF assms]) simp_all
  show "open_blocks (set_explicitly_included n st) = open_blocks st"
    using inc [of False] assms(2) set_states_wf(1) [OF assms, of False]
    by (simp add: set_explicitly_included_def open_blocks_update)
  show "open_blocks (set_explicitly_excluded n st) = open_blocks st"
    using exc assms(2) wf(2) by (simp add: set_explicitly_excluded_def open_blocks_update)
qed

lemma cleared_state_blocks: "open_blocks (cleared_state l) = Map.empty" "last_seq (cleared_state l) = l"
  by (auto simp: cleared_state_def open_blocks_def initial_condition_def nth_Cons split: nat.splits)

lemma prepared_wf:
  "prepared l st \<Longrightarrow> states_wf st \<and> last_seq st = l \<and> open_blocks st = Map.empty \<and> \<not> inserting st"
proof (induction rule: prepared.induct)
  case (new st)
  have st: "st = cleared_state l" using new by (simp add: new_seq_state_def split: if_splits)
  have wf: "seq_wf (cleared_state l)" by (rule cleared_state_wf)
  then show ?case using cleared_state_blocks [of l] unfolding st by (simp add: seq_wf_def visible_def)
qed (auto simp: set_states_wf open_blocks_set)

lemma scanning_wf: "scanning l st \<Longrightarrow> seq_wf st \<and> last_seq st = l"
proof (induction rule: scanning.induct)
  case (begin_body st)
  then show ?case using prepared_wf seq_wf_no_blocks by blast
next
  case (open_block st s c st')
  then show ?case using seq_start_correct(1) by (auto simp: seq_wf_def)
next
  case (close_block st s st')
  then show ?case using seq_end_correct(1) by (auto simp: seq_wf_def)
qed

text \<open>
  C7. In every state that the constructor, the setters and then any control lines lead to, the
  flag that \<open>include_line\<close> returns is the declarative rule for visible lines; \<open>start\<close> succeeds
  exactly on the letters I and D with a known number that is not open, and \<open>end\<close> exactly on an
  open number; on the abstraction (the version, the map of open blocks) they are a map update
  and a deletion and leave the version alone.
\<close>

theorem seq_state_refines_rule:
  assumes "scanning l st"
  shows "(include_line st \<longleftrightarrow> visible (in_version st) (open_blocks st))
    \<and> (\<forall>s c. case seq_start s c st of
          Inl msg \<Rightarrow> \<not> (c \<in> {CHR ''I'', CHR ''D''} \<and> s \<le> l \<and> open_blocks st s = None)
        | Inr st' \<Rightarrow> c \<in> {CHR ''I'', CHR ''D''} \<and> s \<le> l \<and> open_blocks st s = None
                    \<and> open_blocks st' = (open_blocks st)(s \<mapsto> c) \<and> in_version st' = in_version st)
    \<and> (\<forall>s. case seq_end s st of
          Inl msg \<Rightarrow> open_blocks st s = None
        | Inr st' \<Rightarrow> open_blocks st s \<noteq> None
                    \<and> open_blocks st' = (open_blocks st)(s := None) \<and> in_version st' = in_version st)"
proof (intro conjI allI)
  have wf: "seq_wf st" "states_wf st" "last_seq st = l" using scanning_wf [OF assms] by (auto simp: seq_wf_def)
  show "include_line st \<longleftrightarrow> visible (in_version st) (open_blocks st)"
    using wf(1) by (simp add: include_line_def seq_wf_def)
  show "case seq_start s c st of
          Inl msg \<Rightarrow> \<not> (c \<in> {CHR ''I'', CHR ''D''} \<and> s \<le> l \<and> open_blocks st s = None)
        | Inr st' \<Rightarrow> c \<in> {CHR ''I'', CHR ''D''} \<and> s \<le> l \<and> open_blocks st s = None
                    \<and> open_blocks st' = (open_blocks st)(s \<mapsto> c) \<and> in_version st' = in_version st" for s c
    using seq_start_correct [OF wf(2), of s c] wf(3) by (cases "seq_start s c st") auto
  show "case seq_end s st of
          Inl msg \<Rightarrow> open_blocks st s = None
        | Inr st' \<Rightarrow> open_blocks st s \<noteq> None
                    \<and> open_blocks st' = (open_blocks st)(s := None) \<and> in_version st' = in_version st" for s
    using seq_end_correct [OF wf(2), of s] by (cases "seq_end s st") auto
qed

theorem seq_state_refines_rule_witness:
  "(case seq_start 1 (CHR ''I'') (set_included 1 False (cleared_state 2)) of
      Inl _ \<Rightarrow> False
    | Inr st \<Rightarrow> scanning 2 st \<and> include_line st \<and> visible (in_version st) (open_blocks st))"
proof -
  have ex: "case seq_start 1 (CHR ''I'') (set_included 1 False (cleared_state 2)) of Inl _ \<Rightarrow> False | Inr st \<Rightarrow> include_line st"
    by code_simp
  then obtain st where st: "seq_start 1 (CHR ''I'') (set_included 1 False (cleared_state 2)) = Inr st" and inc: "include_line st"
    by (auto split: sum.splits)
  have "scanning 2 st"
    by (rule scanning.open_block [OF scanning.begin_body st])
      (rule prepared.incl [OF prepared.new], simp_all add: new_seq_state_def counter_ends_def)
  then show ?thesis using st inc seq_state_refines_rule [of 2 st] by simp
qed

end
