(* ===== verification/Version_Select.thy ===== *)
theory Version_Select
  imports Seq_State
begin

text \<open>
  Which deltas make up a version: \<open>sccs_file::prepare_seqstate_1\<close> (sf-get.cc) and
  \<open>sccs_file::prepare_seqstate_2\<close>, \<open>prepare_seqstate\<close> and \<open>authorised\<close> (sf-get3.cc). The loops
  that only print under \<open>CSSC_SHOW_SEQSTATE\<close> are left out. The main results: on success the
  included sequence numbers are the ancestors of the wanted delta, changed by the include,
  exclude and ignore lists of the deltas in the order of the loops; and on a consistent table
  the function always succeeds.
\<close>

text \<open>The first loop follows the predecessors down to zero.\<close>

function mark_ancestors :: "delta_table \<Rightarrow> seq_no \<Rightarrow> seq_no \<Rightarrow> seq_state \<Rightarrow> seq_state res" where
  "mark_ancestors t sq y st =
     bindE (ASSERT (y \<le> sq)) (\<lambda>_.
     bindE (delta_at_seq_exists t y) (\<lambda>ex.
       if \<not> ex then Inl (Corrupt (Missing_sequence_number y)) else
       bindE (delta_at_seq t y) (\<lambda>d.
         if prev_seq d = y then Inl (Corrupt (Own_predecessor y))
         else if prev_seq d > y then Inl (Corrupt (Subsequent_predecessor y (prev_seq d)))
         else
           let st' = set_included (prev_seq d) False st
           in if prev_seq d > 0 then mark_ancestors t sq (prev_seq d) st' else Inr st')))"
  by pat_completeness auto
termination
  by (relation "measure (\<lambda>(t, sq, y, st). y)") auto

declare mark_ancestors.simps [simp del]

text \<open>
  The three loops that follow have one shape: for an included delta, go through one of its
  lists, skip its own number, insist that no number is later, and set the state of the others.
\<close>

definition mark_one ::
  "(seq_no \<Rightarrow> seq_state \<Rightarrow> seq_state) \<Rightarrow> (seq_state \<Rightarrow> seq_no \<Rightarrow> bool) \<Rightarrow> seq_no \<Rightarrow>
   seq_state \<Rightarrow> seq_no \<Rightarrow> seq_state res" where
  "mark_one upd ok y st s =
     (if s = y then Inr st
      else bindE (ASSERT (s \<le> y)) (\<lambda>_.
             let st' = upd s st in bindE (ASSERT (ok st' s)) (\<lambda>_. Inr st')))"

definition mark_list ::
  "(delta \<Rightarrow> seq_no list) \<Rightarrow> (seq_no \<Rightarrow> seq_state \<Rightarrow> seq_state) \<Rightarrow> (seq_state \<Rightarrow> seq_no \<Rightarrow> bool) \<Rightarrow>
   delta_table \<Rightarrow> seq_state \<Rightarrow> seq_no \<Rightarrow> seq_state res" where
  "mark_list lst upd ok t st y =
     (if is_included st y
      then bindE (delta_at_seq t y) (\<lambda>d. foldE (mark_one upd ok y) st (lst d))
      else Inr st)"

definition apply_inclusions :: "delta_table \<Rightarrow> seq_no \<Rightarrow> seq_state \<Rightarrow> seq_state res" where
  "apply_inclusions t sq st =
     foldE (mark_list included_seqs (\<lambda>s. set_included s True) is_included t) st (rev [1..<Suc sq])"

text \<open>The counter of the second loop goes up as an \<open>unsigned short\<close>, and the loop for 65535 never ends.\<close>

definition apply_exclusions :: "delta_table \<Rightarrow> seq_no \<Rightarrow> seq_state \<Rightarrow> seq_state res" where
  "apply_exclusions t sq st =
     (if counter_ends sq then foldE (mark_list excluded_seqs set_excluded is_excluded t) st [1..<Suc sq] else Inl Diverged)"

lemma apply_exclusions_fold:
  assumes "apply_exclusions t sq st = Inr st'"
  shows "foldE (mark_list excluded_seqs set_excluded is_excluded t) st [1..<Suc sq] = Inr st'"
proof (cases "counter_ends sq")
  case True
  then show ?thesis using assms unfolding apply_exclusions_def by (simp only: if_True)
next
  case False
  then show ?thesis using assms unfolding apply_exclusions_def by (simp only: if_False) simp
qed

definition apply_ignores :: "delta_table \<Rightarrow> seq_no \<Rightarrow> seq_state \<Rightarrow> seq_state res" where
  "apply_ignores t sq st =
     foldE (mark_list ignored_seqs set_ignored
              (\<lambda>st s. is_ignored st s \<and> \<not> is_included st s \<and> \<not> is_excluded st s) t) st (rev [1..<Suc sq])"

definition prepare_seqstate_1 :: "delta_table \<Rightarrow> seq_state \<Rightarrow> seq_no \<Rightarrow> seq_state res" where
  "prepare_seqstate_1 t st sq =
     bindE (mark_ancestors t sq sq st) (\<lambda>st.
     bindE (apply_inclusions t sq (set_included sq False st)) (\<lambda>st.
     bindE (apply_exclusions t sq st) (\<lambda>st.
       apply_ignores t sq st)))"

definition prepare_one ::
  "sid_list \<Rightarrow> sid_list \<Rightarrow> sccs_date \<Rightarrow> seq_state \<Rightarrow> delta \<Rightarrow> seq_state res" where
  "prepare_one incl excl cutoff st d =
     (if rl_member sid_ops incl (delta_id d) then Inr (set_explicitly_included (seq d) st)
      else if rl_member sid_ops excl (delta_id d) then Inr (set_explicitly_excluded (seq d) st)
      else if date_valid cutoff then
        bindE (date_gt (delta_date d) cutoff) (\<lambda>late. Inr (if late then set_excluded (seq d) st else st))
      else Inr st)"

definition prepare_seqstate_2 ::
  "delta_table \<Rightarrow> seq_state \<Rightarrow> sid_list \<Rightarrow> sid_list \<Rightarrow> sccs_date \<Rightarrow> seq_state res" where
  "prepare_seqstate_2 t st incl excl cutoff =
     foldE (prepare_one incl excl cutoff) st (selected Current t)"

definition prepare_seqstate ::
  "delta_table \<Rightarrow> seq_state \<Rightarrow> seq_no \<Rightarrow> sid_list \<Rightarrow> sid_list \<Rightarrow> sccs_date \<Rightarrow> seq_state res" where
  "prepare_seqstate t st sq incl excl cutoff =
     bindE (prepare_seqstate_1 t st sq) (\<lambda>st. prepare_seqstate_2 t st incl excl cutoff)"

text \<open>
  \<open>authorised\<close>: the user's name and the test for group membership come from the operating
  system. \<open>atoi\<close> is \<open>strtol\<close> converted to \<open>int\<close>.
\<close>

definition atoi :: "string \<Rightarrow> int" where
  "atoi s = int_of32 (fst (strtol s))"

definition authorised :: "string \<Rightarrow> (int \<Rightarrow> bool) \<Rightarrow> string list \<Rightarrow> bool" where
  "authorised myself group_member users =
     (users = [] \<or>
      list_ex (\<lambda>u. if u \<noteq> [] \<and> isdigit (hd u) then group_member (atoi u) else myself = u) users)"

section \<open>Ancestors\<close>

definition prev_of :: "delta_table \<Rightarrow> seq_no \<Rightarrow> seq_no \<Rightarrow> bool" where
  "prev_of t y p \<longleftrightarrow> (\<exists>d. delta_at_seq t y = Inr d \<and> prev_seq d = p)"

inductive descends :: "delta_table \<Rightarrow> seq_no \<Rightarrow> seq_no \<Rightarrow> bool" for t where
  descends_refl: "descends t y y"
| descends_step: "prev_of t y p \<Longrightarrow> descends t p s \<Longrightarrow> descends t y s"

inductive_cases descendsE: "descends t y s"

lemma prev_of_unique: "prev_of t y p \<Longrightarrow> prev_of t y q \<Longrightarrow> p = q"
  by (auto simp: prev_of_def)

lemma delta_at_seq_pos: "delta_at_seq t y = Inr d \<Longrightarrow> 0 < y"
  by (simp add: delta_at_seq_def bindE_eq_Inr)

lemma descends_iff: "descends t y s \<longleftrightarrow> s = y \<or> (\<exists>p. prev_of t y p \<and> descends t p s)"
  by (subst descends.simps) blast

lemma descends_zero [simp]: "descends t 0 s \<longleftrightarrow> s = 0"
  by (subst descends_iff) (auto simp: prev_of_def dest: delta_at_seq_pos)

lemma descends_prev: "prev_of t y p \<Longrightarrow> descends t y s \<longleftrightarrow> s = y \<or> descends t p s"
  using descends_iff [of t y s] prev_of_unique [of t y p] by blast

section \<open>What each loop does to the version\<close>

text \<open>The part of a state that the loops leave alone.\<close>

definition same_frame :: "seq_state \<Rightarrow> seq_state \<Rightarrow> bool" where
  "same_frame st st' \<longleftrightarrow>
     states_wf st' \<and> last_seq st' = last_seq st \<and> open_blocks st' = open_blocks st
     \<and> inserting st' = inserting st"

lemma same_frame_refl: "states_wf st \<Longrightarrow> same_frame st st"
  by (simp add: same_frame_def)

lemma same_frame_trans: "same_frame st st' \<Longrightarrow> same_frame st' st'' \<Longrightarrow> same_frame st st''"
  by (simp add: same_frame_def)

text \<open>A setter of one state, by the value it gives to the version at its number.\<close>

definition sets_to :: "bool \<Rightarrow> (seq_no \<Rightarrow> seq_state \<Rightarrow> seq_state) \<Rightarrow> bool" where
  "sets_to v upd \<longleftrightarrow>
     (\<forall>st n. states_wf st \<and> n \<le> last_seq st \<longrightarrow>
        same_frame st (upd n st) \<and> (\<forall>s. in_version (upd n st) s = (if s = n then v else in_version st s)))"

lemma sets_to_setters:
  "sets_to True (\<lambda>s. set_included s b)" "sets_to False set_excluded" "sets_to False set_ignored"
  "sets_to True set_explicitly_included" "sets_to False set_explicitly_excluded"
proof -
  have len: "n < length (states st)" if "states_wf st" "n \<le> last_seq st" for st n
    using that by (simp add: states_wf_def)
  show "sets_to True (\<lambda>s. set_included s b)"
    using len by (auto simp: sets_to_def same_frame_def set_states_wf)
       (auto simp: set_included_def open_blocks_def in_version_def is_included_def fun_eq_iff)
  show "sets_to False set_excluded"
    using len by (auto simp: sets_to_def same_frame_def set_states_wf)
       (auto simp: set_excluded_def open_blocks_def in_version_def is_included_def fun_eq_iff)
  show "sets_to False set_ignored"
    using len by (auto simp: sets_to_def same_frame_def set_states_wf)
       (auto simp: set_ignored_def open_blocks_def in_version_def is_included_def fun_eq_iff)
  show "sets_to True set_explicitly_included"
    using len by (auto simp: sets_to_def same_frame_def set_states_wf)
       (auto simp: set_explicitly_included_def set_included_def open_blocks_def in_version_def
          is_included_def fun_eq_iff split: if_splits)
  show "sets_to False set_explicitly_excluded"
    using len by (auto simp: sets_to_def same_frame_def set_states_wf)
       (auto simp: set_explicitly_excluded_def set_excluded_def open_blocks_def in_version_def
          is_included_def fun_eq_iff split: if_splits)
qed

lemma sets_toD:
  assumes "sets_to v upd" and "states_wf st" and "n \<le> last_seq st"
  shows "same_frame st (upd n st)" and "in_version (upd n st) s = (if s = n then v else in_version st s)"
  using assms by (auto simp: sets_to_def)

lemma mark_one_fold:
  assumes "sets_to v upd" and "y \<le> last_seq st" and "states_wf st"
    and "foldE (mark_one upd ok y) st ss = Inr st'"
  shows "same_frame st st' \<and> (\<forall>s \<in> set ss. s \<le> y)
         \<and> (\<forall>s. in_version st' s = (if s \<in> set ss \<and> s \<noteq> y then v else in_version st s))"
  using assms(2-4)
proof (induction ss arbitrary: st)
  case (Cons x xs)
  show ?case
  proof (cases "x = y")
    case True
    with Cons show ?thesis by (auto simp: mark_one_def)
  next
    case False
    with Cons.prems have x: "x \<le> y" and rest: "foldE (mark_one upd ok y) (upd x st) xs = Inr st'"
      by (auto simp: mark_one_def [of upd ok y st x] bindE_eq_Inr Let_def)
    note s = sets_toD [OF assms(1) Cons.prems(2), of x]
    have fr: "same_frame st (upd x st)" using s x Cons.prems by simp
    then have "y \<le> last_seq (upd x st)" "states_wf (upd x st)"
      using Cons.prems by (simp_all add: same_frame_def)
    from Cons.IH [OF this rest] fr s x False Cons.prems show ?thesis
      by (auto intro: same_frame_trans)
  qed
qed (simp add: same_frame_refl)

text \<open>Delta \<open>y\<close> names \<open>s\<close>, another delta, in one of its lists.\<close>

definition names :: "(delta \<Rightarrow> seq_no list) \<Rightarrow> delta_table \<Rightarrow> seq_no \<Rightarrow> seq_no \<Rightarrow> bool" where
  "names lst t y s \<longleftrightarrow> (\<exists>d. delta_at_seq t y = Inr d \<and> s \<in> set (lst d) \<and> s \<noteq> y)"

lemma mark_list_step:
  assumes "sets_to v upd" and "y \<le> last_seq st" and "states_wf st"
    and "mark_list lst upd ok t st y = Inr st'"
  shows "same_frame st st'"
    and "in_version st' s = (if in_version st y \<and> names lst t y s then v else in_version st s)"
    and "in_version st y \<Longrightarrow> names lst t y s \<Longrightarrow> s < y"
proof -
  have y: "is_included st y = in_version st y" using assms(2) by (simp add: in_version_def)
  have "same_frame st st' \<and> (\<forall>s. in_version st' s = (if in_version st y \<and> names lst t y s then v else in_version st s))
        \<and> (\<forall>s. in_version st y \<and> names lst t y s \<longrightarrow> s < y)"
  proof (cases "in_version st y")
    case True
    then obtain d where d: "delta_at_seq t y = Inr d" and f: "foldE (mark_one upd ok y) st (lst d) = Inr st'"
      using assms(4) y by (auto simp: mark_list_def bindE_eq_Inr)
    show ?thesis using mark_one_fold [OF assms(1-3) f] True d by (auto simp: names_def)
  next
    case False
    then show ?thesis using assms y by (simp add: mark_list_def same_frame_refl)
  qed
  then show "same_frame st st'"
    and "in_version st' s = (if in_version st y \<and> names lst t y s then v else in_version st s)"
    and "in_version st y \<Longrightarrow> names lst t y s \<Longrightarrow> s < y" by blast+
qed

lemma mark_down:
  assumes up: "sets_to v upd" and "n \<le> last_seq st" and "states_wf st"
    and "foldE (mark_list lst upd ok t) st (rev [1..<Suc n]) = Inr st'"
  shows "same_frame st st'
         \<and> (\<forall>y. n < y \<longrightarrow> in_version st' y = in_version st y)
         \<and> (\<forall>y s. 0 < y \<and> y \<le> n \<and> in_version st' y \<and> names lst t y s \<longrightarrow> s < y)
         \<and> (\<forall>s. in_version st' s \<longleftrightarrow>
               (if \<exists>y. 0 < y \<and> y \<le> n \<and> in_version st' y \<and> names lst t y s then v else in_version st s))"
  using assms(2-4)
proof (induction n arbitrary: st)
  case 0
  then show ?case by (auto simp: same_frame_refl)
next
  case (Suc n)
  let ?R = "names lst t"
  obtain st1 where st1: "mark_list lst upd ok t st (Suc n) = Inr st1"
      and rest: "foldE (mark_list lst upd ok t) st1 (rev [1..<Suc n]) = Inr st'"
    using Suc.prems(3) by (auto simp: bindE_eq_Inr)
  note step = mark_list_step [OF up Suc.prems(1,2) st1]
  have fr: "same_frame st st1" by (rule step(1))
  then have "n \<le> last_seq st1" "states_wf st1" using Suc.prems by (simp_all add: same_frame_def)
  note ih = Suc.IH [OF this rest]
  have top: "in_version st' y = in_version st y" if "n < y" for y
  proof -
    have "in_version st' y = in_version st1 y" using ih that by blast
    moreover have "\<not> (in_version st (Suc n) \<and> ?R (Suc n) y)" using step(3) [of y] that by auto
    ultimately show ?thesis using step(2) [of y] by simp
  qed
  have new: "in_version st1 s = (if in_version st' (Suc n) \<and> ?R (Suc n) s then v else in_version st s)" for s
    using step(2) [of s] top [of "Suc n"] by simp
  have low: "s < Suc n" if "in_version st' (Suc n)" "?R (Suc n) s" for s
    using step(3) [of s] top [of "Suc n"] that by simp
  have split: "(\<exists>y. 0 < y \<and> y \<le> Suc n \<and> in_version st' y \<and> ?R y s) \<longleftrightarrow>
      (\<exists>y. 0 < y \<and> y \<le> n \<and> in_version st' y \<and> ?R y s) \<or> in_version st' (Suc n) \<and> ?R (Suc n) s" for s
    by (auto simp: le_Suc_eq)
  have eq: "in_version st' s \<longleftrightarrow>
      (if \<exists>y. 0 < y \<and> y \<le> n \<and> in_version st' y \<and> ?R y s then v else in_version st1 s)" for s
    using ih by blast
  have "in_version st' s \<longleftrightarrow>
      (if \<exists>y. 0 < y \<and> y \<le> Suc n \<and> in_version st' y \<and> ?R y s then v else in_version st s)" for s
    unfolding split using eq [of s] new [of s] by argo
  moreover have "\<forall>y s. 0 < y \<and> y \<le> Suc n \<and> in_version st' y \<and> ?R y s \<longrightarrow> s < y"
    using ih low le_Suc_eq by blast
  moreover have "same_frame st st'" using same_frame_trans [OF fr] ih by blast
  ultimately show ?case using top Suc_lessD by blast
qed

lemma mark_up:
  assumes up: "sets_to v upd" and "n \<le> last_seq st" and "states_wf st"
    and "foldE (mark_list lst upd ok t) st [1..<Suc n] = Inr st'"
  shows "same_frame st st'
         \<and> (\<forall>y. n \<le> y \<longrightarrow> in_version st' y = in_version st y)
         \<and> (\<forall>s. in_version st' s \<longleftrightarrow>
               (if \<exists>y. 0 < y \<and> y \<le> n \<and> in_version st y \<and> names lst t y s then v else in_version st s))"
  using assms(2-4)
proof (induction n arbitrary: st')
  case 0
  then show ?case by (auto simp: same_frame_refl)
next
  case (Suc n)
  let ?R = "names lst t"
  have "foldE (mark_list lst upd ok t) st ([1..<Suc n] @ [Suc n]) = Inr st'"
    using Suc.prems(3) by simp
  then obtain st1 where st1: "foldE (mark_list lst upd ok t) st [1..<Suc n] = Inr st1"
      and last: "mark_list lst upd ok t st1 (Suc n) = Inr st'"
    by (auto simp: foldE_append bindE_eq_Inr simp del: upt_Suc)
  have ih: "same_frame st st1"
      "\<forall>y. n \<le> y \<longrightarrow> in_version st1 y = in_version st y"
      "\<forall>s. in_version st1 s \<longleftrightarrow>
               (if \<exists>y. 0 < y \<and> y \<le> n \<and> in_version st y \<and> ?R y s then v else in_version st s)"
    using Suc.IH [OF Suc_leD [OF Suc.prems(1)] Suc.prems(2) st1] by blast+
  then have "Suc n \<le> last_seq st1" "states_wf st1" using Suc.prems by (simp_all add: same_frame_def)
  note step = mark_list_step [OF up this last]
  have split: "(\<exists>y. 0 < y \<and> y \<le> Suc n \<and> in_version st y \<and> ?R y s) \<longleftrightarrow>
      (\<exists>y. 0 < y \<and> y \<le> n \<and> in_version st y \<and> ?R y s) \<or> in_version st (Suc n) \<and> ?R (Suc n) s" for s
    by (auto simp: le_Suc_eq)
  have top: "in_version st1 (Suc n) = in_version st (Suc n)" using ih(2) by simp
  have "in_version st' s \<longleftrightarrow>
      (if \<exists>y. 0 < y \<and> y \<le> Suc n \<and> in_version st y \<and> ?R y s then v else in_version st s)" for s
    unfolding split using ih(3) [rule_format, of s] step(2) [of s] top by argo
  moreover have "in_version st' y = in_version st y" if "Suc n \<le> y" for y
  proof -
    have "\<not> (in_version st1 (Suc n) \<and> ?R (Suc n) y)" using step(3) [of y] that by auto
    then show ?thesis using step(2) [of y] ih(2) that by auto
  qed
  ultimately show ?case using same_frame_trans [OF ih(1) step(1)] by blast
qed

lemma mark_ancestors_version:
  assumes "states_wf st" and "y \<le> last_seq st" and "mark_ancestors t sq y st = Inr st'"
  shows "same_frame st st' \<and> (\<forall>s. in_version st' s \<longleftrightarrow> in_version st s \<or> (descends t y s \<and> s \<noteq> y))
         \<and> (\<forall>s. descends t y s \<longrightarrow> s \<le> y)"
  using assms
proof (induction t sq y st rule: mark_ancestors.induct)
  case (1 t sq y st)
  from "1.prems"(3) obtain d where ex: "delta_at_seq_exists t y = Inr True" and d: "delta_at_seq t y = Inr d"
      and less: "prev_seq d < y" and ysq: "y \<le> sq"
      and st': "(if prev_seq d > 0 then mark_ancestors t sq (prev_seq d) (set_included (prev_seq d) False st)
                 else Inr (set_included (prev_seq d) False st)) = Inr st'"
    by (auto simp: mark_ancestors.simps [of t sq y st] bindE_eq_Inr Let_def split: if_splits)
  let ?p = "prev_seq d" and ?st1 = "set_included (prev_seq d) False st"
  have p: "prev_of t y ?p" using d by (auto simp: prev_of_def)
  have s1: "same_frame st ?st1" "\<And>s. in_version ?st1 s = (s = ?p \<or> in_version st s)"
    using sets_toD [OF sets_to_setters(1) "1.prems"(1), of ?p False] less "1.prems"(2) by auto
  have "same_frame ?st1 st' \<and> (\<forall>s. in_version st' s \<longleftrightarrow> in_version ?st1 s \<or> (descends t ?p s \<and> s \<noteq> ?p))
         \<and> (\<forall>s. descends t ?p s \<longrightarrow> s \<le> ?p)"
  proof (cases "?p > 0")
    case True
    have "ASSERT (y \<le> sq) = Inr ()" using ysq by simp
    from "1.IH" [OF this ex _ d _ _ refl True] True st' s1(1) "1.prems"(2) less show ?thesis
      by (simp add: same_frame_def)
  next
    case False
    with st' s1(1) show ?thesis by (auto simp: same_frame_def)
  qed
  then show ?case
    using s1 less same_frame_trans [OF s1(1)] by (auto simp: descends_prev [OF p] descends_refl)
qed

section \<open>On a consistent table the selection succeeds\<close>

definition known :: "delta_table \<Rightarrow> seq_no \<Rightarrow> bool" where
  "known t y \<longleftrightarrow> (\<exists>d. delta_at_seq t y = Inr d)"

text \<open>
  The predecessor of every delta is an earlier delta of the table or zero, and the lists of a
  delta name deltas of the table that are not later.
\<close>

definition table_consistent :: "delta_table \<Rightarrow> bool" where
  "table_consistent t \<longleftrightarrow>
     (\<forall>y d. delta_at_seq t y = Inr d \<longrightarrow>
        prev_seq d < y \<and> (prev_seq d = 0 \<or> known t (prev_seq d))
        \<and> (\<forall>s \<in> set (included_seqs d). s \<le> y \<and> known t s)
        \<and> (\<forall>s \<in> set (excluded_seqs d). s \<le> y) \<and> (\<forall>s \<in> set (ignored_seqs d). s \<le> y))"

lemma known_exists: "known t y \<Longrightarrow> delta_at_seq_exists t y = Inr True"
  by (auto simp: known_def delta_at_seq_exists_def delta_at_seq_def stl_delta_at_seq_def bindE_eq_Inr
      split: option.splits)

lemma mark_ancestors_succeeds:
  assumes "table_consistent t" and "known t y" and "y \<le> sq"
  shows "\<exists>st'. mark_ancestors t sq y st = Inr st'"
  using assms(2,3)
proof (induction y arbitrary: st rule: less_induct)
  case (less y)
  then obtain d where d: "delta_at_seq t y = Inr d" by (auto simp: known_def)
  then have p: "prev_seq d < y" "prev_seq d = 0 \<or> known t (prev_seq d)"
    using assms(1) by (auto simp: table_consistent_def)
  show ?case
    using less.IH [OF p(1)] p less.prems d
    by (auto simp: mark_ancestors.simps [of t sq y st] known_exists Let_def)
qed

lemma mark_fold_succeeds:
  assumes up: "sets_to v upd"
    and ok: "\<And>st n. states_wf st \<Longrightarrow> n \<le> last_seq st \<Longrightarrow> ok (upd n st) n"
    and lists: "\<And>y d s. delta_at_seq t y = Inr d \<Longrightarrow> s \<in> set (lst d) \<Longrightarrow> s \<le> y \<and> (v \<longrightarrow> known t s)"
    and ys: "\<forall>y \<in> set ys. y \<le> l"
    and st: "states_wf st" "last_seq st = l" "\<forall>y. 0 < y \<and> in_version st y \<longrightarrow> known t y"
    and pos: "\<forall>y \<in> set ys. 0 < y"
  shows "\<exists>st'. foldE (mark_list lst upd ok t) st ys = Inr st'
               \<and> (states_wf st' \<and> last_seq st' = l \<and> (\<forall>y. 0 < y \<and> in_version st' y \<longrightarrow> known t y))"
proof (rule foldE_progress)
  show "states_wf st \<and> last_seq st = l \<and> (\<forall>y. 0 < y \<and> in_version st y \<longrightarrow> known t y)" using st by blast
next
  fix s y
  assume inv: "states_wf s \<and> last_seq s = l \<and> (\<forall>y. 0 < y \<and> in_version s y \<longrightarrow> known t y)"
    and y: "y \<in> set ys"
  have yl: "y \<le> last_seq s" using inv ys y by auto
  have "\<exists>s'. mark_list lst upd ok t s y = Inr s'"
  proof (cases "in_version s y")
    case True
    then obtain d where d: "delta_at_seq t y = Inr d" using inv pos y by (auto simp: known_def)
    have "\<exists>s'. foldE (mark_one upd ok y) s (lst d) = Inr s' \<and> (states_wf s' \<and> last_seq s' = l)"
    proof (rule foldE_progress)
      fix u x
      assume u: "states_wf u \<and> last_seq u = l" and x: "x \<in> set (lst d)"
      have "x \<le> last_seq u" using lists [OF d x] u yl inv by simp
      then show "\<exists>s'. mark_one upd ok y u x = Inr s' \<and> states_wf s' \<and> last_seq s' = l"
        using u ok [of u x] sets_toD(1) [OF up, of u x] lists [OF d x]
        by (auto simp: mark_one_def Let_def same_frame_def)
    qed (use inv in blast)
    then show ?thesis using True d yl by (auto simp: mark_list_def in_version_def)
  next
    case False
    then show ?thesis using yl by (simp add: mark_list_def in_version_def)
  qed
  then obtain s' where s': "mark_list lst upd ok t s y = Inr s'" ..
  note step = mark_list_step [OF up yl _ s']
  have "known t x" if "0 < x" "in_version s' x" for x
    using step(2) [of x] that inv lists by (auto simp: names_def split: if_splits)
  then show "\<exists>s'. mark_list lst upd ok t s y = Inr s'
               \<and> (states_wf s' \<and> last_seq s' = l \<and> (\<forall>y. 0 < y \<and> in_version s' y \<longrightarrow> known t y))"
    using s' step(1) inv by (auto simp: same_frame_def)
qed

lemma setters_ok:
  assumes "states_wf st" and "n \<le> last_seq st"
  shows "is_included (set_included n b st) n" and "is_excluded (set_excluded n st) n"
    and "is_ignored (set_ignored n st) n \<and> \<not> is_included (set_ignored n st) n \<and> \<not> is_excluded (set_ignored n st) n"
  using assms
  by (auto simp: states_wf_def set_included_def set_excluded_def set_ignored_def is_included_def
      is_excluded_def is_ignored_def)

lemma rev_upt_mem: "y \<in> set (rev [1..<Suc n]) \<longleftrightarrow> 0 < y \<and> y \<le> n"
  by auto

lemma known_bound: "table_wf t \<Longrightarrow> known t y \<Longrightarrow> 0 < y \<and> y \<le> high_seqno t"
  by (auto simp: known_def delta_at_seq_def bindE_eq_Inr)

lemma cleared_state_version [simp]:
  "states_wf (cleared_state l)" "last_seq (cleared_state l) = l" "\<not> in_version (cleared_state l) s"
  "open_blocks (cleared_state l) = Map.empty"
proof -
  show "states_wf (cleared_state l)" using cleared_state_wf [of l] by (simp add: seq_wf_def)
  show "last_seq (cleared_state l) = l" by (simp add: cleared_state_def)
  show "\<not> in_version (cleared_state l) s"
    by (cases s) (auto simp: in_version_def cleared_state_def is_included_def initial_condition_def)
  have "\<not> active (replicate (Suc l) initial_condition ! s)" if "s \<le> l" for s
    using that by (simp add: nth_Cons initial_condition_def split: nat.splits)
  then show "open_blocks (cleared_state l) = Map.empty"
    by (simp add: cleared_state_def open_blocks_def fun_eq_iff del: replicate_Suc)
qed

section \<open>Properties\<close>

lemma ancestors_marked:
  assumes "states_wf st" and "sq \<le> last_seq st" and "\<forall>s. \<not> in_version st s"
    and "mark_ancestors t sq sq st = Inr st1"
  shows "same_frame st (set_included sq False st1)"
    and "in_version (set_included sq False st1) s \<longleftrightarrow> descends t sq s"
proof -
  note m = mark_ancestors_version [OF assms(1,2,4)]
  then have "states_wf st1" "sq \<le> last_seq st1" using assms by (auto simp: same_frame_def)
  note u = sets_toD [OF sets_to_setters(1) this, of False]
  show "same_frame st (set_included sq False st1)" using m u(1) same_frame_trans by blast
  show "in_version (set_included sq False st1) s \<longleftrightarrow> descends t sq s"
    using m u(2) [of s] assms(3) descends_refl [of t sq] by auto
qed

lemma prepare_seqstate_1_selects:
  assumes "prepare_seqstate_1 t st sq = Inr st'" and "states_wf st" and "sq \<le> last_seq st"
    and "\<forall>s. \<not> in_version st s"
  shows "\<exists>inc1 inc2.
           (\<forall>s. inc1 s \<longleftrightarrow> descends t sq s \<or> (\<exists>y. 0 < y \<and> y \<le> sq \<and> inc1 y \<and> names included_seqs t y s))
         \<and> (\<forall>s. inc2 s \<longleftrightarrow> inc1 s \<and> \<not> (\<exists>y. 0 < y \<and> y \<le> sq \<and> inc1 y \<and> names excluded_seqs t y s))
         \<and> (\<forall>s. in_version st' s \<longleftrightarrow>
                inc2 s \<and> \<not> (\<exists>y. 0 < y \<and> y \<le> sq \<and> in_version st' y \<and> names ignored_seqs t y s))
         \<and> states_wf st' \<and> last_seq st' = last_seq st \<and> open_blocks st' = open_blocks st
         \<and> inserting st' = inserting st"
proof -
  obtain st1 st2 st3 where anc: "mark_ancestors t sq sq st = Inr st1"
      and i: "apply_inclusions t sq (set_included sq False st1) = Inr st2"
      and e: "apply_exclusions t sq st2 = Inr st3" and g: "apply_ignores t sq st3 = Inr st'"
    using assms(1) by (auto simp: prepare_seqstate_1_def bindE_eq_Inr)
  note a = ancestors_marked [OF assms(2-4) anc]
  have ok1: "sq \<le> last_seq (set_included sq False st1)" "states_wf (set_included sq False st1)"
    using a(1) assms by (simp_all add: same_frame_def)
  note m1 = mark_down [OF sets_to_setters(1) ok1 i [unfolded apply_inclusions_def]]
  then have ok2: "sq \<le> last_seq st2" "states_wf st2" using ok1 by (simp_all add: same_frame_def)
  note m2 = mark_up [OF sets_to_setters(2) ok2 apply_exclusions_fold [OF e]]
  then have ok3: "sq \<le> last_seq st3" "states_wf st3" using ok2 by (simp_all add: same_frame_def)
  note m3 = mark_down [OF sets_to_setters(3) ok3 g [unfolded apply_ignores_def]]
  have fr: "same_frame st st'"
    by (rule same_frame_trans [OF a(1)], rule same_frame_trans [OF conjunct1 [OF m1]],
        rule same_frame_trans [OF conjunct1 [OF m2] conjunct1 [OF m3]])
  have v1: "in_version st2 s \<longleftrightarrow> descends t sq s \<or>
      (\<exists>y. 0 < y \<and> y \<le> sq \<and> in_version st2 y \<and> names included_seqs t y s)" for s
    using conjunct2 [OF conjunct2 [OF conjunct2 [OF m1]], rule_format, of s] a(2) [of s]
    by argo
  have v2: "in_version st3 s \<longleftrightarrow> in_version st2 s \<and>
      \<not> (\<exists>y. 0 < y \<and> y \<le> sq \<and> in_version st2 y \<and> names excluded_seqs t y s)" for s
    using conjunct2 [OF conjunct2 [OF m2], rule_format, of s] by argo
  have v3: "in_version st' s \<longleftrightarrow> in_version st3 s \<and>
      \<not> (\<exists>y. 0 < y \<and> y \<le> sq \<and> in_version st' y \<and> names ignored_seqs t y s)" for s
    using conjunct2 [OF conjunct2 [OF conjunct2 [OF m3]], rule_format, of s] by argo
  show ?thesis
  proof (rule exI [of _ "in_version st2"], rule exI [of _ "in_version st3"], intro conjI allI)
    show "states_wf st'" "last_seq st' = last_seq st" "open_blocks st' = open_blocks st"
      "inserting st' = inserting st"
      using fr by (simp_all add: same_frame_def)
  qed (rule v1 v2 v3)+
qed

text \<open>
  C8. What a successful \<open>prepare_seqstate_1\<close> selects for the delta \<open>sq\<close>. With \<open>inc1\<close> the
  ancestors of \<open>sq\<close>, closed under the include lists of the deltas in it, and \<open>inc2\<close> what is
  left of \<open>inc1\<close> without the deltas that the exclude lists of \<open>inc1\<close> name, the version
  consists of the deltas of \<open>inc2\<close> that no delta of the version itself ignores. No control
  block is opened, and the vector keeps its invariant.
\<close>

theorem prepare_seqstate_1_version:
  assumes "prepare_seqstate_1 t st sq = Inr st'" and "states_wf st" and "sq \<le> last_seq st"
    and "\<forall>s. \<not> in_version st s"
  shows "\<exists>inc1 inc2.
           (\<forall>s. inc1 s \<longleftrightarrow> descends t sq s \<or> (\<exists>y. 0 < y \<and> y \<le> sq \<and> inc1 y \<and> names included_seqs t y s))
         \<and> (\<forall>s. inc2 s \<longleftrightarrow> inc1 s \<and> \<not> (\<exists>y. 0 < y \<and> y \<le> sq \<and> inc1 y \<and> names excluded_seqs t y s))
         \<and> (\<forall>s. in_version st' s \<longleftrightarrow>
                inc2 s \<and> \<not> (\<exists>y. 0 < y \<and> y \<le> sq \<and> in_version st' y \<and> names ignored_seqs t y s))
         \<and> states_wf st' \<and> last_seq st' = last_seq st \<and> open_blocks st' = open_blocks st
         \<and> inserting st' = inserting st"
  using assms by (rule prepare_seqstate_1_selects)

lemma prepare_seqstate_1_total:
  assumes "table_wf t" and "table_consistent t" and "known t sq" and "counter_ends sq"
  shows "\<exists>st. prepare_seqstate_1 t (cleared_state (high_seqno t)) sq = Inr st"
proof -
  let ?l = "high_seqno t" and ?new = "cleared_state (high_seqno t)"
  have sq: "0 < sq" "sq \<le> ?l" using known_bound [OF assms(1,3)] by auto
  obtain st1 where st1: "mark_ancestors t sq sq ?new = Inr st1"
    using mark_ancestors_succeeds [OF assms(2,3)] by blast
  let ?s = "set_included sq False st1"
  have fr: "same_frame ?new ?s" and v: "in_version ?s s \<longleftrightarrow> descends t sq s" for s
    using ancestors_marked [OF _ _ _ st1] sq by auto
  have kn: "known t s" if "descends t sq s" "0 < s" for s
    using that assms(3)
  proof (induction rule: descends.induct)
    case (descends_step y p s)
    then have "p = 0 \<or> known t p"
      using assms(2) by (auto simp: prev_of_def table_consistent_def)
    with descends_step show ?case by auto
  qed
  have s: "states_wf ?s" "last_seq ?s = ?l" "\<forall>y. 0 < y \<and> in_version ?s y \<longrightarrow> known t y"
    using fr v kn by (auto simp: same_frame_def)
  have down: "\<forall>y \<in> set (rev [1..<Suc sq]). y \<le> ?l" "\<forall>y \<in> set (rev [1..<Suc sq]). 0 < y"
    and up: "\<forall>y \<in> set [1..<Suc sq]. y \<le> ?l" "\<forall>y \<in> set [1..<Suc sq]. 0 < y"
    using sq by auto
  obtain st2 where st2: "apply_inclusions t sq ?s = Inr st2" "states_wf st2" "last_seq st2 = ?l"
      "\<forall>y. 0 < y \<and> in_version st2 y \<longrightarrow> known t y"
    unfolding apply_inclusions_def
    using mark_fold_succeeds [where lst = included_seqs and ok = is_included and v = True,
        OF sets_to_setters(1) [of True] _ _ down(1) s down(2)] setters_ok(1)
      assms(2) by (auto simp: table_consistent_def)
  obtain st3 where st3: "apply_exclusions t sq st2 = Inr st3" "states_wf st3" "last_seq st3 = ?l"
      "\<forall>y. 0 < y \<and> in_version st3 y \<longrightarrow> known t y"
    unfolding apply_exclusions_def if_P [OF assms(4)]
    using mark_fold_succeeds [where lst = excluded_seqs and ok = is_excluded and v = False,
        OF sets_to_setters(2) _ _ up(1) st2(2-4) up(2)] setters_ok(2)
      assms(2) by (auto simp: table_consistent_def)
  obtain st4 where "apply_ignores t sq st3 = Inr st4"
    unfolding apply_ignores_def
    using mark_fold_succeeds [where lst = ignored_seqs and v = False
          and ok = "\<lambda>st s. is_ignored st s \<and> \<not> is_included st s \<and> \<not> is_excluded st s",
        OF sets_to_setters(3) _ _ down(1) st3(2-4) down(2)] setters_ok(3)
      assms(2) by (auto simp: table_consistent_def)
  with st1 st2(1) st3(1) show ?thesis by (simp add: prepare_seqstate_1_def)
qed

text \<open>
  C9. On a consistent table whose highest sequence number is below 65535 the constructor of the state
  returns and the selection of a delta of the table returns and never fails: no assertion is violated and no
  corruption is reported, whatever the lists of the deltas say. For 65535 the constructor never returns.
\<close>

theorem prepare_seqstate_1_succeeds:
  assumes "table_wf t" and "table_consistent t" and "known t sq" and "high_seqno t < 65535"
  shows "\<exists>st st'. new_seq_state (high_seqno t) = Inr st \<and> prepare_seqstate_1 t st sq = Inr st'"
proof -
  have "counter_ends sq" "counter_ends (high_seqno t)"
    using known_bound [OF assms(1,3)] assms(4) by (simp_all add: counter_ends_def)
  then obtain st' where "prepare_seqstate_1 t (cleared_state (high_seqno t)) sq = Inr st'"
    using prepare_seqstate_1_total [OF assms(1-3)] by blast
  moreover have "new_seq_state (high_seqno t) = Inr (cleared_state (high_seqno t))"
    unfolding new_seq_state_def using \<open>counter_ends (high_seqno t)\<close> by (rule if_P)
  ultimately show ?thesis by blast
qed

text \<open>
  A table with a trunk 1.1, 1.2, 1.3 and a branch delta 1.2.1.1; the fifth delta, 1.4, excludes
  the third.
\<close>

definition example_table :: delta_table where
  "example_table = foldl (\<lambda>t d. table_add d t) table_empty
     [delta_default\<lparr>seq := 5, prev_seq := 3, delta_id := mk_sid 1 4 0 0, excluded_seqs := [2], have_excludes := True\<rparr>,
      delta_default\<lparr>seq := 4, prev_seq := 2, delta_id := mk_sid 1 2 1 1\<rparr>,
      delta_default\<lparr>seq := 3, prev_seq := 2, delta_id := mk_sid 1 3 0 0\<rparr>,
      delta_default\<lparr>seq := 2, prev_seq := 1, delta_id := mk_sid 1 2 0 0\<rparr>,
      delta_default\<lparr>seq := 1, prev_seq := 0, delta_id := mk_sid 1 1 0 0\<rparr>]"

definition example_version :: "seq_no list" where
  "example_version =
     (case prepare_seqstate_1 example_table (cleared_state 5) 5 of
        Inr st \<Rightarrow> filter (is_included st) [1..<6] | Inl _ \<Rightarrow> [])"

lemma example_version_eval: "example_version = [1, 3, 5]"
  by code_simp

theorem prepare_seqstate_1_version_witness:
  "\<exists>st'. prepare_seqstate_1 example_table (cleared_state 5) 5 = Inr st' \<and> in_version st' 1
         \<and> \<not> in_version st' 2 \<and> states_wf st'"
proof -
  have "example_version \<noteq> []" by (simp add: example_version_eval)
  then obtain st' where st': "prepare_seqstate_1 example_table (cleared_state 5) 5 = Inr st'"
    by (auto simp: example_version_def split: sum.splits)
  then have f: "filter (is_included st') [1..<6] = [1, 3, 5]"
    using example_version_eval by (simp add: example_version_def)
  then have "1 \<in> set (filter (is_included st') [1..<6])" "2 \<notin> set (filter (is_included st') [1..<6])"
    by (simp_all only: f) simp_all
  then have "is_included st' 1" "\<not> is_included st' 2" by simp_all
  moreover have "states_wf st' \<and> last_seq st' = 5"
    using prepare_seqstate_1_version [OF st'] by auto
  ultimately show ?thesis using st' by (auto simp: in_version_def)
qed

definition consistent_delta :: "delta_table \<Rightarrow> seq_no \<Rightarrow> bool" where
  "consistent_delta t y =
     (case delta_at_seq t y of Inl _ \<Rightarrow> True
      | Inr d \<Rightarrow> prev_seq d < y \<and> (prev_seq d = 0 \<or> (case delta_at_seq t (prev_seq d) of Inr _ \<Rightarrow> True | _ \<Rightarrow> False))
          \<and> list_all (\<lambda>s. s \<le> y \<and> (case delta_at_seq t s of Inr _ \<Rightarrow> True | _ \<Rightarrow> False)) (included_seqs d)
          \<and> list_all (\<lambda>s. s \<le> y) (excluded_seqs d) \<and> list_all (\<lambda>s. s \<le> y) (ignored_seqs d))"

lemma table_consistentI:
  assumes "list_all (consistent_delta t) [1..<Suc (high_seqno t)]"
  shows "table_consistent t"
proof -
  have "consistent_delta t y" if "delta_at_seq t y = Inr d" for y d
  proof -
    have "y \<in> set [1..<Suc (high_seqno t)]" using that by (auto simp: delta_at_seq_def bindE_eq_Inr)
    then show ?thesis using assms by (simp only: list_all_iff)
  qed
  moreover have "(case delta_at_seq t s of Inr _ \<Rightarrow> True | _ \<Rightarrow> False) \<longleftrightarrow> known t s" for s
    by (auto simp: known_def split: sum.splits)
  ultimately show ?thesis
    unfolding table_consistent_def consistent_delta_def list_all_iff by fastforce
qed

theorem prepare_seqstate_1_succeeds_witness:
  "\<exists>st st'. new_seq_state (high_seqno example_table) = Inr st \<and> prepare_seqstate_1 example_table st 4 = Inr st'"
proof (rule prepare_seqstate_1_succeeds)
  show "table_wf example_table"
    by (simp add: example_table_def table_wf_add)
  show "table_consistent example_table"
    by (rule table_consistentI) code_simp
  have "(case delta_at_seq example_table 4 of Inr d \<Rightarrow> True | _ \<Rightarrow> False)" by code_simp
  then show "known example_table 4" by (auto simp: known_def split: sum.splits)
  show "high_seqno example_table < 65535" by (simp add: example_table_def)
qed

end
