(* ===== verification/Pfile.thy ===== *)
theory Pfile
  imports Range_List Sccs_Date Line_Reader
begin

text \<open>
  The p-file, which records the versions that are being edited: \<open>class sccs_pfile\<close> (pfile.h,
  pfile.cc, pf-add.cc, pf-del.cc).

  The directory is a map from file names to contents, so that \<open>update\<close> can be followed through
  its steps: the q-file is created exclusively, the old p-file removed, and the q-file renamed,
  or deleted when no lock is left. The name of the user and the clock are arguments. Failures
  of the system calls other than the ones that depend on the files involved are not modelled.
\<close>

section \<open>Data\<close>

datatype pfile_mode = PFILE_READ | PFILE_APPEND | PFILE_UPDATE

datatype find_status = FOUND nat | NOT_FOUND | AMBIGUOUS

record edit_lock =
  el_got :: sid
  el_delta :: sid
  el_user :: string
  el_date :: sccs_date
  el_include :: sid_list
  el_exclude :: sid_list

record sccs_pfile =
  pmode :: pfile_mode
  edit_locks :: "edit_lock list"

type_synonym directory = "string \<rightharpoonup> string"

section \<open>Reading\<close>

definition pfile_corrupt :: "string \<Rightarrow> 'a res" where
  "pfile_corrupt msg = Inl (Corrupt (P_file_corrupt msg))"

text \<open>The loop over the optional arguments: the last \<open>-i\<close> and the last \<open>-x\<close> count.\<close>

definition lock_option :: "string option \<times> string option \<Rightarrow> string \<Rightarrow> string option \<times> string option" where
  "lock_option ix arg =
     (if char_at arg 0 = CHR ''-'' then
        (if char_at arg 1 = CHR ''i'' then (Some (drop 2 arg), snd ix)
         else if char_at arg 1 = CHR ''x'' then (fst ix, Some (drop 2 arg))
         else ix)
      else ix)"

definition parse_lock :: "string \<Rightarrow> edit_lock res" where
  "parse_lock line =
     (let args = linebuf_split line 7 (CHR '' ''); argc = length args in
      if argc < 5 then pfile_corrupt ''Expected 5-7 args''
      else
        (case foldl lock_option (None, None) (drop 5 args) of (incl, excl) \<Rightarrow>
           if argc = 6 \<and> excl = None \<and> incl = None \<or> argc = 7 \<and> (excl = None \<or> incl = None)
           then pfile_corrupt ''Bad -i or -x option''
           else
             bindE (date_of_strings (args ! 3) (args ! 4)) (\<lambda>date.
             bindE (sid_list_of_string incl) (\<lambda>include.
             bindE (sid_list_of_string excl) (\<lambda>exclude.
             let tmp = \<lparr>el_got = sid_of_string (args ! 0), el_delta = sid_of_string (args ! 1),
                        el_user = args ! 2, el_date = date, el_include = include, el_exclude = exclude\<rparr> in
             if \<not> sid_valid (el_got tmp) then pfile_corrupt ''Invalid gotten SID''
             else if \<not> sid_valid (el_delta tmp) then pfile_corrupt ''Invalid delta SID''
             else if \<not> date_valid date then pfile_corrupt ''Invalid date/time''
             else if \<not> valid_flag include \<or> \<not> valid_flag exclude then pfile_corrupt ''Invalid SID list''
             else Inr tmp)))))"

definition add_line :: "edit_lock list \<Rightarrow> string \<Rightarrow> edit_lock list res" where
  "add_line locks line = bindE (parse_lock line) (\<lambda>l. Inr (locks @ [l]))"

definition parse_locks :: "string list \<Rightarrow> edit_lock list res" where
  "parse_locks = foldE add_line []"

text \<open>The constructor: a p-file that does not exist is an empty one.\<close>

definition open_pfile :: "directory \<Rightarrow> string \<Rightarrow> pfile_mode \<Rightarrow> sccs_pfile res" where
  "open_pfile dir pname m =
     (case dir pname of
        None \<Rightarrow> Inr \<lparr>pmode = m, edit_locks = []\<rparr>
      | Some s \<Rightarrow> bindE (parse_locks (read_all CHUNK s)) (\<lambda>ls. Inr \<lparr>pmode = m, edit_locks = ls\<rparr>))"

section \<open>Searching\<close>

definition find_locked :: "sccs_pfile \<Rightarrow> sid \<Rightarrow> edit_lock option" where
  "find_locked p s = find (\<lambda>l. el_got l = s) (edit_locks p)"

definition is_locked :: "sccs_pfile \<Rightarrow> sid \<Rightarrow> bool" where
  "is_locked p s \<longleftrightarrow> find_locked p s \<noteq> None"

definition find_to_be_created :: "sccs_pfile \<Rightarrow> sid \<Rightarrow> edit_lock option" where
  "find_to_be_created p s = find (\<lambda>l. el_delta l = s) (edit_locks p)"

definition is_to_be_created :: "sccs_pfile \<Rightarrow> sid \<Rightarrow> bool" where
  "is_to_be_created p s \<longleftrightarrow> find_to_be_created p s \<noteq> None"

definition lock_matches :: "string \<Rightarrow> sid \<Rightarrow> edit_lock \<Rightarrow> bool" where
  "lock_matches username s l \<longleftrightarrow> username = el_user l \<and> (is_null s \<or> s = el_got l \<or> s = el_delta l)"

text \<open>The loop of \<open>find_sid\<close>; an iterator is the index of its element.\<close>

fun find_sid_loop :: "string \<Rightarrow> sid \<Rightarrow> nat \<Rightarrow> nat option \<Rightarrow> edit_lock list \<Rightarrow> find_status" where
  "find_sid_loop username s i found [] = (case found of None \<Rightarrow> NOT_FOUND | Some k \<Rightarrow> FOUND k)"
| "find_sid_loop username s i found (l # ls) =
     (if lock_matches username s l then
        (if found \<noteq> None then AMBIGUOUS else find_sid_loop username s (Suc i) (Some i) ls)
      else find_sid_loop username s (Suc i) found ls)"

definition find_sid :: "string \<Rightarrow> sccs_pfile \<Rightarrow> sid \<Rightarrow> find_status" where
  "find_sid username p s = find_sid_loop username s 0 None (edit_locks p)"

section \<open>Writing\<close>

definition write_edit_lock :: "edit_lock \<Rightarrow> string res" where
  "write_edit_lock l =
     bindE (sid_print (el_got l)) (\<lambda>g.
     bindE (sid_print (el_delta l)) (\<lambda>d.
     bindE (date_print (el_date l)) (\<lambda>dt.
     bindE (if \<not> rl_is_empty (el_include l)
            then bindE (rl_print sid_print (el_include l)) (\<lambda>t. Inr ('' -i'' @ t)) else Inr []) (\<lambda>i.
     bindE (if \<not> rl_is_empty (el_exclude l)
            then bindE (rl_print sid_print (el_exclude l)) (\<lambda>t. Inr ('' -x'' @ t)) else Inr []) (\<lambda>x.
       Inr (g @ '' '' @ d @ '' '' @ el_user l @ '' '' @ dt @ i @ x @ [newline]))))))"

definition put_lock :: "string \<times> nat \<Rightarrow> edit_lock \<Rightarrow> (string \<times> nat) res" where
  "put_lock on l = bindE (write_edit_lock l) (\<lambda>t. Inr (fst on @ t, snd on + 1))"

definition write_edit_locks :: "edit_lock list \<Rightarrow> (string \<times> nat) res" where
  "write_edit_locks = foldE put_lock ([], 0)"

text \<open>
  \<open>update\<close>: the result and the directory afterwards. On a failure after its creation the
  q-file is deleted again.
\<close>

definition pfile_update :: "string \<Rightarrow> string \<Rightarrow> bool \<Rightarrow> edit_lock list \<Rightarrow> directory \<Rightarrow> unit res \<times> directory" where
  "pfile_update q_name pname pfile_already_exists locks dir =
     (if dir q_name \<noteq> None then (Inl (Failed (Message ''can't create temporary file'')), dir)
      else
        (case write_edit_locks locks of
           Inl e \<Rightarrow> (Inl e, dir)
         | Inr (t, locks_remaining) \<Rightarrow>
             let dir1 = dir(q_name \<mapsto> t) in
             if pfile_already_exists \<and> dir1 pname = None
             then (Inl (Failed (Message ''can't remove old p-file'')), dir1(q_name := None))
             else
               let dir2 = (if pfile_already_exists then dir1(pname := None) else dir1) in
               if locks_remaining \<noteq> 0
               then (Inr (), (dir2(pname := dir2 q_name))(q_name := None))
               else (Inr (), dir2(q_name := None))))"

definition add_lock ::
  "string \<Rightarrow> sccs_date \<Rightarrow> string \<Rightarrow> string \<Rightarrow> sid \<Rightarrow> sid \<Rightarrow> sid_list \<Rightarrow> sid_list \<Rightarrow> sccs_pfile \<Rightarrow> directory \<Rightarrow>
   sccs_pfile res \<times> directory" where
  "add_lock user now q_name pname got delta incl excl p dir =
     (case bindE (ASSERT (pmode p = PFILE_APPEND)) (\<lambda>_.
           bindE (rl_assign rl_empty incl) (\<lambda>i.
           bindE (rl_assign rl_empty excl) (\<lambda>x.
             Inr \<lparr>el_got = got, el_delta = delta, el_user = user, el_date = now,
                  el_include = i, el_exclude = x\<rparr>))) of
        Inl e \<Rightarrow> (Inl e, dir)
      | Inr l \<Rightarrow>
          let exists = (edit_locks p \<noteq> []); p' = p\<lparr>edit_locks := edit_locks p @ [l]\<rparr> in
          (case pfile_update q_name pname exists (edit_locks p') dir of
             (Inl e, dir') \<Rightarrow> (Inl e, dir')
           | (Inr _, dir') \<Rightarrow> (Inr p', dir')))"

definition delete_lock :: "nat \<Rightarrow> sccs_pfile \<Rightarrow> sccs_pfile" where
  "delete_lock i p = p\<lparr>edit_locks := take i (edit_locks p) @ drop (Suc i) (edit_locks p)\<rparr>"

definition print_lock_sid :: "edit_lock \<Rightarrow> string res" where
  "print_lock_sid l = sid_print (el_delta l)"

section \<open>What is written can be read back\<close>

text \<open>
  A SID list as \<open>get -e\<close> stores it: valid, and empty or cleaned with its ranges on the trunk
  or on one branch. A lock has SIDs with up to four components, a date that fits, and a user
  name without blanks.
\<close>

definition stored_list :: "sid_list \<Rightarrow> bool" where
  "stored_list rl \<longleftrightarrow>
     valid_flag rl \<and> srl.chain (head rl)
     \<and> (\<exists>r l b. \<forall>p \<in> set (head rl). srl.range_ok r l b p \<and> sid_wf (r_from p) \<and> sid_wf (r_to p))"

definition plain_word :: "string \<Rightarrow> bool" where
  "plain_word w \<longleftrightarrow> CHR '' '' \<notin> set w \<and> newline \<notin> set w \<and> NUL \<notin> set w"

definition lock_wf :: "edit_lock \<Rightarrow> bool" where
  "lock_wf l \<longleftrightarrow> sid_wf (el_got l) \<and> sid_wf (el_delta l) \<and> plain_word (el_user l)
     \<and> date_sfile (el_date l) \<and> stored_list (el_include l) \<and> stored_list (el_exclude l)"

lemma stored_list_cases:
  assumes "stored_list rl"
  obtains (empty) "rl = rl_empty"
  | (ranges) t where "\<not> rl_is_empty rl" "rl_print sid_print rl = Inr t" "plain_word t" "t \<noteq> []"
      "sid_list_of_string (Some t) = Inr rl" "valid_flag rl"
proof (cases "head rl = []")
  case True
  then have "rl = rl_empty" using assms by (cases rl) (simp add: stored_list_def rl_empty_def)
  then show ?thesis by (rule empty)
next
  case False
  obtain r l b where "\<forall>p \<in> set (head rl). srl.range_ok r l b p \<and> sid_wf (r_from p) \<and> sid_wf (r_to p)"
    using assms by (auto simp: stored_list_def)
  then obtain t where "rl_print sid_print rl = Inr t" "t \<noteq> []" "set t \<inter> {CHR '' '', newline, NUL} = {}"
    "sid_list_of_string (Some t) = Inr rl"
    using sid_list_text [of rl r l b] False assms by (auto simp: stored_list_def)
  then show ?thesis
    using False assms by (intro ranges [of t]) (auto simp: rl_is_empty_def plain_word_def stored_list_def)
qed

lemma linebuf_split_Cons:
  "c \<notin> set a \<Longrightarrow> linebuf_split (a @ c # r) (Suc n) c = a # linebuf_split r n c"
  by simp

lemma linebuf_split_last: "c \<notin> set a \<Longrightarrow> a \<noteq> [] \<Longrightarrow> linebuf_split a (Suc n) c = [a]"
  by simp

text \<open>The optional part of a line, as text and as arguments.\<close>

definition list_arg :: "char \<Rightarrow> sid_list \<Rightarrow> string list" where
  "list_arg c rl = (if rl_is_empty rl then [] else [CHR ''-'' # c # (case rl_print sid_print rl of Inr t \<Rightarrow> t | Inl _ \<Rightarrow> [])])"

lemma list_arg_words:
  assumes "stored_list rl" and "plain_word [c]"
  shows "\<forall>w \<in> set (list_arg c rl). plain_word w \<and> w \<noteq> []"
  using assms by (cases rule: stored_list_cases [OF assms(1)]) (auto simp: list_arg_def plain_word_def rl_is_empty_def rl_empty_def)

fun words_text :: "string list \<Rightarrow> string" where
  "words_text [] = []"
| "words_text [w] = w"
| "words_text (w # v # ws) = w @ CHR '' '' # words_text (v # ws)"

lemma words_text_append: "ws \<noteq> [] \<Longrightarrow> words_text (ws @ vs) = words_text ws @ concat (map (\<lambda>v. CHR '' '' # v) vs)"
proof (induction ws rule: words_text.induct)
  case (2 w)
  show ?case
  proof (induction vs arbitrary: w)
    case (Cons v vs)
    then show ?case by simp
  qed simp
qed auto

lemma linebuf_split_words:
  assumes "ws \<noteq> []" and "\<forall>w \<in> set ws. CHR '' '' \<notin> set w" and "last ws \<noteq> []" and "length ws \<le> n"
  shows "linebuf_split (words_text ws) n (CHR '' '') = ws"
  using assms
proof (induction ws arbitrary: n rule: words_text.induct)
  case (2 w)
  then show ?case by (cases n) auto
next
  case (3 w v ws)
  then show ?case by (cases n) auto
qed simp

definition lock_words :: "edit_lock \<Rightarrow> string list" where
  "lock_words l =
     [sid_as_string (el_got l), sid_as_string (el_delta l), el_user l, date_word (el_date l), time_word (el_date l)]
     @ list_arg (CHR ''i'') (el_include l) @ list_arg (CHR ''x'') (el_exclude l)"

lemma lock_words_plain:
  assumes "lock_wf l"
  shows "\<forall>w \<in> set (lock_words l). plain_word w" and "last (lock_words l) \<noteq> []"
proof -
  have sf: "date_sfile (el_date l)" and sw: "sid_wf (el_got l)" "sid_wf (el_delta l)"
    and i: "stored_list (el_include l)" and x: "stored_list (el_exclude l)"
    using assms by (auto simp: lock_wf_def)
  have args: "\<forall>w \<in> set (list_arg (CHR ''i'') (el_include l)). plain_word w \<and> w \<noteq> []"
    "\<forall>w \<in> set (list_arg (CHR ''x'') (el_exclude l)). plain_word w \<and> w \<noteq> []"
    by (rule list_arg_words [OF i], simp add: plain_word_def) (rule list_arg_words [OF x], simp add: plain_word_def)
  have base: "plain_word (sid_as_string (el_got l))" "plain_word (sid_as_string (el_delta l))"
    "plain_word (date_word (el_date l))" "plain_word (time_word (el_date l))"
    using sid_text_chars [OF sw(1)] sid_text_chars [OF sw(2)] date_words(5,6) [OF sf]
    by (simp_all add: plain_word_def)
  show "\<forall>w \<in> set (lock_words l). plain_word w"
    using base args assms by (auto simp: lock_words_def lock_wf_def)
  have "time_word (el_date l) \<noteq> []" using date_words(3) [OF sf] by auto
  then show "last (lock_words l) \<noteq> []"
    using args by (auto simp: lock_words_def list_arg_def split: if_splits)
qed

lemma write_edit_lock_words:
  assumes "lock_wf l"
  shows "write_edit_lock l = Inr (words_text (lock_words l) @ [newline])"
proof -
  have i: "stored_list (el_include l)" and x: "stored_list (el_exclude l)" and sf: "date_sfile (el_date l)"
    using assms by (auto simp: lock_wf_def)
  have part: "(if \<not> rl_is_empty rl then bindE (rl_print sid_print rl) (\<lambda>t. Inr (CHR '' '' # CHR ''-'' # c # t)) else Inr [])
      = Inr (concat (map (\<lambda>v. CHR '' '' # v) (list_arg c rl)))" if "stored_list rl" for rl c
    using that by (cases rule: stored_list_cases [OF that]) (auto simp: list_arg_def rl_is_empty_def rl_empty_def)
  have I: "(if \<not> rl_is_empty (el_include l) then bindE (rl_print sid_print (el_include l)) (\<lambda>t. Inr ('' -i'' @ t)) else Inr [])
      = Inr (concat (map (\<lambda>v. CHR '' '' # v) (list_arg (CHR ''i'') (el_include l))))"
    using part [OF i, of "CHR ''i''"] by (auto simp: list_arg_def)
  have X: "(if \<not> rl_is_empty (el_exclude l) then bindE (rl_print sid_print (el_exclude l)) (\<lambda>t. Inr ('' -x'' @ t)) else Inr [])
      = Inr (concat (map (\<lambda>v. CHR '' '' # v) (list_arg (CHR ''x'') (el_exclude l))))"
    using part [OF x, of "CHR ''x''"] by (auto simp: list_arg_def)
  show ?thesis
    unfolding write_edit_lock_def I X lock_words_def
    by (subst words_text_append) (use assms date_words(1) [OF sf] in \<open>simp_all add: lock_wf_def sid_print_text\<close>)
qed

lemma parse_lock_words:
  assumes "lock_wf l"
  shows "parse_lock (words_text (lock_words l)) = Inr l"
proof -
  have i: "stored_list (el_include l)" and x: "stored_list (el_exclude l)" and sf: "date_sfile (el_date l)"
    and sw: "sid_wf (el_got l)" "sid_wf (el_delta l)"
    using assms by (auto simp: lock_wf_def)
  have len: "length (list_arg c rl) \<le> 1" for c rl by (simp add: list_arg_def)
  have split: "linebuf_split (words_text (lock_words l)) 7 (CHR '' '') = lock_words l"
    using lock_words_plain [OF assms] len [of "CHR ''i''" "el_include l"] len [of "CHR ''x''" "el_exclude l"]
    by (intro linebuf_split_words) (auto simp: plain_word_def lock_words_def)
  have valid: "sid_valid (el_got l)" "sid_valid (el_delta l)" "date_valid (el_date l)"
    using sw sf by (simp_all add: sid_valid_def sid_wf_def date_sfile_def date_ok_def)
  note rd = split date_words(4) [OF sf] sid_of_string_as_string [OF sw(1)] sid_of_string_as_string [OF sw(2)] valid
  have none: "sid_list_of_string None = Inr rl_empty"
    by (simp add: sid_list_of_string_def range_list_of_string_def)
  show ?thesis
    using rd none
    by (cases rule: stored_list_cases [OF i]; cases rule: stored_list_cases [OF x])
       (auto simp: parse_lock_def lock_words_def list_arg_def lock_option_def rl_is_empty_def rl_empty_def Let_def)
qed

definition locks_text :: "edit_lock list \<Rightarrow> string" where
  "locks_text ls = unlines (map (\<lambda>l. words_text (lock_words l)) ls)"

lemma write_edit_locks_text:
  "list_all lock_wf ls \<Longrightarrow> write_edit_locks ls = Inr (locks_text ls, length ls)"
proof -
  have "foldE put_lock (t, n) ls = Inr (t @ locks_text ls, n + length ls)" if "list_all lock_wf ls" for t n
    using that by (induction ls arbitrary: t n) (simp_all add: put_lock_def write_edit_lock_words locks_text_def)
  then show "list_all lock_wf ls \<Longrightarrow> write_edit_locks ls = Inr (locks_text ls, length ls)"
    by (simp add: write_edit_locks_def)
qed

lemma words_text_plain: "\<forall>w \<in> set ws. plain_word w \<Longrightarrow> plain_line (words_text ws)"
  by (induction ws rule: words_text.induct) (auto simp: plain_word_def plain_line_def)

lemma read_locks_text:
  assumes "list_all lock_wf ls"
  shows "parse_locks (read_all CHUNK (locks_text ls)) = Inr ls"
proof -
  have "\<forall>l \<in> set (map (\<lambda>l. words_text (lock_words l)) ls). plain_line l"
    using assms lock_words_plain(1) words_text_plain by (auto simp: list_all_iff)
  then have "read_all CHUNK (locks_text ls) = map (\<lambda>l. words_text (lock_words l)) ls"
    unfolding locks_text_def by (intro read_all_unlines) (auto simp: CHUNK_def)
  moreover have "foldE add_line as (map (\<lambda>l. words_text (lock_words l)) ls) = Inr (as @ ls)" for as
    using assms by (induction ls arbitrary: as) (simp_all add: add_line_def parse_lock_words)
  ultimately show ?thesis by (simp add: parse_locks_def)
qed

section \<open>Properties\<close>

text \<open>
  The p-file of a directory agrees with a list of locks: it is absent when there are none, and
  otherwise it is the text of the locks.
\<close>

definition pfile_agrees :: "string \<Rightarrow> edit_lock list \<Rightarrow> directory \<Rightarrow> bool" where
  "pfile_agrees pname ls dir \<longleftrightarrow> dir pname = (if ls = [] then None else Some (locks_text ls))"

lemma open_pfile_agrees:
  assumes "pfile_agrees pname ls dir" and "list_all lock_wf ls"
  shows "open_pfile dir pname m = Inr \<lparr>pmode = m, edit_locks = ls\<rparr>"
  using assms read_locks_text by (auto simp: pfile_agrees_def open_pfile_def)

lemma pfile_update_agrees:
  assumes "list_all lock_wf new" and "dir q_name = None" and "q_name \<noteq> pname"
    and "exists \<longleftrightarrow> dir pname \<noteq> None"
  obtains dir' where "pfile_update q_name pname exists new dir = (Inr (), dir')"
    and "pfile_agrees pname new dir'" and "\<And>f. f \<noteq> pname \<Longrightarrow> dir' f = dir f"
proof
  show "pfile_update q_name pname exists new dir =
      (Inr (), dir(pname := if new = [] then None else Some (locks_text new)))"
    using assms by (auto simp: pfile_update_def write_edit_locks_text Let_def fun_eq_iff)
qed (simp_all add: pfile_agrees_def)

text \<open>
  C14. Adding a lock to a p-file in append mode and deleting a lock afterwards, each followed by
  a rewrite of the file: the rewrites succeed, they leave every other file of the directory as
  it was (the q-file does not stay behind), a new reader of the p-file finds exactly the locks
  in memory, and after the last lock is gone there is no p-file.
\<close>

theorem pfile_is_the_locks:
  assumes "list_all lock_wf (edit_locks p)" and "pfile_agrees pname (edit_locks p) dir"
    and "pmode p = PFILE_APPEND" and "dir q_name = None" and "q_name \<noteq> pname"
    and "lock_wf \<lparr>el_got = got, el_delta = dlt, el_user = user, el_date = now, el_include = incl, el_exclude = excl\<rparr>"
  shows "\<exists>p' dir'. add_lock user now q_name pname got dlt incl excl p dir = (Inr p', dir')
     \<and> edit_locks p' = edit_locks p @ [\<lparr>el_got = got, el_delta = dlt, el_user = user, el_date = now,
                                         el_include = incl, el_exclude = excl\<rparr>]
     \<and> (\<forall>m. open_pfile dir' pname m = Inr (p'\<lparr>pmode := m\<rparr>)) \<and> (\<forall>f. f \<noteq> pname \<longrightarrow> dir' f = dir f)
     \<and> (\<forall>i < length (edit_locks p'). \<exists>dir''.
          pfile_update q_name pname True (edit_locks (delete_lock i p')) dir' = (Inr (), dir'')
          \<and> (\<forall>m. open_pfile dir'' pname m = Inr ((delete_lock i p')\<lparr>pmode := m\<rparr>))
          \<and> (\<forall>f. f \<noteq> pname \<longrightarrow> dir'' f = dir f)
          \<and> (dir'' pname = None \<longleftrightarrow> edit_locks (delete_lock i p') = []))"
proof -
  let ?l = "\<lparr>el_got = got, el_delta = dlt, el_user = user, el_date = now, el_include = incl, el_exclude = excl\<rparr>"
  let ?new = "edit_locks p @ [?l]"
  define p' where "p' = p\<lparr>edit_locks := ?new\<rparr>"
  have wf: "list_all lock_wf ?new" using assms(1,6) by simp
  have ex: "edit_locks p \<noteq> [] \<longleftrightarrow> dir pname \<noteq> None" using assms(2) by (auto simp: pfile_agrees_def)
  obtain dir' where dir': "pfile_update q_name pname (edit_locks p \<noteq> []) ?new dir = (Inr (), dir')"
    "pfile_agrees pname ?new dir'" "\<And>f. f \<noteq> pname \<Longrightarrow> dir' f = dir f"
    using pfile_update_agrees [OF wf assms(4,5) ex] by blast
  have copies: "rl_assign rl_empty incl = Inr incl" "rl_assign rl_empty excl = Inr excl"
    using assms(6) by (auto simp: rl_assign_def rl_empty_def lock_wf_def stored_list_def)
  have add: "add_lock user now q_name pname got dlt incl excl p dir = (Inr p', dir')"
    using copies assms(3) dir'(1) by (simp add: add_lock_def Let_def p'_def)
  have op: "open_pfile dir' pname m = Inr (p'\<lparr>pmode := m\<rparr>)" for m
    using open_pfile_agrees [OF dir'(2) wf] by (cases p) (simp add: p'_def)
  have del: "\<exists>dir''. pfile_update q_name pname True (edit_locks (delete_lock i p')) dir' = (Inr (), dir'')
          \<and> (\<forall>m. open_pfile dir'' pname m = Inr ((delete_lock i p')\<lparr>pmode := m\<rparr>))
          \<and> (\<forall>f. f \<noteq> pname \<longrightarrow> dir'' f = dir f)
          \<and> (dir'' pname = None \<longleftrightarrow> edit_locks (delete_lock i p') = [])" for i
  proof -
    let ?rest = "edit_locks (delete_lock i p')"
    have rest: "list_all lock_wf ?rest"
      using wf by (auto simp: delete_lock_def p'_def list_all_iff dest: in_set_takeD in_set_dropD)
    have "dir' q_name = None" "True \<longleftrightarrow> dir' pname \<noteq> None"
      using dir' assms(4,5) by (auto simp: pfile_agrees_def)
    then obtain dir'' where dir'': "pfile_update q_name pname True ?rest dir' = (Inr (), dir'')"
      "pfile_agrees pname ?rest dir''" "\<And>f. f \<noteq> pname \<Longrightarrow> dir'' f = dir' f"
      using pfile_update_agrees [OF rest _ assms(5)] by blast
    moreover have "open_pfile dir'' pname m = Inr ((delete_lock i p')\<lparr>pmode := m\<rparr>)" for m
      using open_pfile_agrees [OF dir''(2) rest] by (cases p') (simp add: delete_lock_def)
    ultimately show ?thesis using dir'(3) by (intro exI [of _ dir'']) (auto simp: pfile_agrees_def)
  qed
  show ?thesis using add op del dir'(3) by (intro exI [of _ p'] exI [of _ dir']) (simp add: p'_def)
qed

definition example_lock :: edit_lock where
  "example_lock =
     \<lparr>el_got = mk_sid 1 2 0 0, el_delta = mk_sid 1 3 0 0, el_user = ''ann'', el_date = date_ctor6 2001 2 3 4 5 6,
      el_include = \<lparr>head = [\<lparr>r_from = mk_sid 1 1 0 0, r_to = mk_sid 1 1 0 0\<rparr>], valid_flag = True\<rparr>,
      el_exclude = rl_empty\<rparr>"

lemma example_lock_wf: "lock_wf example_lock"
proof -
  have "date_sfile (date_ctor6 2001 2 3 4 5 6)" by code_simp
  moreover have "srl.range_ok 1 1 1 \<lparr>r_from = mk_sid 1 1 0 0, r_to = mk_sid 1 1 0 0\<rparr>"
    by (simp add: srl.range_ok_def sid_line_def trunk_sid_def)
  ultimately show ?thesis
    by (auto simp: lock_wf_def example_lock_def stored_list_def plain_word_def sid_wf_def rl_empty_def
        intro!: exI [of _ 1])
qed

theorem pfile_is_the_locks_witness:
  "\<exists>p' dir'. add_lock ''ann'' (date_ctor6 2001 2 3 4 5 6) ''q.x'' ''p.x'' (mk_sid 1 2 0 0) (mk_sid 1 3 0 0)
        (el_include example_lock) rl_empty \<lparr>pmode = PFILE_APPEND, edit_locks = []\<rparr> Map.empty = (Inr p', dir')
     \<and> dir' ''p.x'' \<noteq> None
     \<and> (\<exists>dir''. pfile_update ''q.x'' ''p.x'' True (edit_locks (delete_lock 0 p')) dir' = (Inr (), dir'') \<and> dir'' ''p.x'' = None)"
proof -
  let ?p = "\<lparr>pmode = PFILE_APPEND, edit_locks = []\<rparr>"
  let ?l = "\<lparr>el_got = mk_sid 1 2 0 0, el_delta = mk_sid 1 3 0 0, el_user = ''ann'', el_date = date_ctor6 2001 2 3 4 5 6,
      el_include = el_include example_lock, el_exclude = rl_empty\<rparr>"
  have wf: "lock_wf ?l" using example_lock_wf by (simp add: example_lock_def)
  obtain p' dir' where p': "add_lock ''ann'' (date_ctor6 2001 2 3 4 5 6) ''q.x'' ''p.x'' (mk_sid 1 2 0 0) (mk_sid 1 3 0 0)
        (el_include example_lock) rl_empty ?p Map.empty = (Inr p', dir')"
    "edit_locks p' = [?l]" "open_pfile dir' ''p.x'' PFILE_READ = Inr (p'\<lparr>pmode := PFILE_READ\<rparr>)"
    "\<exists>dir''. pfile_update ''q.x'' ''p.x'' True (edit_locks (delete_lock 0 p')) dir' = (Inr (), dir'')
        \<and> (dir'' ''p.x'' = None \<longleftrightarrow> edit_locks (delete_lock 0 p') = [])"
    using pfile_is_the_locks [of ?p "''p.x''" Map.empty "''q.x''", OF _ _ _ _ _ wf]
    by (fastforce simp: pfile_agrees_def)
  have "dir' ''p.x'' \<noteq> None" using p'(2,3) by (cases p') (auto simp: open_pfile_def split: option.splits)
  moreover have "edit_locks (delete_lock 0 p') = []" using p'(2) by (simp add: delete_lock_def)
  ultimately show ?thesis using p' by auto
qed

lemma find_sid_loop_matches:
  "find_sid_loop u s i found ls =
     (case (case found of None \<Rightarrow> [] | Some k \<Rightarrow> [k]) @ map fst (filter (\<lambda>(j, l). lock_matches u s l) (enumerate i ls)) of
        [] \<Rightarrow> NOT_FOUND | [k] \<Rightarrow> FOUND k | _ \<Rightarrow> AMBIGUOUS)"
  by (induction ls arbitrary: i found) (auto split: option.splits)

text \<open>
  C15. \<open>find_sid\<close> looks for the locks of the user that name the SID as the version got or as the
  version to be created, any lock of the user when no SID is given: it finds the lock when
  there is exactly one, and tells none from several.
\<close>

theorem find_sid_counts_matches:
  "find_sid u p s =
     (case map fst (filter (\<lambda>(j, l). lock_matches u s l) (enumerate 0 (edit_locks p))) of
        [] \<Rightarrow> NOT_FOUND | [k] \<Rightarrow> FOUND k | _ \<Rightarrow> AMBIGUOUS)"
  by (simp add: find_sid_def find_sid_loop_matches)

end
