(* ===== verification/Encoding.thy ===== *)
theory Encoding
  imports Line_Reader
begin

text \<open>
  The encoding of binary files and the insertion of a file into the body of an s-file:
  encoding.cc, bodyio.cc and the configuration functions of environment.cc that they call.

  A \<open>char\<close> of the program is signed; \<open>char_int\<close> is its promotion to \<open>int\<close> and \<open>int_char\<close> the
  conversion back, so the shifts and masks below are those of the source. A line is decoded
  from the C string in the line buffer: beyond its end the model reads NULs where the program
  reads what an earlier, longer line has left there; a line that \<open>encode_line\<close> has written is
  never read beyond its end.
\<close>

unbundle bit_operations_syntax

section \<open>Groups of three characters\<close>

definition char_int :: "char \<Rightarrow> int" where
  "char_int c = signed_take_bit 7 (of_char c)"

definition int_char :: "int \<Rightarrow> char" where
  "int_char n = char_of n"

definition UUDEC :: "int \<Rightarrow> int" where
  "UUDEC c = (c - 32) AND 63"

definition UUENC :: "int \<Rightarrow> int" where
  "UUENC c = (c AND 63) + 32"

definition encode :: "char \<Rightarrow> char \<Rightarrow> char \<Rightarrow> string" where
  "encode in0 in1 in2 =
     (let i0 = char_int in0; i1 = char_int in1; i2 = char_int in2 in
      [int_char (UUENC (drop_bit 2 i0)),
       int_char (UUENC ((push_bit 4 i0 AND 48) OR (drop_bit 4 i1 AND 15))),
       int_char (UUENC ((push_bit 2 i1 AND 60) OR (drop_bit 6 i2 AND 3))),
       int_char (UUENC (i2 AND 63))])"

definition decode :: "char \<Rightarrow> char \<Rightarrow> char \<Rightarrow> char \<Rightarrow> string" where
  "decode in0 in1 in2 in3 =
     (let t0 = UUDEC (char_int in0); t1 = UUDEC (char_int in1);
          t2 = UUDEC (char_int in2); t3 = UUDEC (char_int in3) in
      [int_char (push_bit 2 t0 OR drop_bit 4 t1),
       int_char (push_bit 4 t1 OR drop_bit 2 t2),
       int_char (push_bit 6 t2 OR t3)])"

section \<open>Lines\<close>

text \<open>The loop of \<open>decode_line\<close>: three characters for every four that are read.\<close>

function decode_loop :: "nat \<Rightarrow> nat \<Rightarrow> string \<Rightarrow> string" where
  "decode_loop n len s =
     (if n < len
      then decode (char_at s 0) (char_at s 1) (char_at s 2) (char_at s 3) @ decode_loop (n + 3) len (drop 4 s)
      else [])"
  by pat_completeness auto
termination
  by (relation "measure (\<lambda>(n, len, s). len - n)") auto

declare decode_loop.simps [simp del]

definition decode_line :: "string \<Rightarrow> string" where
  "decode_line s =
     (let count = UUDEC (char_int (char_at s 0)) in
      if count \<le> 0 then [] else take (nat count) (decode_loop 0 (nat count) (drop 1 s)))"

text \<open>The loop of \<open>encode_line\<close> with the tail of one or two characters.\<close>

fun encode_loop :: "string \<Rightarrow> string" where
  "encode_loop (a # b # c # s) = encode a b c @ encode_loop s"
| "encode_loop [a, b] = encode a b (CHR 0x00)"
| "encode_loop [a] = encode a (CHR 0x00) (CHR 0x00)"
| "encode_loop [] = []"

text \<open>\<open>encode_line (in, out, len)\<close>: the characters put into \<open>out\<close> before the NUL.\<close>

definition encode_line :: "string \<Rightarrow> nat \<Rightarrow> string res" where
  "encode_line s len =
     bindE (ASSERT (len \<le> 60)) (\<lambda>_.
       Inr (int_char (UUENC (int len)) # encode_loop (take len s) @ [newline]))"

text \<open>\<open>encode_stream\<close>: a \<open>do\<close> loop, which also encodes the empty read at the end of the file.\<close>

function encode_stream :: "string \<Rightarrow> string \<Rightarrow> string res" where
  "encode_stream fin fout =
     (let buf = take 45 fin in
      bindE (encode_line buf (length buf)) (\<lambda>line.
        if length buf \<noteq> 0 then encode_stream (drop 45 fin) (fout @ line) else Inr (fout @ line)))"
  by pat_completeness auto
termination
  by (relation "measure (\<lambda>(fin, fout). length fin)") auto

declare encode_stream.simps [simp del]

section \<open>Configuration\<close>

text \<open>
  The environment variables \<open>CSSC_BINARY_SUPPORT\<close> and \<open>CSSC_MAX_LINE_LENGTH\<close> are arguments
  (\<open>None\<close>: unset), with the values chosen when the program was configured.
\<close>

definition binary_file_creation_allowed :: "bool \<Rightarrow> string option \<Rightarrow> bool res" where
  "binary_file_creation_allowed config p =
     (case p of
        None \<Rightarrow> Inr config
      | Some v \<Rightarrow> if v = ''enabled'' then Inr True
                  else if v = ''disabled'' then Inr False
                  else Inl (Fatal (Message ''CSSC_BINARY_SUPPORT'')))"

definition max_sfile_line_len :: "nat \<Rightarrow> string option \<Rightarrow> nat res" where
  "max_sfile_line_len config p =
     (case p of
        None \<Rightarrow> Inr config
      | Some v \<Rightarrow>
          (case strtol v of (len, range_error, e) \<Rightarrow>
             if e = v \<or> ((len = long_min \<or> len = long_max) \<and> range_error) \<or> len < 0
             then Inl (Fatal (Message ''CSSC_MAX_LINE_LENGTH'')) else Inr (nat len)))"

section \<open>Inserting a file\<close>

definition check_line_len :: "nat \<Rightarrow> nat \<Rightarrow> bool" where
  "check_line_len len_max column \<longleftrightarrow> len_max = 0 \<or> column < len_max"

text \<open>
  The three reasons for which a file is not text. In these cases the text written so far stays
  behind the file position of the output, and the current character is pushed back.
\<close>

datatype text_outcome =
    Text_ok nat bool string
  | Text_binary string string

text \<open>\<open>++column\<close> occurs twice for every character but the first of a line.\<close>

fun text_loop :: "nat \<Rightarrow> char \<Rightarrow> nat \<Rightarrow> nat \<Rightarrow> bool \<Rightarrow> string \<Rightarrow> string \<Rightarrow> text_outcome" where
  "text_loop len_max lastc column nl found_id w [] =
     (if lastc \<noteq> newline then Text_binary w [] else Text_ok nl found_id w)"
| "text_loop len_max lastc column nl found_id w (ch # s) =
     (let nl = (if ch = newline then nl + 1 else nl);
          column = (if lastc = newline then 0 else column + 2) in
      if lastc = newline \<and> ch = ctrl_A then Text_binary w (ch # s)
      else if lastc \<noteq> newline \<and> \<not> check_line_len len_max column then Text_binary w (ch # s)
      else
        let found_id = (found_id \<or> lastc = CHR ''%'' \<and> is_id_keyword_letter ch \<and> s \<noteq> [] \<and> hd s = CHR ''%'')
        in text_loop len_max ch column nl found_id (w @ [ch]) s)"

definition body_insert_text :: "nat \<Rightarrow> string \<Rightarrow> text_outcome" where
  "body_insert_text len_max s = text_loop len_max newline 0 0 False [] s"

text \<open>The text written, the number of lines, and whether the encoded form has keywords.\<close>

function binary_loop :: "string \<Rightarrow> string \<Rightarrow> nat \<Rightarrow> bool \<Rightarrow> (string \<times> nat \<times> bool) res" where
  "binary_loop s w nl kw =
     (let buf = take 45 s in
      if buf = [] then Inr (w, nl, kw)
      else bindE (encode_line buf (length buf)) (\<lambda>line.
             binary_loop (drop 45 s) (w @ line) (nl + 1) (kw \<or> check_id_keywords line)))"
  by pat_completeness auto
termination
  by (relation "measure (\<lambda>(s, w, nl, kw). length s)") auto

declare binary_loop.simps [simp del]

definition body_insert_binary :: "string \<Rightarrow> (string \<times> nat \<times> bool) res" where
  "body_insert_binary s = bindE (binary_loop s [] 0 False) (\<lambda>(w, nl, kw). Inr (w @ '' '' @ [newline], nl + 1, kw))"

text \<open>Writing at a position of a file that may hold something there already.\<close>

definition write_at :: "nat \<Rightarrow> string \<Rightarrow> string \<Rightarrow> string" where
  "write_at pos file s = take pos file @ s @ drop (pos + length s) file"

text \<open>
  \<open>body_insert\<close> into an output file whose position is at its end: the new value of \<open>*binary\<close>,
  the contents of the output file, and the number of lines and the keyword flag. After a text
  attempt the file still has the text that was written; it is read back from the saved
  position, followed by the rest of the input, and encoded over it.
\<close>

definition body_insert ::
  "bool res \<Rightarrow> nat \<Rightarrow> bool \<Rightarrow> string \<Rightarrow> string \<Rightarrow> (bool \<times> string \<times> nat \<times> bool) res" where
  "body_insert allowed len_max binary inp out =
     (if binary then
        bindE (body_insert_binary inp) (\<lambda>(w, nl, kw). Inr (True, write_at (length out) out w, nl, kw))
      else
        (case body_insert_text len_max inp of
           Text_ok nl kw w \<Rightarrow> Inr (False, write_at (length out) out w, nl, kw)
         | Text_binary w rest \<Rightarrow>
             bindE allowed (\<lambda>ok.
             if \<not> ok then Inl (Failed Body_is_binary)
             else
               let file = write_at (length out) out w;
                   tmp = drop (length out) file @ rest in
               bindE (body_insert_binary tmp) (\<lambda>(e, nl, kw).
                 Inr (True, write_at (length out) file e, nl, kw)))))"

text \<open>\<open>encode_file\<close>: the contents of the new file.\<close>

definition encode_file :: "string \<Rightarrow> string res" where
  "encode_file fin = encode_stream fin []"

definition output_body_line_binary :: "string \<Rightarrow> string" where
  "output_body_line_binary l = decode_line (c_str l)"

section \<open>Decoding inverts encoding\<close>

lemma char_int_range: "- 128 \<le> char_int c" "char_int c < 128"
  using signed_take_bit_int_greater_eq_minus_exp [of 7 "of_char c"] signed_take_bit_int_less_exp [of 7 "of_char c"]
  by (simp_all add: char_int_def)

lemma int_char_take_bit: "int_char n = int_char m \<longleftrightarrow> take_bit 8 n = take_bit 8 m"
  by (simp add: int_char_def char_of_eq_iff of_char_of take_bit_eq_mod)

lemma int_char_char_int [simp]: "int_char (char_int c) = c"
proof -
  have "take_bit 8 (char_int c) = take_bit 8 (of_char c)"
    by (simp add: char_int_def take_bit_signed_take_bit)
  then have "int_char (char_int c) = int_char (of_char c)" by (simp only: int_char_take_bit)
  then show ?thesis by (simp add: int_char_def)
qed

lemma char_int_int_char:
  assumes "0 \<le> n" and "n < 128"
  shows "char_int (int_char n) = n"
proof -
  have "of_char (int_char n) = n" using assms by (simp add: int_char_def of_char_of)
  then show ?thesis using assms by (simp add: char_int_def signed_take_bit_int_eq_self_iff)
qed

lemma and_63: "(n :: int) AND 63 = take_bit 6 n"
  by (simp add: take_bit_eq_mask mask_eq_exp_minus_1)

lemma UUDEC_UUENC [simp]: "UUDEC (char_int (int_char (UUENC n))) = take_bit 6 n"
proof -
  have "0 \<le> take_bit 6 n" by simp
  moreover have "take_bit 6 n < 64" using take_bit_int_less_exp [of 6 n] by simp
  ultimately have "char_int (int_char (UUENC n)) = take_bit 6 n + 32"
    unfolding UUENC_def and_63 by (intro char_int_int_char) auto
  then show ?thesis by (simp add: UUDEC_def and_63)
qed

lemma less_8_cases: "n < 8 \<Longrightarrow> n \<in> {0, 1, 2, 3, 4, 5, 6, 7 :: nat}"
  by auto

lemma decode_bits:
  fixes a b c :: int
  shows "take_bit 8 (push_bit 2 (take_bit 6 (drop_bit 2 a)) OR
           drop_bit 4 (take_bit 6 ((push_bit 4 a AND 48) OR (drop_bit 4 b AND 15)))) = take_bit 8 a"
    and "take_bit 8 (push_bit 4 (take_bit 6 ((push_bit 4 a AND 48) OR (drop_bit 4 b AND 15))) OR
           drop_bit 2 (take_bit 6 ((push_bit 2 b AND 60) OR (drop_bit 6 c AND 3)))) = take_bit 8 b"
    and "take_bit 8 (push_bit 6 (take_bit 6 ((push_bit 2 b AND 60) OR (drop_bit 6 c AND 3))) OR
           take_bit 6 (c AND 63)) = take_bit 8 c"
  proof -
  note suc = numeral_2_eq_2 [symmetric] numeral_3_eq_3 [symmetric]
  show "take_bit 8 (push_bit 2 (take_bit 6 (drop_bit 2 a)) OR
           drop_bit 4 (take_bit 6 ((push_bit 4 a AND 48) OR (drop_bit 4 b AND 15)))) = take_bit 8 a"
    by (rule bit_eqI) (auto simp: bit_simps suc dest!: less_8_cases)
  show "take_bit 8 (push_bit 4 (take_bit 6 ((push_bit 4 a AND 48) OR (drop_bit 4 b AND 15))) OR
           drop_bit 2 (take_bit 6 ((push_bit 2 b AND 60) OR (drop_bit 6 c AND 3)))) = take_bit 8 b"
    by (rule bit_eqI) (auto simp: bit_simps suc dest!: less_8_cases)
  show "take_bit 8 (push_bit 6 (take_bit 6 ((push_bit 2 b AND 60) OR (drop_bit 6 c AND 3))) OR
           take_bit 6 (c AND 63)) = take_bit 8 c"
    by (rule bit_eqI) (auto simp: bit_simps suc dest!: less_8_cases)
qed

lemma int_char_eqI: "take_bit 8 n = take_bit 8 (char_int ch) \<Longrightarrow> int_char n = ch"
  using int_char_take_bit [of n "char_int ch"] by simp

lemma decode_encode:
  assumes "encode a b c = [w, x, y, z]"
  shows "decode w x y z = [a, b, c]"
proof -
  let ?a = "char_int a" and ?b = "char_int b" and ?c = "char_int c"
  have t: "UUDEC (char_int w) = take_bit 6 (drop_bit 2 ?a)"
    "UUDEC (char_int x) = take_bit 6 ((push_bit 4 ?a AND 48) OR (drop_bit 4 ?b AND 15))"
    "UUDEC (char_int y) = take_bit 6 ((push_bit 2 ?b AND 60) OR (drop_bit 6 ?c AND 3))"
    "UUDEC (char_int z) = take_bit 6 (?c AND 63)"
    using assms by (auto simp: encode_def Let_def simp del: take_bit_and take_bit_or)
  show ?thesis
    unfolding decode_def Let_def t
    by (intro arg_cong2 [where f = Cons] int_char_eqI decode_bits refl)
qed

lemma encode_obtain:
  obtains w x y z where "encode a b c = [w, x, y, z]"
  by (simp add: encode_def Let_def)

lemma decode_loop_encode_loop:
  "\<exists>pad. decode_loop n (n + length s) (encode_loop s @ rest) = s @ pad"
proof (induction s arbitrary: n rule: encode_loop.induct)
  case (1 a b c s)
  obtain w x y z where e: "encode a b c = [w, x, y, z]" by (rule encode_obtain)
  obtain pad where "decode_loop (n + 3) (n + 3 + length s) (encode_loop s @ rest) = s @ pad"
    using "1.IH" by blast
  then show ?case
    using e decode_encode [OF e]
    by (subst decode_loop.simps) (simp add: numeral_2_eq_2 numeral_3_eq_3 eval_nat_numeral)
next
  case (2 a b)
  obtain w x y z where e: "encode a b (CHR 0x00) = [w, x, y, z]" by (rule encode_obtain)
  show ?case
    using e decode_encode [OF e]
    by (subst decode_loop.simps) (simp add: numeral_2_eq_2 numeral_3_eq_3 decode_loop.simps [of "n + 3" "n + 2" for n])
next
  case (3 a)
  obtain w x y z where e: "encode a (CHR 0x00) (CHR 0x00) = [w, x, y, z]" by (rule encode_obtain)
  show ?case
    using e decode_encode [OF e]
    by (subst decode_loop.simps) (simp add: numeral_2_eq_2 numeral_3_eq_3 decode_loop.simps [of "n + 3" "n + 1" for n])
qed (simp add: decode_loop.simps)

text \<open>Encoded characters are printable: no newline, no NUL and no \<open>^A\<close>.\<close>

lemma int_char_UUENC:
  "int_char (UUENC n) \<noteq> newline" "int_char (UUENC n) \<noteq> NUL" "int_char (UUENC n) \<noteq> ctrl_A"
proof -
  have "char_int (int_char (UUENC n)) = take_bit 6 n + 32"
    unfolding UUENC_def and_63 using take_bit_int_less_exp [of 6 n] by (intro char_int_int_char) auto
  moreover have "char_int newline = 10" "char_int NUL = 0" "char_int ctrl_A = 1"
    by (simp_all add: char_int_def signed_take_bit_int_eq_self_iff)
  moreover have "0 \<le> take_bit 6 n" by simp
  ultimately show "int_char (UUENC n) \<noteq> newline" "int_char (UUENC n) \<noteq> NUL" "int_char (UUENC n) \<noteq> ctrl_A"
    by force+
qed

lemma encode_chars: "x \<in> set (encode a b c) \<Longrightarrow> \<exists>n. x = int_char (UUENC n)"
  by (auto simp: encode_def Let_def)

lemma encode_loop_chars: "x \<in> set (encode_loop s) \<Longrightarrow> \<exists>n. x = int_char (UUENC n)"
  by (induction s rule: encode_loop.induct) (auto dest: encode_chars)

lemma length_encode [simp]: "length (encode a b c) = 4"
  by (simp add: encode_def Let_def)

lemma length_encode_loop: "length s \<le> length (encode_loop s)"
  by (induction s rule: encode_loop.induct) auto

text \<open>A line written by \<open>encode_line\<close>: \<open>enc_text s\<close> and a newline.\<close>

definition enc_text :: "string \<Rightarrow> string" where
  "enc_text s = int_char (UUENC (int (length s))) # encode_loop s"

lemma encode_line_text: "length s \<le> 60 \<Longrightarrow> encode_line s (length s) = Inr (enc_text s @ [newline])"
  by (simp add: encode_line_def enc_text_def)

lemma enc_text_plain: "plain_line (enc_text s)" and enc_text_line_type: "line_type (enc_text s) = NUL"
  using int_char_UUENC encode_loop_chars
  by (fastforce simp: plain_line_def enc_text_def line_type_def)+

lemma decode_enc_text: "length s \<le> 60 \<Longrightarrow> decode_line (enc_text s) = s"
proof -
  assume s: "length s \<le> 60"
  then have "take_bit 6 (int (length s)) = int (length s)"
    by (simp add: take_bit_int_eq_self_iff)
  then have count: "UUDEC (char_int (char_at (enc_text s) 0)) = int (length s)"
    by (simp add: enc_text_def)
  obtain pad where "decode_loop 0 (length s) (encode_loop s) = s @ pad"
    using decode_loop_encode_loop [of 0 s "[]"] by auto
  then show ?thesis
    unfolding decode_line_def count Let_def by (simp add: enc_text_def)
qed

lemma c_str_encoded: "plain_line l \<Longrightarrow> c_str l = l"
  by (auto simp: c_str_def plain_line_def takeWhile_eq_all_conv)

lemma output_enc_text: "length s \<le> 60 \<Longrightarrow> output_body_line_binary (enc_text s) = s"
  by (simp add: output_body_line_binary_def c_str_encoded enc_text_plain decode_enc_text)

text \<open>The chunks of the input and the lines that encode them.\<close>

function chunks :: "string \<Rightarrow> string list" where
  "chunks s = (if s = [] then [] else take 45 s # chunks (drop 45 s))"
  by pat_completeness auto
termination by (relation "measure length") auto

declare chunks.simps [simp del]

lemma chunks_Nil [simp]: "chunks [] = []"
  by (simp add: chunks.simps)

lemma chunks_step: "s \<noteq> [] \<Longrightarrow> chunks s = take 45 s # chunks (drop 45 s)"
  by (simp add: chunks.simps [of s])

lemma concat_chunks [simp]: "concat (chunks s) = s"
proof (induction s rule: chunks.induct)
  case (1 s)
  then show ?case by (cases "s = []") (auto simp: chunks_step)
qed

lemma chunks_length: "c \<in> set (chunks s) \<Longrightarrow> length c \<le> 45"
proof (induction s rule: chunks.induct)
  case (1 s)
  then show ?case by (cases "s = []") (auto simp: chunks_step)
qed

lemma length_unlines_enc: "(\<And>c. c \<in> set cs \<Longrightarrow> f c = enc_text c) \<Longrightarrow> length (concat cs) \<le> length (unlines (map f cs))"
proof (induction cs)
  case (Cons c cs)
  have "length c \<le> length (f c)" using Cons.prems [of c] length_encode_loop [of c] by (simp add: enc_text_def)
  then show ?case using Cons.IH Cons.prems by fastforce
qed simp

lemma binary_loop_chunks:
  "binary_loop s w nl kw =
     Inr (w @ unlines (map enc_text (chunks s)), nl + length (chunks s),
          kw \<or> (\<exists>c \<in> set (chunks s). check_id_keywords (enc_text c @ [newline])))"
proof (induction s w nl kw rule: binary_loop.induct)
  case (1 s w nl kw)
  show ?case
  proof (cases "s = []")
    case True
    then show ?thesis by (simp add: binary_loop.simps)
  next
    case False
    have e: "encode_line (take 45 s) (length (take 45 s)) = Inr (enc_text (take 45 s) @ [newline])"
      by (rule encode_line_text) simp
    show ?thesis
      using "1.IH" [OF refl _ e] False e
      by (subst binary_loop.simps) (simp add: Let_def chunks_step)
  qed
qed

lemma body_insert_binary_chunks:
  "body_insert_binary s =
     Inr (unlines (map enc_text (chunks s) @ ['' '']), length (chunks s) + 1,
          \<exists>c \<in> set (chunks s). check_id_keywords (enc_text c @ [newline]))"
  by (simp add: body_insert_binary_def binary_loop_chunks)

lemma enc_text_Nil: "enc_text [] = '' ''"
  by code_simp

text \<open>\<open>encode_stream\<close>, with which \<open>delta\<close> prepares a file for \<open>diff\<close>, writes the same text.\<close>

lemma encode_stream_chunks: "encode_stream s w = Inr (w @ unlines (map enc_text (chunks s) @ ['' '']))"
proof (induction s w rule: encode_stream.induct)
  case (1 s w)
  have e: "encode_line (take 45 s) (length (take 45 s)) = Inr (enc_text (take 45 s) @ [newline])"
    by (rule encode_line_text) simp
  show ?case
  proof (cases "s = []")
    case True
    then show ?thesis using e by (subst encode_stream.simps) (simp add: Let_def enc_text_Nil)
  next
    case False
    then show ?thesis
      using "1.IH" [OF refl e] e by (subst encode_stream.simps) (simp add: Let_def chunks_step)
  qed
qed

lemma encoded_lines_decode:
  "list_all (\<lambda>l. plain_line l \<and> line_type l = NUL) (map enc_text (chunks s) @ ['' ''])"
  "concat (map output_body_line_binary (map enc_text (chunks s) @ ['' ''])) = s"
proof -
  show "list_all (\<lambda>l. plain_line l \<and> line_type l = NUL) (map enc_text (chunks s) @ ['' ''])"
    using enc_text_plain [of "[]"] enc_text_line_type [of "[]"]
    by (auto simp: list_all_iff enc_text_plain enc_text_line_type enc_text_Nil)
  have "map output_body_line_binary (map enc_text (chunks s)) = chunks s"
    using chunks_length [of _ s] by (auto intro!: map_idI output_enc_text simp: o_def) fastforce
  moreover have "output_body_line_binary '' '' = []"
    using output_enc_text [of "[]"] by (simp add: enc_text_Nil)
  ultimately show "concat (map output_body_line_binary (map enc_text (chunks s) @ ['' ''])) = s"
    by (simp del: map_map)
qed

text \<open>
  C12. Inserting a file in binary form always succeeds. What it writes is a sequence of lines,
  as many as it reports, none of which holds a NUL or can be taken for a control line; the
  output function for encoded bodies turns each line back into its part of the file, and
  together they are the file.
\<close>

theorem binary_body_decodes:
  "\<exists>ls nl kw. body_insert_binary s = Inr (unlines ls, nl, kw) \<and> length ls = nl
     \<and> list_all (\<lambda>l. plain_line l \<and> line_type l = NUL) ls
     \<and> concat (map output_body_line_binary ls) = s"
  using body_insert_binary_chunks [of s] encoded_lines_decode [of s]
  by (intro exI [of _ "map enc_text (chunks s) @ ['' '']"] exI [of _ "length (chunks s) + 1"] exI conjI) (assumption | simp)+

text \<open>The encoded form is a third longer, in groups of four characters between 32 and 95.\<close>

lemma char_int_UUENC: "char_int (int_char (UUENC n)) = take_bit 6 n + 32"
  unfolding UUENC_def and_63 using take_bit_int_less_exp [of 6 n] by (intro char_int_int_char) auto

lemma UUENC_range: "32 \<le> char_int (int_char (UUENC n)) \<and> char_int (int_char (UUENC n)) \<le> 95"
  unfolding char_int_UUENC using take_bit_int_less_exp [of 6 n] by simp

lemma encode_loop_length: "length (encode_loop s) = 4 * ((length s + 2) div 3)"
proof (induction s rule: encode_loop.induct)
  case (1 a b c s)
  have "(length (a # b # c # s) + 2) div 3 = 1 + (length s + 2) div 3" by simp
  with 1 show ?case by simp
qed simp_all

lemma enc_text_bounds:
  "length (enc_text s) = 1 + 4 * ((length s + 2) div 3)"
  "\<forall>c \<in> set (enc_text s). 32 \<le> char_int c \<and> char_int c \<le> 95"
  using UUENC_range encode_loop_chars [of _ s] by (auto simp: enc_text_def encode_loop_length)

lemma length_chunks: "length (chunks s) = (length s + 44) div 45"
proof (induction s rule: chunks.induct)
  case (1 s)
  show ?case
  proof (cases "s = []")
    case False
    have "(length s + 44) div 45 = 1 + (length s - 45 + 44) div 45" if "length s \<ge> 45"
      using that div_add_self2 [of 45 "length s - 1"] by simp
    moreover have "(length s + 44) div 45 = 1" if "length s < 45" using that False by (cases s) auto
    ultimately show ?thesis using 1 False by (cases "length s \<ge> 45") (simp_all add: chunks_step)
  qed simp
qed

text \<open>
  C18. The size of the binary form: a file of \<open>n\<close> characters takes \<open>n / 45\<close> lines, rounded up, and
  one more; every line has at most 61 characters, which is far below the shortest limit on lines and fits the
  buffer of the encoder, and every character is printable, between 32 and 95, whatever the file
  holds.
\<close>

theorem binary_body_bounds:
  "\<exists>ls kw. body_insert_binary s = Inr (unlines ls, (length s + 44) div 45 + 1, kw)
     \<and> length ls = (length s + 44) div 45 + 1
     \<and> list_all (\<lambda>l. length l \<le> 61 \<and> list_all (\<lambda>c. 32 \<le> char_int c \<and> char_int c \<le> 95) l) ls
     \<and> length (unlines ls) \<le> 62 * ((length s + 44) div 45) + 2"
proof -
  let ?ls = "map enc_text (chunks s)"
  have l: "length (enc_text c) \<le> 61" if "c \<in> set (chunks s)" for c
    unfolding enc_text_bounds(1) using chunks_length [OF that] by simp
  have c: "list_all (\<lambda>c. 32 \<le> char_int c \<and> char_int c \<le> 95) (enc_text c)" for c
    using enc_text_bounds(2) by (simp add: list_all_iff)
  have "list_all (\<lambda>l. length l \<le> 61 \<and> list_all (\<lambda>c. 32 \<le> char_int c \<and> char_int c \<le> 95) l) (?ls @ ['' ''])"
    using l c enc_text_bounds(2) [of "[]"] by (auto simp: list_all_iff enc_text_Nil)
  moreover have "length (unlines ?ls) \<le> 62 * length (chunks s)"
  proof -
    have "\<forall>c \<in> set cs. length (enc_text c) \<le> 61 \<Longrightarrow> length (unlines (map enc_text cs)) \<le> 62 * length cs" for cs
      by (induction cs) auto
    then show ?thesis using l by blast
  qed
  ultimately show ?thesis
    unfolding body_insert_binary_chunks
    by (intro exI [of _ "?ls @ ['' '']"] exI conjI) (auto simp: length_chunks)
qed

section \<open>What counts as text\<close>

definition text_line_ok :: "nat \<Rightarrow> string \<Rightarrow> bool" where
  "text_line_ok len_max l \<longleftrightarrow> char_at l 0 \<noteq> ctrl_A \<and> (len_max = 0 \<or> l = [] \<or> 2 * length l < len_max)"

fun text_rest :: "nat \<Rightarrow> string \<Rightarrow> string \<Rightarrow> bool" where
  "text_rest len_max p [] = (p = [])"
| "text_rest len_max p (c # s) =
     (if c = newline then text_line_ok len_max p \<and> text_rest len_max [] s
      else text_rest len_max (p @ [c]) s)"

definition is_text :: "nat \<Rightarrow> string \<Rightarrow> bool" where
  "is_text len_max s = text_rest len_max [] s"

lemma append_sep_eq: "x \<notin> set a \<Longrightarrow> x \<notin> set b \<Longrightarrow> a @ x # s = b @ x # t \<longleftrightarrow> a = b \<and> s = t"
proof (induction a arbitrary: b)
  case Nil
  then show ?case by (cases b) auto
next
  case (Cons y a)
  then show ?case by (cases b) auto
qed

lemma unlines_no_newline: "newline \<notin> set (unlines ls) \<Longrightarrow> ls = []"
  by (cases ls) auto

lemma text_rest_unlines:
  assumes "newline \<notin> set p"
  shows "text_rest len_max p s \<longleftrightarrow>
     (\<exists>ls. p @ s = unlines ls \<and> (\<forall>l \<in> set ls. newline \<notin> set l \<and> text_line_ok len_max l))"
  using assms
proof (induction s arbitrary: p)
  case Nil
  then show ?case by (auto intro!: exI [of _ "[]"] dest: unlines_no_newline)
next
  case (Cons c s)
  show ?case
  proof (cases "c = newline")
    case True
    have "(\<exists>ls. p @ newline # s = unlines ls \<and> (\<forall>l \<in> set ls. newline \<notin> set l \<and> text_line_ok len_max l)) \<longleftrightarrow>
          text_line_ok len_max p \<and> (\<exists>ls. s = unlines ls \<and> (\<forall>l \<in> set ls. newline \<notin> set l \<and> text_line_ok len_max l))"
      (is "?L \<longleftrightarrow> ?R")
    proof
      assume ?L
      then obtain k where k: "p @ newline # s = unlines k" "\<forall>l \<in> set k. newline \<notin> set l \<and> text_line_ok len_max l"
        by blast
      then obtain l ls where ls: "p @ newline # s = l @ newline # unlines ls" "newline \<notin> set l" "text_line_ok len_max l"
        "\<forall>l \<in> set ls. newline \<notin> set l \<and> text_line_ok len_max l"
        by (cases k) auto
      then have "p = l" "s = unlines ls" using Cons.prems by (simp_all add: append_sep_eq)
      then show ?R using ls by auto
    next
      assume ?R
      then obtain ls where "text_line_ok len_max p" "s = unlines ls" "\<forall>l \<in> set ls. newline \<notin> set l \<and> text_line_ok len_max l"
        by blast
      then show ?L using Cons.prems by (intro exI [of _ "p # ls"]) auto
    qed
    then show ?thesis using True Cons.IH [of "[]"] by simp
  next
    case False
    then show ?thesis using Cons.IH [of "p @ [c]"] Cons.prems by simp
  qed
qed

lemma is_text_unlines:
  "is_text len_max s \<longleftrightarrow> (\<exists>ls. s = unlines ls \<and> (\<forall>l \<in> set ls. newline \<notin> set l \<and> text_line_ok len_max l))"
  using text_rest_unlines [of "[]"] by (simp add: is_text_def)

text \<open>A keyword letter between percent signs; the character before the text is \<open>lastc\<close>.\<close>

fun kw_in :: "char \<Rightarrow> string \<Rightarrow> bool" where
  "kw_in lastc [] = False"
| "kw_in lastc (ch # s) =
     (lastc = CHR ''%'' \<and> is_id_keyword_letter ch \<and> s \<noteq> [] \<and> hd s = CHR ''%'' \<or> kw_in ch s)"

definition has_keyword :: "string \<Rightarrow> bool" where
  "has_keyword s = kw_in newline s"

lemma kw_in_iff:
  "kw_in lastc s \<longleftrightarrow>
     (\<exists>a x b. lastc # s = a @ CHR ''%'' # x # CHR ''%'' # b \<and> is_id_keyword_letter x)"
proof (induction s arbitrary: lastc)
  case (Cons ch s)
  have "(\<exists>a x b. lastc # ch # s = a @ CHR ''%'' # x # CHR ''%'' # b \<and> is_id_keyword_letter x) \<longleftrightarrow>
        lastc = CHR ''%'' \<and> is_id_keyword_letter ch \<and> s \<noteq> [] \<and> hd s = CHR ''%''
        \<or> (\<exists>a x b. ch # s = a @ CHR ''%'' # x # CHR ''%'' # b \<and> is_id_keyword_letter x)" (is "?L \<longleftrightarrow> ?R")
  proof
    assume ?L
    then obtain a x b where "lastc # ch # s = a @ CHR ''%'' # x # CHR ''%'' # b" "is_id_keyword_letter x" by blast
    then show ?R by (cases a) auto
  next
    assume ?R
    then show ?L
    proof
      assume "lastc = CHR ''%'' \<and> is_id_keyword_letter ch \<and> s \<noteq> [] \<and> hd s = CHR ''%''"
      then obtain t where "lastc # ch # s = [] @ CHR ''%'' # ch # CHR ''%'' # t" "is_id_keyword_letter ch"
        by (cases s) auto
      then show ?L by blast
    next
      assume "\<exists>a x b. ch # s = a @ CHR ''%'' # x # CHR ''%'' # b \<and> is_id_keyword_letter x"
      then show ?L by (metis append_Cons)
    qed
  qed
  then show ?case using Cons.IH by simp
qed simp

lemma has_keyword_iff:
  "has_keyword s \<longleftrightarrow> (\<exists>a x b. s = a @ CHR ''%'' # x # CHR ''%'' # b \<and> is_id_keyword_letter x)"
proof -
  have "(\<exists>a x b. newline # s = a @ CHR ''%'' # x # CHR ''%'' # b \<and> is_id_keyword_letter x) \<longleftrightarrow>
        (\<exists>a x b. s = a @ CHR ''%'' # x # CHR ''%'' # b \<and> is_id_keyword_letter x)"
    by (auto simp: Cons_eq_append_conv)
  then show ?thesis by (simp add: has_keyword_def kw_in_iff)
qed

lemma text_rest_prefix:
  "text_rest len_max p s \<Longrightarrow> p \<noteq> [] \<Longrightarrow> char_at p 0 \<noteq> ctrl_A \<and> (len_max = 0 \<or> 2 * length p < len_max)"
proof (induction s arbitrary: p)
  case (Cons c s)
  show ?case
  proof (cases "c = newline")
    case False
    then have "char_at (p @ [c]) 0 \<noteq> ctrl_A \<and> (len_max = 0 \<or> 2 * length (p @ [c]) < len_max)"
      using Cons.IH [of "p @ [c]"] Cons.prems(1) by auto
    then show ?thesis using Cons.prems(2) by (cases p) auto
  qed (use Cons.prems in \<open>auto simp: text_line_ok_def\<close>)
qed simp

definition line_end :: "string \<Rightarrow> char" where
  "line_end p = (if p = [] then newline else last p)"

lemma line_end_newline: "newline \<notin> set p \<Longrightarrow> line_end p = newline \<longleftrightarrow> p = []"
  by (auto simp: line_end_def) (metis last_in_set)

lemma text_loop_text:
  assumes "newline \<notin> set p" and "column = 2 * (length p - 1)" and "p \<noteq> [] \<longrightarrow> char_at p 0 \<noteq> ctrl_A"
  shows "if text_rest len_max p s
         then text_loop len_max (line_end p) column nl kw w s =
                Text_ok (nl + count_list s newline) (kw \<or> kw_in (line_end p) s) (w @ s)
         else \<exists>v rest. text_loop len_max (line_end p) column nl kw w s = Text_binary v rest \<and> v @ rest = w @ s"
  using assms
proof (induction s arbitrary: p column nl kw w)
  case Nil
  then show ?case by (simp add: line_end_newline)
next
  case (Cons ch s)
  note le = line_end_newline [OF Cons.prems(1)]
  let ?stop = "p = [] \<and> ch = ctrl_A \<or> p \<noteq> [] \<and> \<not> check_line_len len_max (2 * length p)"
  show ?case
  proof (cases ?stop)
    case True
    then have "\<not> text_rest len_max p (ch # s)"
      using text_rest_prefix [of len_max p "ch # s"] text_rest_prefix [of len_max "[ctrl_A]" s]
      by (auto simp: check_line_len_def)
    then show ?thesis using True le Cons.prems(2) by (cases p) (auto simp: Let_def)
  next
    case False
    define p' where "p' = (if ch = newline then [] else p @ [ch])"
    define nl' where "nl' = (if ch = newline then nl + 1 else nl)"
    define kw' where "kw' = (kw \<or> line_end p = CHR ''%'' \<and> is_id_keyword_letter ch \<and> s \<noteq> [] \<and> hd s = CHR ''%'')"
    define col' where "col' = 2 * (length p' - 1)"
    have end': "line_end p' = ch" by (simp add: p'_def line_end_def)
    have step: "text_loop len_max (line_end p) column nl kw w (ch # s) =
                text_loop len_max ch (if p = [] then 0 else 2 * length p) nl' kw' (w @ [ch]) s"
      using False le Cons.prems(2) by (cases p) (auto simp: Let_def nl'_def kw'_def)
    have col: "ch \<noteq> newline \<Longrightarrow> (if p = [] then 0 else 2 * length p) = col'"
      by (cases p) (auto simp: col'_def p'_def)
    have any: "text_loop len_max newline c nl' kw' (w @ [ch]) s = text_loop len_max newline c' nl' kw' (w @ [ch]) s" for c c'
      by (cases s) (auto simp: Let_def)
    have step': "text_loop len_max (line_end p) column nl kw w (ch # s) =
                text_loop len_max (line_end p') col' nl' kw' (w @ [ch]) s"
      using step col any end' by (cases "ch = newline") auto
    have p': "newline \<notin> set p'" "p' \<noteq> [] \<longrightarrow> char_at p' 0 \<noteq> ctrl_A"
      using Cons.prems False by (cases p; auto simp: p'_def)+
    have "text_rest len_max p (ch # s) = text_rest len_max p' s"
      using False Cons.prems(3) by (auto simp: p'_def text_line_ok_def check_line_len_def)
    then show ?thesis
      using Cons.IH [OF p'(1) refl p'(2), of nl' kw' "w @ [ch]"] step' end'
      unfolding col'_def [symmetric] by (auto simp: nl'_def kw'_def split: if_splits)
  qed
qed

lemma write_at_end [simp]: "write_at (length out) out s = out @ s"
  by (simp add: write_at_def)

lemma body_insert_cases:
  "body_insert (Inr True) len_max False s out =
     (if is_text len_max s
      then Inr (False, out @ s, count_list s newline, has_keyword s)
      else bindE (body_insert_binary s) (\<lambda>(w, nl, kw). Inr (True, out @ w, nl, kw)))"
proof -
  have loop: "if is_text len_max s
         then body_insert_text len_max s = Text_ok (count_list s newline) (has_keyword s) s
         else \<exists>v rest. body_insert_text len_max s = Text_binary v rest \<and> v @ rest = s"
    using text_loop_text [of "[]" 0 len_max s 0 False "[]"]
    by (auto simp: body_insert_text_def is_text_def has_keyword_def line_end_def split: if_splits)
  show ?thesis
  proof (cases "is_text len_max s")
    case True
    then show ?thesis using loop by (simp add: body_insert_def)
  next
    case False
    then obtain v rest where v: "body_insert_text len_max s = Text_binary v rest" "v @ rest = s"
      using loop by auto
    let ?e = "unlines (map enc_text (chunks s) @ ['' ''])"
    have "length s \<le> length ?e"
      using length_unlines_enc [of "chunks s" enc_text] by simp
    then have "write_at (length out) (out @ v) ?e = out @ ?e"
      using v(2) by (auto simp: write_at_def)
    then show ?thesis
      using False v body_insert_binary_chunks [of s] by (simp add: body_insert_def Let_def)
  qed
qed

text \<open>
  The manual calls a file text when every line ends in a newline, does not start with \<open>^A\<close> and, if a maximum
  is configured, has no more than that many characters.
\<close>

definition manual_text :: "nat \<Rightarrow> string \<Rightarrow> bool" where
  "manual_text len_max s \<longleftrightarrow>
     (\<exists>ls. s = unlines ls \<and> (\<forall>l \<in> set ls. newline \<notin> set l \<and> char_at l 0 \<noteq> ctrl_A \<and> (len_max = 0 \<or> length l \<le> len_max)))"

lemma is_text_manual: "is_text len_max s \<Longrightarrow> manual_text len_max s"
  unfolding is_text_unlines manual_text_def text_line_ok_def by fastforce

lemma manual_is_text:
  "manual_text m s \<Longrightarrow> len_max = 0 \<and> m = 0 \<or> 0 < m \<and> 2 * m < len_max \<Longrightarrow> is_text len_max s"
  unfolding is_text_unlines manual_text_def text_line_ok_def by fastforce

text \<open>
  The column is counted twice for each character: a line of 6 characters is no text under a maximum of 10.
\<close>

lemma column_counted_twice: "manual_text 10 (''abcdef'' @ [newline]) \<and> \<not> is_text 10 (''abcdef'' @ [newline])"
proof
  show "manual_text 10 (''abcdef'' @ [newline])"
    unfolding manual_text_def by (rule exI [of _ "[''abcdef'']"]) simp
  show "\<not> is_text 10 (''abcdef'' @ [newline])" by code_simp
qed

text \<open>
  C13. Inserting a file that is not forced to be binary. Either the file is appended as it is, with the number
  of its lines and whether it has an id keyword, or it is encoded as a whole, the part already copied as text
  included, and nothing of the text attempt stays behind in the output. A file that the manual does not
  call text is always encoded. Without a maximum length, which is the default, every file that it does call text
  is appended; with a maximum this is certain only for files whose lines are shorter than half of it
  (\<open>column_counted_twice\<close>).
\<close>

theorem body_insert_text_or_binary:
  "\<exists>text. body_insert (Inr True) len_max False s out =
       (if text then Inr (False, out @ s, count_list s newline, has_keyword s)
        else bindE (body_insert_binary s) (\<lambda>(w, nl, kw). Inr (True, out @ w, nl, kw)))
     \<and> (text \<longrightarrow> manual_text len_max s)
     \<and> (len_max = 0 \<and> manual_text 0 s \<longrightarrow> text)
     \<and> (\<forall>m > 0. 2 * m < len_max \<and> manual_text m s \<longrightarrow> text)"
  using body_insert_cases [of len_max s out] is_text_manual [of len_max s] manual_is_text [of _ s len_max]
  by (intro exI [of _ "is_text len_max s"]) auto

theorem body_insert_text_or_binary_witness:
  "body_insert (Inr True) 0 False (''ab'' @ [newline]) ''x'' = Inr (False, ''xab'' @ [newline], 1, False)"
proof -
  have "manual_text 0 (''ab'' @ [newline])"
    unfolding manual_text_def by (rule exI [of _ "[''ab'']"]) simp
  moreover have "has_keyword (''ab'' @ [newline]) = False" "count_list (''ab'' @ [newline]) newline = 1" by code_simp+
  ultimately show ?thesis using body_insert_text_or_binary [of 0 "''ab'' @ [newline]" "''x''"] by auto
qed

end
