(* ===== verification/Sccs_File.thy ===== *)
theory Sccs_File
  imports Names Version_Select Pfile Encoding
begin

text \<open>
  \<open>class sccs_file\<close> (sccsfile.h, sccsfile.cc): the flags and the other parts of an s-file in
  memory, the setting of flags by the constructor, and the searches for deltas.

  A \<open>string\<close> pointer of the flags is an optional string. The body of the file is the list of its
  lines. \<open>substitued_flag_letters\<close> is a \<open>std::set<char>\<close>, kept as the ascending list of its
  elements. A null pointer given to the constructor of a C++ string is \<open>Fatal\<close>.
\<close>

section \<open>The object\<close>

datatype sccs_file_open_mode = READ | UPDATE | CREATE | FIX_CHECKSUM

record sccs_file_flags =
  fl_type :: "string option"
  mr_checker :: "string option"
  no_id_keywords_is_fatal :: bool
  fl_branch :: bool
  fl_module :: "string option"
  fl_floor :: release
  fl_ceiling :: release
  default_sid :: sid
  null_deltas :: bool
  joint_edit :: bool
  locked :: release_list
  all_locked :: bool
  user_def :: "string option"
  reserved :: "string option"
  fl_encoded :: bool
  executable :: bool
  flag_letters :: "char list"

record sccs_file =
  sf_flags :: sccs_file_flags
  sf_name :: sccs_name
  checksum_valid :: bool
  sf_mode :: sccs_file_open_mode
  xfile_created :: bool
  edit_mode_ok :: bool
  sfile_executable :: bool
  sf_table :: delta_table
  sf_body :: "string list"
  users :: "string list"
  sf_comments :: "string list"

definition flags_default :: sccs_file_flags where
  "flags_default =
     \<lparr>fl_type = None, mr_checker = None, no_id_keywords_is_fatal = False, fl_branch = False,
      fl_module = None, fl_floor = release_default, fl_ceiling = release_default,
      default_sid = null_sid, null_deltas = False, joint_edit = False, locked = [],
      all_locked = False, user_def = None, reserved = None, fl_encoded = False,
      executable = False, flag_letters = []\<rparr>"

text \<open>The state after the initialisers of the constructor.\<close>

definition file_start :: "sccs_name \<Rightarrow> sccs_file_open_mode \<Rightarrow> sccs_file" where
  "file_start n m =
     \<lparr>sf_flags = flags_default, sf_name = n, checksum_valid = False, sf_mode = m, xfile_created = False,
      edit_mode_ok = True, sfile_executable = False, sf_table = table_empty, sf_body = [],
      users = [], sf_comments = []\<rparr>"

definition edit_mode_permitted :: "sccs_file \<Rightarrow> bool \<Rightarrow> unit res" where
  "edit_mode_permitted f editing =
     (if editing \<and> \<not> edit_mode_ok f then Inl (Failed Bitkeeper_file) else Inr ())"

definition get_module_name :: "sccs_file \<Rightarrow> string" where
  "get_module_name f = (case fl_module (sf_flags f) of Some m \<Rightarrow> m | None \<Rightarrow> gname (sf_name f))"

section \<open>Flags\<close>

definition need_arg :: "string option \<Rightarrow> string res" where
  "need_arg a = (case a of Some s \<Rightarrow> Inr s | None \<Rightarrow> Inl (Fatal (Message ''null'')))"

text \<open>Insertion into the ordered set of letters; \<open>char\<close> is signed.\<close>

fun insert_letter :: "char \<Rightarrow> char list \<Rightarrow> char list" where
  "insert_letter c [] = [c]"
| "insert_letter c (x # xs) =
     (if c = x then x # xs
      else if char_int c < char_int x then c # x # xs
      else x # insert_letter c xs)"

definition letters_of :: "string \<Rightarrow> char list" where
  "letters_of s = foldl (\<lambda>xs c. insert_letter c xs) [] s"

definition set_mr_checker_flag :: "string \<Rightarrow> sccs_file_flags \<Rightarrow> sccs_file_flags" where
  "set_mr_checker_flag s fl = fl\<lparr>mr_checker := Some s\<rparr>"

definition set_module_flag :: "string \<Rightarrow> sccs_file_flags \<Rightarrow> sccs_file_flags" where
  "set_module_flag s fl = fl\<lparr>fl_module := Some s\<rparr>"

definition set_user_flag :: "string \<Rightarrow> sccs_file_flags \<Rightarrow> sccs_file_flags" where
  "set_user_flag s fl = fl\<lparr>user_def := Some s\<rparr>"

definition set_type_flag :: "string \<Rightarrow> sccs_file_flags \<Rightarrow> sccs_file_flags" where
  "set_type_flag s fl = fl\<lparr>fl_type := Some s\<rparr>"

definition set_reserved_flag :: "string \<Rightarrow> sccs_file_flags \<Rightarrow> sccs_file_flags" where
  "set_reserved_flag s fl = fl\<lparr>reserved := Some s\<rparr>"

definition set_expanded_keyword_flag :: "string \<Rightarrow> sccs_file_flags \<Rightarrow> sccs_file_flags" where
  "set_expanded_keyword_flag s fl = fl\<lparr>flag_letters := letters_of s\<rparr>"

text \<open>The \<open>switch\<close> of the constructor for one flag of the header.\<close>

definition apply_flag :: "sccs_file_flags \<Rightarrow> char \<times> string option \<Rightarrow> sccs_file_flags res" where
  "apply_flag fl setting =
     (case setting of (c, arg) \<Rightarrow>
        if c = CHR ''t'' then bindE (need_arg arg) (\<lambda>a. Inr (set_type_flag a fl))
        else if c = CHR ''v'' then bindE (need_arg arg) (\<lambda>a. Inr (set_mr_checker_flag a fl))
        else if c = CHR ''i'' then Inr (fl\<lparr>no_id_keywords_is_fatal := True\<rparr>)
        else if c = CHR ''b'' then Inr (fl\<lparr>fl_branch := True\<rparr>)
        else if c = CHR ''m'' then bindE (need_arg arg) (\<lambda>a. Inr (set_module_flag a fl))
        else if c = CHR ''f'' then
          let r = release_of_string arg
          in if release_valid r then Inr (fl\<lparr>fl_floor := r\<rparr>) else Inl (Corrupt (Bad_flag c))
        else if c = CHR ''c'' then
          let r = release_of_string arg
          in if release_valid r then Inr (fl\<lparr>fl_ceiling := r\<rparr>) else Inl (Corrupt (Bad_flag c))
        else if c = CHR ''d'' then
          bindE (ASSERT (arg \<noteq> None)) (\<lambda>_.
            let s = sid_of_string (the arg)
            in if sid_valid s then Inr (fl\<lparr>default_sid := s\<rparr>) else Inl (Corrupt (Bad_flag c)))
        else if c = CHR ''n'' then Inr (fl\<lparr>null_deltas := True\<rparr>)
        else if c = CHR ''j'' then Inr (fl\<lparr>joint_edit := True\<rparr>)
        else if c = CHR ''l'' then
          (if arg = Some ''a'' then Inr (fl\<lparr>all_locked := True\<rparr>)
           else bindE (ASSERT (arg \<noteq> None)) (\<lambda>_.
                bindE (release_list_of_string (the arg)) (\<lambda>l. Inr (fl\<lparr>locked := l\<rparr>))))
        else if c = CHR ''q'' then bindE (need_arg arg) (\<lambda>a. Inr (set_user_flag a fl))
        else if c = CHR ''z'' then bindE (need_arg arg) (\<lambda>a. Inr (set_reserved_flag a fl))
        else if c = CHR ''x'' then Inr (fl\<lparr>executable := True\<rparr>)
        else if c = CHR ''y'' then bindE (need_arg arg) (\<lambda>a. Inr (set_expanded_keyword_flag a fl))
        else if c = CHR ''e'' then
          (if arg \<noteq> None \<and> char_at (the arg) 0 = CHR ''1'' then Inr (fl\<lparr>fl_encoded := True\<rparr>)
           else if arg \<noteq> None \<and> char_at (the arg) 0 = CHR ''0'' then Inr (fl\<lparr>fl_encoded := False\<rparr>)
           else Inl (Corrupt (Bad_flag c)))
        else Inl (Corrupt (Bad_flag c)))"

definition apply_flags :: "sccs_file_flags \<Rightarrow> (char \<times> string option) list \<Rightarrow> sccs_file_flags res" where
  "apply_flags = foldE apply_flag"

text \<open>\<open>print_subsituted_flags_list\<close>\<close>

fun print_letters :: "string \<Rightarrow> bool \<Rightarrow> char list \<Rightarrow> string" where
  "print_letters sep first [] = []"
| "print_letters sep first (c # cs) = (if \<not> first then sep else []) @ [c] @ print_letters sep False cs"

definition print_substituted_flags_list :: "sccs_file \<Rightarrow> string \<Rightarrow> string" where
  "print_substituted_flags_list f sep = print_letters sep True (flag_letters (sf_flags f))"

definition is_known_keyword_char :: "char \<Rightarrow> bool" where
  "is_known_keyword_char c \<longleftrightarrow> c \<in> set ''MIRLBSDHTEGUYFPQCZWA'' \<or> c = NUL"

definition branches_allowed :: "sccs_file \<Rightarrow> bool" where
  "branches_allowed f = fl_branch (sf_flags f)"

definition gfile_should_be_executable :: "sccs_file \<Rightarrow> bool" where
  "gfile_should_be_executable f \<longleftrightarrow> sfile_executable f \<or> executable (sf_flags f)"

definition mr_required :: "sccs_file \<Rightarrow> bool" where
  "mr_required f \<longleftrightarrow> mr_checker (sf_flags f) \<noteq> None"

section \<open>Searching\<close>

definition find_delta :: "sccs_file \<Rightarrow> sid \<Rightarrow> delta option" where
  "find_delta f s = table_find (sf_table f) s"

definition find_any_delta :: "sccs_file \<Rightarrow> sid \<Rightarrow> delta option" where
  "find_any_delta f s = table_find_any (sf_table f) s"

definition highest_delta_seqno :: "sccs_file \<Rightarrow> seq_no" where
  "highest_delta_seqno f = high_seqno (sf_table f)"

definition highest_delta_release :: "sccs_file \<Rightarrow> sid" where
  "highest_delta_release f = high_release (sf_table f)"

definition seq_to_sid :: "sccs_file \<Rightarrow> seq_no \<Rightarrow> sid res" where
  "seq_to_sid f s = bindE (delta_at_seq (sf_table f) s) (\<lambda>d. Inr (delta_id d))"

definition is_delta_creator :: "sccs_file \<Rightarrow> string \<Rightarrow> sid \<Rightarrow> bool" where
  "is_delta_creator f usr s = (case find_delta f s of None \<Rightarrow> False | Some d \<Rightarrow> user d = usr)"

text \<open>The two searches for the most recent delta compare dates, which asserts that they are valid.\<close>

definition newest_match :: "sid \<Rightarrow> sccs_date \<times> sid \<Rightarrow> delta \<Rightarrow> (sccs_date \<times> sid) res" where
  "newest_match s acc d =
     (case acc of (newest, found) \<Rightarrow>
        if trunk_match s (delta_id d) then
          bindE (if is_null found then Inr True else date_lt newest (delta_date d)) (\<lambda>later.
            Inr (if later then (delta_date d, delta_id d) else acc))
        else Inr acc)"

definition find_most_recent_sid :: "sccs_file \<Rightarrow> sid \<Rightarrow> sid res" where
  "find_most_recent_sid f s =
     bindE (foldE (newest_match s) (date_default, sid_default) (selected Current (sf_table f))) (\<lambda>(_, found). Inr found)"

definition newest_any :: "bool \<times> sccs_date \<times> sid \<Rightarrow> delta \<Rightarrow> (bool \<times> sccs_date \<times> sid) res" where
  "newest_any acc d =
     (case acc of (found, newest, s) \<Rightarrow>
        bindE (if \<not> found then Inr True else date_gt (delta_date d) newest) (\<lambda>later.
          Inr (if later then (True, delta_date d, delta_id d) else acc)))"

definition find_most_recent :: "sccs_file \<Rightarrow> (bool \<times> sccs_date \<times> sid) res" where
  "find_most_recent f = foldE newest_any (False, date_default, sid_default) (selected Current (sf_table f))"

end
