(* ===== verification/Diff_State.thy ===== *)
theory Diff_State
  imports Line_Reader
begin

text \<open>
  \<open>class diff_state\<close> (diff-state.h, diff-state.cc): the state machine that reads the output of
  \<open>diff\<close> and tells \<open>delta\<close>, line by line, whether a line is unchanged, deleted or inserted, and
  that writes the control lines of the new delta. The \<open>int\<close> members are kept in the range of
  \<open>int\<close>; the stream from \<open>diff\<close> is the list of its lines, with their newlines.

  \<open>diff\<close> itself is not part of the program. What it is documented to print for two files is
  stated here as the rendering of a list of hunks (\<open>render\<close>), and \<open>process\<close> is shown to follow
  that list: a simulation by a machine that has no text to parse.
\<close>

datatype diffstate = START | NOCHANGE | DELETE | INSERT | END

record diff_state =
  ds_state :: diffstate
  in_lineno :: int
  out_lineno :: int
  lines_left :: int
  change_left :: int
  echo_diff_output :: bool
  ds_in :: "string list"
  ds_linebuf :: string
  ds_stdout :: string

definition new_diff_state :: "string list \<Rightarrow> bool \<Rightarrow> diff_state" where
  "new_diff_state f echo =
     \<lparr>ds_state = START, in_lineno = 0, out_lineno = 0, lines_left = 0, change_left = 0,
      echo_diff_output = echo, ds_in = f, ds_linebuf = [], ds_stdout = []\<rparr>"

text \<open>\<open>read_line\<close>: whether a line was read; the buffer keeps its contents at the end of file.\<close>

definition ds_read_line :: "diff_state \<Rightarrow> bool \<times> diff_state" where
  "ds_read_line st =
     (case ds_in st of
        [] \<Rightarrow> (False, st)
      | l # r \<Rightarrow> (True, st\<lparr>ds_linebuf := l, ds_in := r,
                          ds_stdout := (if echo_diff_output st then ds_stdout st @ c_str l else ds_stdout st)\<rparr>))"

definition get_num :: "string \<Rightarrow> (int \<times> string) res" where
  "get_num p =
     (case strtol p of (v, range_error, e) \<Rightarrow>
        if (v = long_max \<or> v = long_min) \<and> range_error then Inl (Fatal Range_error) else Inr (v, e))"

definition diff_output_corrupt :: "string \<Rightarrow> 'a res" where
  "diff_output_corrupt msg = Inl (Fatal (Diff_corrupt msg))"

text \<open>The second part of \<open>next_state\<close>: the command in the line buffer against the current
  positions.\<close>

definition parse_command :: "diff_state \<Rightarrow> diff_state res" where
  "parse_command st =
     bindE (get_num (ds_linebuf st)) (\<lambda>(line1, s).
     bindE (if char_at s 0 = CHR '',''
            then bindE (get_num (drop 1 s)) (\<lambda>(line2, s).
                   if line2 \<le> line1 then diff_output_corrupt ''left end line'' else Inr (line2, s))
            else Inr (line1, s)) (\<lambda>(line2, s).
     let c = char_at s 0 in
     bindE (ASSERT (c \<noteq> NUL)) (\<lambda>_.
       if c = CHR ''a'' \<and> line1 \<ge> in_lineno st then
         Inr (st\<lparr>ds_state := NOCHANGE, lines_left := int_of32 (line1 - in_lineno st + 1)\<rparr>)
       else if c = CHR ''a'' \<and> line1 + 1 \<noteq> in_lineno st then
         diff_output_corrupt ''left start line [case 1]''
       else if c \<noteq> CHR ''a'' \<and> line1 > in_lineno st then
         Inr (st\<lparr>ds_state := NOCHANGE, lines_left := int_of32 (line1 - in_lineno st)\<rparr>)
       else if c \<noteq> CHR ''a'' \<and> line1 \<noteq> in_lineno st then
         diff_output_corrupt ''left start line [case 2]''
       else
         bindE (get_num (drop 1 s)) (\<lambda>(line3, s).
         if c = CHR ''d'' \<and> line3 \<noteq> out_lineno st then diff_output_corrupt ''right start line [case 1]''
         else if c \<noteq> CHR ''d'' \<and> line3 \<noteq> out_lineno st + 1 then diff_output_corrupt ''right start line [case 2]''
         else
           bindE (if char_at s 0 = CHR '',''
                  then bindE (get_num (drop 1 s)) (\<lambda>(line4, s).
                         if line4 \<le> line3 then diff_output_corrupt ''right end line'' else Inr (line4, s))
                  else Inr (line3, s)) (\<lambda>(line4, s).
           if char_at s 0 \<noteq> newline then diff_output_corrupt ''EOL''
           else if c = CHR ''a'' then
             Inr (st\<lparr>ds_state := INSERT, lines_left := int_of32 (line4 - line3 + 1)\<rparr>)
           else if c = CHR ''d'' then
             Inr (st\<lparr>ds_state := DELETE, lines_left := int_of32 (line2 - line1 + 1)\<rparr>)
           else if c = CHR ''c'' then
             Inr (st\<lparr>ds_state := DELETE, lines_left := int_of32 (line2 - line1 + 1),
                     change_left := int_of32 (line4 - line3 + 1)\<rparr>)
           else diff_output_corrupt ''unknown operation'')))))"

definition ds_next_state :: "diff_state \<Rightarrow> diff_state res" where
  "ds_next_state st =
     (if ds_state st = DELETE \<and> change_left st \<noteq> 0 then
        (case ds_read_line st of
           (False, st) \<Rightarrow> Inl (Fatal Diff_unexpected_eof)
         | (True, st) \<Rightarrow>
             if c_str (ds_linebuf st) \<noteq> ''---'' @ [newline] then diff_output_corrupt ''expected ---''
             else Inr (st\<lparr>lines_left := change_left st, change_left := 0, ds_state := INSERT\<rparr>))
      else if ds_state st \<noteq> NOCHANGE then
        (case ds_read_line st of
           (False, st) \<Rightarrow> Inr (st\<lparr>ds_state := END\<rparr>)
         | (True, st) \<Rightarrow>
             if char_at (ds_linebuf st) 0 = CHR 0x5C then
               (case ds_read_line st of
                  (True, st) \<Rightarrow> diff_output_corrupt ''Expected EOF''
                | (False, st) \<Rightarrow> Inr (st\<lparr>ds_state := END\<rparr>))
             else parse_command st)
      else parse_command st)"

text \<open>A control line of the new delta, as \<open>fprintf\<close> writes it.\<close>

definition control_text :: "char \<Rightarrow> nat \<Rightarrow> string" where
  "control_text c n = ctrl_A # c # CHR '' '' # show_nat n @ [newline]"

definition process :: "string \<Rightarrow> nat \<Rightarrow> diff_state \<Rightarrow> (diffstate \<times> diff_state \<times> string) res" where
  "process out n st =
     (let st = (if ds_state st \<noteq> INSERT then st\<lparr>in_lineno := int_of32 (in_lineno st + 1)\<rparr> else st) in
      bindE (if ds_state st \<noteq> END then
               bindE (ASSERT (lines_left st \<ge> 0)) (\<lambda>_.
               bindE (if lines_left st = 0 then
                        let out = (if ds_state st = DELETE \<or> ds_state st = INSERT
                                   then out @ control_text (CHR ''E'') n else out) in
                        bindE (ds_next_state st) (\<lambda>st.
                          Inr (st, if ds_state st = INSERT then out @ control_text (CHR ''I'') n
                                   else if ds_state st = DELETE then out @ control_text (CHR ''D'') n
                                   else out))
                      else Inr (st, out)) (\<lambda>(st, out).
               Inr (st\<lparr>lines_left := lines_left st - 1\<rparr>, out)))
             else Inr (st, out)) (\<lambda>(st, out).
      if ds_state st = DELETE then
        (case ds_read_line st of
           (False, st) \<Rightarrow> Inl (Fatal Diff_unexpected_eof)
         | (True, st) \<Rightarrow>
             if char_at (ds_linebuf st) 0 \<noteq> CHR ''<'' \<or> char_at (ds_linebuf st) 1 \<noteq> CHR '' ''
             then diff_output_corrupt ''expected <''
             else Inr (ds_state st, st, out))
      else
        bindE (if ds_state st = INSERT then
                 (case ds_read_line st of
                    (False, st) \<Rightarrow> Inl (Fatal Diff_unexpected_eof)
                  | (True, st) \<Rightarrow>
                      if char_at (ds_linebuf st) 0 \<noteq> CHR ''>'' \<or> char_at (ds_linebuf st) 1 \<noteq> CHR '' ''
                      then diff_output_corrupt ''expected >''
                      else Inr st)
               else Inr st) (\<lambda>st.
          let st = st\<lparr>out_lineno := int_of32 (out_lineno st + 1)\<rparr> in Inr (ds_state st, st, out))))"

definition get_insert_line :: "diff_state \<Rightarrow> string res" where
  "get_insert_line st =
     bindE (ASSERT (ds_state st = INSERT)) (\<lambda>_.
     bindE (ASSERT (char_at (ds_linebuf st) 0 = CHR ''>'' \<and> char_at (ds_linebuf st) 1 = CHR '' '')) (\<lambda>_.
       Inr (drop 2 (c_str (ds_linebuf st)))))"

section \<open>What diff prints\<close>

text \<open>
  A hunk: a number of unchanged lines, then lines of the old file that are deleted and lines
  that take their place. In the normal output format only the second part is printed, with
  the line numbers of both files.
\<close>

record hunk =
  h_keep :: nat
  h_dels :: "string list"
  h_adds :: "string list"

definition show_range :: "nat \<Rightarrow> nat \<Rightarrow> string" where
  "show_range a b = (if a = b then show_nat a else show_nat a @ '','' @ show_nat b)"

definition header :: "nat \<Rightarrow> nat \<Rightarrow> string list \<Rightarrow> string list \<Rightarrow> string" where
  "header i j ds as =
     (if as = [] then show_range (i + 1) (i + length ds) @ ''d'' @ show_nat j
      else if ds = [] then show_nat i @ ''a'' @ show_range (j + 1) (j + length as)
      else show_range (i + 1) (i + length ds) @ ''c'' @ show_range (j + 1) (j + length as)) @ [newline]"

definition del_line :: "string \<Rightarrow> string" where
  "del_line x = ''< '' @ x @ [newline]"

definition ins_line :: "string \<Rightarrow> string" where
  "ins_line x = ''> '' @ x @ [newline]"

definition hunk_body :: "string list \<Rightarrow> string list \<Rightarrow> string list" where
  "hunk_body ds as =
     map del_line ds @ (if ds \<noteq> [] \<and> as \<noteq> [] then [''---'' @ [newline]] else []) @ map ins_line as"

fun render :: "nat \<Rightarrow> nat \<Rightarrow> hunk list \<Rightarrow> string list" where
  "render i j [] = []"
| "render i j (h # hs) =
     (let i = i + h_keep h; j = j + h_keep h
      in header i j (h_dels h) (h_adds h) # hunk_body (h_dels h) (h_adds h)
         @ render (i + length (h_dels h)) (j + length (h_adds h)) hs)"

text \<open>Every hunk changes something, and two hunks have an unchanged line between them.\<close>

definition hunk_ok :: "bool \<Rightarrow> hunk \<Rightarrow> bool" where
  "hunk_ok first h \<longleftrightarrow> (h_dels h \<noteq> [] \<or> h_adds h \<noteq> []) \<and> (first \<or> 0 < h_keep h)"

fun hunks_ok :: "bool \<Rightarrow> hunk list \<Rightarrow> bool" where
  "hunks_ok first [] = True"
| "hunks_ok first (h # hs) = (hunk_ok first h \<and> hunks_ok False hs)"

section \<open>The script that the hunks stand for\<close>

datatype act = Keep | Del | Ins string

fun act_kind :: "act \<Rightarrow> diffstate" where
  "act_kind Keep = NOCHANGE"
| "act_kind Del = DELETE"
| "act_kind (Ins x) = INSERT"

definition change_acts :: "string list \<Rightarrow> string list \<Rightarrow> act list" where
  "change_acts ds as = replicate (length ds) Del @ map Ins as"

fun acts_of :: "hunk list \<Rightarrow> act list" where
  "acts_of [] = []"
| "acts_of (h # hs) = replicate (h_keep h) Keep @ change_acts (h_dels h) (h_adds h) @ acts_of hs"

text \<open>The control lines written when the machine goes from one state to another.\<close>

definition ctl :: "diffstate \<Rightarrow> diffstate \<Rightarrow> nat \<Rightarrow> string" where
  "ctl p q n =
     (if p = q then []
      else (if p = DELETE \<or> p = INSERT then control_text (CHR ''E'') n else [])
           @ (if q = INSERT then control_text (CHR ''I'') n
              else if q = DELETE then control_text (CHR ''D'') n else []))"

text \<open>The machine without text: it consumes the script, and stays at the end.\<close>

fun script_step :: "act list \<Rightarrow> diffstate \<times> act list" where
  "script_step [] = (END, [])"
| "script_step (a # as) = (act_kind a, as)"

section \<open>Parsing a command\<close>

text \<open>Line numbers stay below this bound, so that an \<open>int\<close> holds them.\<close>

definition max_line :: nat where
  "max_line = 2147483646"

lemma get_num_show:
  assumes "rest = [] \<or> \<not> isdigit (hd rest)" and "n \<le> max_line + 1"
  shows "get_num (show_nat n @ rest) = Inr (int n, rest)"
proof -
  have "int n \<le> long_max" "int n \<noteq> long_max" using assms by (simp_all add: long_max_def max_line_def)
  then show ?thesis using strtol_show_nat [OF assms(1), of n] by (simp add: get_num_def)
qed

lemma length_cases: "xs = [] \<or> length xs = 1 \<or> Suc 0 < length xs"
  by (cases xs; cases "tl xs") auto

lemma parse_command_keep:
  assumes "ds_linebuf st = header i' j' ds as" and "in_lineno st = int i + 1"
    and "ds \<noteq> [] \<or> as \<noteq> []" and "i < i'" and "i' + length ds \<le> max_line"
  shows "parse_command st = Inr (st\<lparr>ds_state := NOCHANGE, lines_left := int (i' - i)\<rparr>)"
proof -
  have b: "i' \<le> max_line + 1" "Suc i' \<le> max_line + 1" "i' + length ds \<le> max_line + 1"
    using assms by (auto simp: max_line_def)
  have w: "int_of32 (int i' - int i) = int i' - int i" "int (i' - i) = int i' - int i"
    using assms by (auto simp: max_line_def)
  show ?thesis
    using assms b w length_cases [of ds]
    by (cases "as = []"; cases "ds = []")
       (auto simp: parse_command_def header_def show_range_def get_num_show Let_def)
qed

lemma parse_command_insert:
  assumes "ds_linebuf st = header i j [] as" and "in_lineno st = int i + 1" and "out_lineno st = int j"
    and "as \<noteq> []" and "i \<le> max_line" and "j + length as \<le> max_line"
  shows "parse_command st = Inr (st\<lparr>ds_state := INSERT, lines_left := int (length as)\<rparr>)"
proof -
  have b: "i \<le> max_line + 1" "Suc j \<le> max_line + 1" "j + length as \<le> max_line + 1" "0 < length as"
    using assms by (auto simp: max_line_def)
  have w: "int_of32 (int (length as)) = int (length as)"
    using assms by (auto simp: max_line_def)
  show ?thesis
    using assms b w length_cases [of as]
    by (elim disjE) (auto simp: parse_command_def header_def show_range_def get_num_show Let_def)
qed

lemma parse_command_delete:
  assumes "ds_linebuf st = header i j ds as" and "in_lineno st = int i + 1" and "out_lineno st = int j"
    and "ds \<noteq> []" and "i + length ds \<le> max_line" and "j + length as \<le> max_line" and "change_left st = 0"
  shows "parse_command st =
           Inr (st\<lparr>ds_state := DELETE, lines_left := int (length ds), change_left := int (length as)\<rparr>)"
proof -
  have b: "Suc i \<le> max_line + 1" "i + length ds \<le> max_line + 1" "0 < length ds"
      "j \<le> max_line + 1" "as \<noteq> [] \<longrightarrow> Suc j \<le> max_line + 1" "j + length as \<le> max_line + 1"
    using assms by (auto simp: max_line_def)
  have w: "int_of32 (int (length ds)) = int (length ds)" "int_of32 (int (length as)) = int (length as)"
    using assms by (auto simp: max_line_def)
  show ?thesis
    using length_cases [of ds] length_cases [of as]
    by (elim disjE) (use assms b w in \<open>auto simp: parse_command_def header_def show_range_def get_num_show Let_def\<close>)
qed

section \<open>The machine follows the script\<close>

fun old_count :: "act list \<Rightarrow> nat" where
  "old_count [] = 0"
| "old_count (a # as) = (case a of Ins x \<Rightarrow> 0 | _ \<Rightarrow> 1) + old_count as"

fun new_count :: "act list \<Rightarrow> nat" where
  "new_count [] = 0"
| "new_count (a # as) = (case a of Del \<Rightarrow> 0 | _ \<Rightarrow> 1) + new_count as"

lemma count_append [simp]:
  "old_count (xs @ ys) = old_count xs + old_count ys"
  "new_count (xs @ ys) = new_count xs + new_count ys"
  by (induction xs) auto

lemma count_simps [simp]:
  "old_count (replicate n Keep) = n" "new_count (replicate n Keep) = n"
  "old_count (replicate n Del) = n" "new_count (replicate n Del) = 0"
  "old_count (map Ins as) = 0" "new_count (map Ins as) = length as"
  by (induction n; simp)+ (induction as; simp)+

text \<open>
  \<open>mach i j st acts\<close>: with \<open>i\<close> lines of the old and \<open>j\<close> lines of the new file behind it, the
  machine in state \<open>st\<close> has the script \<open>acts\<close> before it.
\<close>

inductive mach :: "nat \<Rightarrow> nat \<Rightarrow> diff_state \<Rightarrow> act list \<Rightarrow> bool" where
  mach_start: "ds_state st = START \<Longrightarrow> lines_left st = 0 \<Longrightarrow> change_left st = 0 \<Longrightarrow> out_lineno st = int j \<Longrightarrow>
     hunks_ok True hs \<Longrightarrow> ds_in st = render i j hs \<Longrightarrow> acts = acts_of hs \<Longrightarrow>
     i + old_count acts \<le> max_line \<Longrightarrow> j + new_count acts \<le> max_line \<Longrightarrow> mach i j st acts"
| mach_keep: "ds_state st = NOCHANGE \<Longrightarrow> lines_left st = int g \<Longrightarrow> change_left st = 0 \<Longrightarrow> out_lineno st = int j \<Longrightarrow>
     hunks_ok False hs \<Longrightarrow> ds \<noteq> [] \<or> as \<noteq> [] \<Longrightarrow> ds_linebuf st = header (i + g) (j + g) ds as \<Longrightarrow>
     ds_in st = hunk_body ds as @ render (i + g + length ds) (j + g + length as) hs \<Longrightarrow>
     acts = replicate g Keep @ change_acts ds as @ acts_of hs \<Longrightarrow>
     i + old_count acts \<le> max_line \<Longrightarrow> j + new_count acts \<le> max_line \<Longrightarrow> mach i j st acts"
| mach_del: "ds_state st = DELETE \<Longrightarrow> lines_left st = int (length ds) \<Longrightarrow> change_left st = int (length as) \<Longrightarrow>
     out_lineno st = int j \<Longrightarrow> hunks_ok False hs \<Longrightarrow>
     ds_in st = map del_line ds @ (if as \<noteq> [] then [''---'' @ [newline]] else []) @ map ins_line as
                @ render (i + length ds) (j + length as) hs \<Longrightarrow>
     acts = change_acts ds as @ acts_of hs \<Longrightarrow>
     i + old_count acts \<le> max_line \<Longrightarrow> j + new_count acts \<le> max_line \<Longrightarrow> mach i j st acts"
| mach_ins: "ds_state st = INSERT \<Longrightarrow> lines_left st = int (length as) \<Longrightarrow> change_left st = 0 \<Longrightarrow>
     out_lineno st = int j \<Longrightarrow> hunks_ok False hs \<Longrightarrow>
     ds_in st = map ins_line as @ render i (j + length as) hs \<Longrightarrow>
     acts = map Ins as @ acts_of hs \<Longrightarrow>
     i + old_count acts \<le> max_line \<Longrightarrow> j + new_count acts \<le> max_line \<Longrightarrow> mach i j st acts"
| mach_end: "ds_state st = END \<Longrightarrow> acts = [] \<Longrightarrow> mach i j st acts"

definition sim :: "diff_state \<Rightarrow> act list \<Rightarrow> bool" where
  "sim st acts \<longleftrightarrow>
     (\<exists>i j. mach i j st acts
        \<and> (ds_state st \<noteq> END \<longrightarrow> in_lineno st = (if ds_state st = INSERT then int i + 1 else int i)))"

text \<open>The machine at a line it is about to consume.\<close>

definition ready :: "diff_state \<Rightarrow> act list \<Rightarrow> bool" where
  "ready st acts \<longleftrightarrow>
     (\<exists>i j. mach i j st acts
        \<and> (ds_state st \<noteq> END \<longrightarrow> in_lineno st = int i + 1 \<and> lines_left st > 0))"

lemma char_at_header [simp]: "char_at (header i j ds as) 0 \<noteq> CHR 0x5C"
proof -
  have d: "char_at (show_nat k @ r) 0 \<noteq> CHR 0x5C" for k r
    by (rule show_nat_Cons_obtain [of k]) (auto simp: isdigit_def)
  show ?thesis using d by (simp add: header_def show_range_def)
qed

text \<open>Reading the command of the next hunk.\<close>

lemma next_hunk:
  assumes "ds_state st \<noteq> NOCHANGE" and "\<not> (ds_state st = DELETE \<and> change_left st \<noteq> 0)"
    and "change_left st = 0" and "in_lineno st = int i + 1" and "out_lineno st = int j"
    and "ds_in st = render i j hs" and "hunks_ok f hs"
    and "i + old_count (acts_of hs) \<le> max_line" and "j + new_count (acts_of hs) \<le> max_line"
  shows "\<exists>st'. ds_next_state st = Inr st' \<and> ready st' (acts_of hs)
           \<and> ds_state st' = fst (script_step (acts_of hs))"
proof (cases hs)
  case Nil
  let ?st = "st\<lparr>ds_state := END\<rparr>"
  have "ds_next_state st = Inr ?st"
    using assms Nil by (auto simp: ds_next_state_def ds_read_line_def)
  moreover have "ready ?st (acts_of hs)"
    unfolding ready_def using Nil mach_end [of ?st "[]" 0 0] by auto
  ultimately show ?thesis using Nil by simp
next
  case (Cons h hs')
  let ?k = "h_keep h" and ?ds = "h_dels h" and ?as = "h_adds h"
  obtain st1 where rd: "ds_read_line st = (True, st1)"
      and lb: "ds_linebuf st1 = header (i + ?k) (j + ?k) ?ds ?as"
      and inp: "ds_in st1 = hunk_body ?ds ?as @ render (i + ?k + length ?ds) (j + ?k + length ?as) hs'"
      and same: "in_lineno st1 = in_lineno st" "out_lineno st1 = out_lineno st" "change_left st1 = change_left st"
    using assms(6) Cons by (auto simp: ds_read_line_def Let_def)
  have step: "ds_next_state st = parse_command st1"
    using assms(1-3) rd lb by (simp add: ds_next_state_def)
  have h: "?ds \<noteq> [] \<or> ?as \<noteq> []" and hs': "hunks_ok False hs'"
    using assms(7) Cons by (auto simp: hunk_ok_def)
  have b: "i + ?k + length ?ds + old_count (acts_of hs') \<le> max_line"
      "j + ?k + length ?as + new_count (acts_of hs') \<le> max_line"
    using assms(8,9) Cons by (simp_all add: change_acts_def)
  consider (keep) "0 < ?k" | (del) "?k = 0" "?ds \<noteq> []" | (ins) "?k = 0" "?ds = []" "?as \<noteq> []"
    using h by auto
  then show ?thesis
  proof cases
    case keep
    let ?st = "st1\<lparr>ds_state := NOCHANGE, lines_left := int ?k\<rparr>"
    have "parse_command st1 = Inr ?st"
      using parse_command_keep [OF lb _ h, of i] same assms keep b by simp
    moreover have "mach i j ?st (acts_of hs)"
      using same assms(3,5) hs' h lb inp Cons b
      by (intro mach_keep [of _ ?k j hs' ?ds ?as]) (auto simp: change_acts_def)
    ultimately show ?thesis
      using step same assms(4) keep Cons by (cases ?k) (auto simp: ready_def)
  next
    case del
    let ?st = "st1\<lparr>ds_state := DELETE, lines_left := int (length ?ds), change_left := int (length ?as)\<rparr>"
    have "parse_command st1 = Inr ?st"
      using parse_command_delete [of st1 i j ?ds ?as] lb same assms(3-5) del b by simp
    moreover have "mach i j ?st (acts_of hs)"
      using same assms(5) hs' inp Cons b del
      by (intro mach_del [of _ ?ds ?as j hs']) (auto simp: change_acts_def hunk_body_def)
    ultimately show ?thesis
      using step same assms(4) del Cons
      by (cases ?ds) (auto simp: ready_def change_acts_def)
  next
    case ins
    let ?st = "st1\<lparr>ds_state := INSERT, lines_left := int (length ?as)\<rparr>"
    have "parse_command st1 = Inr ?st"
      using parse_command_insert [of st1 i j ?as] lb same assms(3-5) ins b by simp
    moreover have "mach i j ?st (acts_of hs)"
      using same assms(3,5) hs' inp Cons b ins
      by (intro mach_ins [of _ ?as j hs']) (auto simp: change_acts_def hunk_body_def)
    ultimately show ?thesis
      using step same assms(4) ins Cons
      by (cases ?as) (auto simp: ready_def change_acts_def)
  qed
qed

lemma first_kind_keep:
  assumes "hunks_ok False hs"
  shows "fst (script_step (acts_of hs)) = NOCHANGE \<or> fst (script_step (acts_of hs)) = END"
proof (cases hs)
  case (Cons h hs')
  then show ?thesis using assms by (cases "h_keep h") (auto simp: hunk_ok_def)
qed simp

definition count_line :: "diff_state \<Rightarrow> diff_state" where
  "count_line st = (if ds_state st \<noteq> INSERT then st\<lparr>in_lineno := int_of32 (in_lineno st + 1)\<rparr> else st)"

lemma count_line_simps [simp]:
  "ds_state (count_line st) = ds_state st" "lines_left (count_line st) = lines_left st"
  "change_left (count_line st) = change_left st" "out_lineno (count_line st) = out_lineno st"
  "ds_in (count_line st) = ds_in st" "ds_linebuf (count_line st) = ds_linebuf st"
  by (simp_all add: count_line_def)

lemma mach_bound: "mach i j st acts \<Longrightarrow> ds_state st \<noteq> END \<Longrightarrow> i \<le> max_line \<and> j \<le> max_line"
  by (erule mach.cases) auto

lemma mach_cong:
  assumes "mach i j st acts" and "ds_state st' = ds_state st" and "lines_left st' = lines_left st"
    and "change_left st' = change_left st" and "out_lineno st' = out_lineno st"
    and "ds_in st' = ds_in st" and "ds_linebuf st' = ds_linebuf st"
  shows "mach i j st' acts"
  using assms(1)
proof cases
  case (mach_start hs)
  then show ?thesis using assms by (intro mach.mach_start) auto
next
  case (mach_keep g hs ds as)
  then show ?thesis using assms by (intro mach.mach_keep) auto
next
  case (mach_del ds as hs)
  then show ?thesis using assms by (intro mach.mach_del) auto
next
  case (mach_ins as hs)
  then show ?thesis using assms by (intro mach.mach_ins) auto
next
  case mach_end
  then show ?thesis using assms by (intro mach.mach_end) auto
qed

lemma count_line_in:
  assumes "sim st acts" and "ds_state st \<noteq> END"
  obtains i j where "mach i j (count_line st) acts" and "in_lineno (count_line st) = int i + 1"
proof -
  obtain i j where m: "mach i j st acts"
      and l: "in_lineno st = (if ds_state st = INSERT then int i + 1 else int i)"
    using assms by (auto simp: sim_def)
  have "i \<le> max_line" using mach_bound [OF m assms(2)] by simp
  then have "in_lineno (count_line st) = int i + 1"
    using l by (auto simp: count_line_def max_line_def)
  moreover have "mach i j (count_line st) acts" by (rule mach_cong [OF m]) simp_all
  ultimately show thesis using that by blast
qed

text \<open>With lines left, the machine is ready to go on in the same state.\<close>

lemma ready_inside:
  assumes "sim st acts" and "ds_state st \<noteq> END" and "lines_left st \<noteq> 0"
  shows "ready (count_line st) acts \<and> 0 < lines_left st \<and> fst (script_step acts) = ds_state st"
proof -
  obtain i j where m: "mach i j (count_line st) acts" and l: "in_lineno (count_line st) = int i + 1"
    using count_line_in [OF assms(1,2)] by blast
  have "0 < lines_left st \<and> fst (script_step acts) = ds_state st"
    using m assms(2,3)
  proof cases
    case (mach_keep g hs ds as)
    then show ?thesis using assms(3) by (cases g) auto
  next
    case (mach_del ds as hs)
    then show ?thesis using assms(3) by (cases ds) (auto simp: change_acts_def)
  next
    case (mach_ins as hs)
    then show ?thesis using assms(3) by (cases as) auto
  qed (use assms in auto)
  with m l show ?thesis by (auto simp: ready_def)
qed

text \<open>Without lines left, \<open>next_state\<close> makes it ready in the state that the script asks for.\<close>

lemma ready_boundary:
  assumes "sim st acts" and "ds_state st \<noteq> END" and "lines_left st = 0"
  shows "\<exists>st'. ds_next_state (count_line st) = Inr st' \<and> ready st' acts
           \<and> ds_state st' = fst (script_step acts) \<and> ds_state st' \<noteq> ds_state st"
proof -
  let ?st = "count_line st"
  obtain i j where m: "mach i j ?st acts" and l: "in_lineno ?st = int i + 1"
    using count_line_in [OF assms(1,2)] by blast
  from m show ?thesis
  proof cases
    case (mach_start hs)
    have "fst (script_step xs) \<noteq> START" for xs :: "act list"
      by (cases xs; cases "hd xs") auto
    then show ?thesis using next_hunk [of ?st i j hs True] l mach_start by fastforce
  next
    case (mach_keep g hs ds as)
    have g: "g = 0" using mach_keep assms(3) by simp
    have step: "ds_next_state ?st = parse_command ?st" using mach_keep by (simp add: ds_next_state_def)
    have b: "i + length ds + old_count (acts_of hs) \<le> max_line" "j + length as + new_count (acts_of hs) \<le> max_line"
      using mach_keep g by (simp_all add: change_acts_def)
    show ?thesis
    proof (cases "ds = []")
      case True
      then have as: "as \<noteq> []" using mach_keep by simp
      let ?st' = "?st\<lparr>ds_state := INSERT, lines_left := int (length as)\<rparr>"
      have "parse_command ?st = Inr ?st'"
        using parse_command_insert [of ?st i j as] mach_keep g l True as b by simp
      moreover have "mach i j ?st' acts"
        using mach_keep g True b
        by (intro mach_ins [of _ as j hs]) (auto simp: change_acts_def hunk_body_def)
      ultimately show ?thesis
        using step l as mach_keep g True by (cases as) (auto simp: ready_def change_acts_def)
    next
      case False
      let ?st' = "?st\<lparr>ds_state := DELETE, lines_left := int (length ds), change_left := int (length as)\<rparr>"
      have "parse_command ?st = Inr ?st'"
        using parse_command_delete [of ?st i j ds as] mach_keep g l False b by simp
      moreover have "mach i j ?st' acts"
        using mach_keep g False b
        by (intro mach_del [of _ ds as j hs]) (auto simp: change_acts_def hunk_body_def)
      ultimately show ?thesis
        using step l mach_keep g False by (cases ds) (auto simp: ready_def change_acts_def)
    qed
  next
    case (mach_del ds as hs)
    have ds: "ds = []" using mach_del assms(3) by simp
    show ?thesis
    proof (cases "as = []")
      case True
      then show ?thesis
        using next_hunk [of ?st i j hs False] l mach_del ds first_kind_keep [of hs]
        by (fastforce simp: change_acts_def)
    next
      case False
      obtain st1 where rd: "ds_read_line ?st = (True, st1)" and lb: "ds_linebuf st1 = ''---'' @ [newline]"
          and inp: "ds_in st1 = map ins_line as @ render i (j + length as) hs"
          and same: "in_lineno st1 = in_lineno ?st" "out_lineno st1 = out_lineno ?st" "change_left st1 = change_left ?st"
        using mach_del ds False by (auto simp: ds_read_line_def)
      let ?st' = "st1\<lparr>lines_left := change_left st1, change_left := 0, ds_state := INSERT\<rparr>"
      have "ds_next_state ?st = Inr ?st'"
        using rd lb mach_del False by (simp add: ds_next_state_def c_str_def)
      moreover have "mach i j ?st' acts"
        using inp same mach_del ds
        by (intro mach_ins [of _ as j hs]) (auto simp: change_acts_def)
      ultimately show ?thesis
        using l same mach_del ds False by (cases as) (auto simp: ready_def change_acts_def)
    qed
  next
    case (mach_ins as hs)
    then have "as = []" using assms(3) by simp
    then show ?thesis
      using next_hunk [of ?st i j hs False] l mach_ins first_kind_keep [of hs]
      by fastforce
  qed (use assms in simp)
qed

text \<open>Consuming one line in each state.\<close>

definition consume :: "diff_state \<Rightarrow> string \<Rightarrow> (diffstate \<times> diff_state \<times> string) res" where
  "consume st out =
     (if ds_state st = DELETE then
        (case ds_read_line st of
           (False, st) \<Rightarrow> Inl (Fatal Diff_unexpected_eof)
         | (True, st) \<Rightarrow>
             if char_at (ds_linebuf st) 0 \<noteq> CHR ''<'' \<or> char_at (ds_linebuf st) 1 \<noteq> CHR '' ''
             then diff_output_corrupt ''expected <''
             else Inr (ds_state st, st, out))
      else
        bindE (if ds_state st = INSERT then
                 (case ds_read_line st of
                    (False, st) \<Rightarrow> Inl (Fatal Diff_unexpected_eof)
                  | (True, st) \<Rightarrow>
                      if char_at (ds_linebuf st) 0 \<noteq> CHR ''>'' \<or> char_at (ds_linebuf st) 1 \<noteq> CHR '' ''
                      then diff_output_corrupt ''expected >''
                      else Inr st)
               else Inr st) (\<lambda>st.
          let st = st\<lparr>out_lineno := int_of32 (out_lineno st + 1)\<rparr> in Inr (ds_state st, st, out)))"

lemma process_consume:
  "process out n st =
     bindE (if ds_state st \<noteq> END then
              bindE (ASSERT (lines_left st \<ge> 0)) (\<lambda>_.
              bindE (if lines_left st = 0 then
                       let out = (if ds_state st = DELETE \<or> ds_state st = INSERT
                                  then out @ control_text (CHR ''E'') n else out) in
                       bindE (ds_next_state (count_line st)) (\<lambda>st.
                         Inr (st, if ds_state st = INSERT then out @ control_text (CHR ''I'') n
                                  else if ds_state st = DELETE then out @ control_text (CHR ''D'') n
                                  else out))
                     else Inr (count_line st, out)) (\<lambda>(st, out).
              Inr (st\<lparr>lines_left := lines_left st - 1\<rparr>, out)))
            else Inr (count_line st, out)) (\<lambda>(st, out). consume st out)"
  unfolding process_def consume_def
  by (simp only: count_line_def [symmetric] count_line_simps Let_def [of "count_line st"])

lemma consume_ready:
  assumes "ready st acts" and "ds_state st = fst (script_step acts)" and "ds_state st \<noteq> END"
  shows "\<exists>st'. consume (st\<lparr>lines_left := lines_left st - 1\<rparr>) out = Inr (ds_state st, st', out)
           \<and> sim st' (snd (script_step acts)) \<and> ds_state st' = ds_state st
           \<and> (\<forall>x r. acts = Ins x # r \<longrightarrow> ds_linebuf st' = ins_line x)"
proof -
  let ?st = "st\<lparr>lines_left := lines_left st - 1\<rparr>"
  obtain i j where m: "mach i j st acts" and l: "in_lineno st = int i + 1" and left: "lines_left st > 0"
    using assms by (auto simp: ready_def)
  have j: "j \<le> max_line" using mach_bound [OF m assms(3)] by simp
  from m show ?thesis
  proof cases
    case (mach_keep g hs ds as)
    then obtain g' where g: "g = Suc g'" using left by (cases g) auto
    let ?st' = "?st\<lparr>out_lineno := int_of32 (out_lineno st + 1)\<rparr>"
    have "consume ?st out = Inr (NOCHANGE, ?st', out)" using mach_keep by (simp add: consume_def Let_def)
    moreover have "mach (Suc i) (Suc j) ?st' (snd (script_step acts))"
      using mach_keep g j by (intro mach.mach_keep [of _ g' _ hs ds as]) (auto simp: max_line_def)
    then have "sim ?st' (snd (script_step acts))"
      unfolding sim_def using l mach_keep by (intro exI [of _ "Suc i"] exI [of _ "Suc j"]) auto
    ultimately show ?thesis using mach_keep g by auto
  next
    case (mach_del ds as hs)
    then obtain d ds' where ds: "ds = d # ds'" using left by (cases ds) auto
    then obtain st' where rd: "ds_read_line ?st = (True, st')" and lb: "ds_linebuf st' = del_line d"
        and inp: "ds_in st' = map del_line ds' @ (if as \<noteq> [] then [''---'' @ [newline]] else []) @ map ins_line as
                @ render (i + length ds) (j + length as) hs"
        and same: "in_lineno st' = in_lineno st" "out_lineno st' = out_lineno st" "ds_state st' = ds_state st"
          "change_left st' = change_left st" "lines_left st' = lines_left st - 1"
      using mach_del by (auto simp: ds_read_line_def)
    have "consume ?st out = Inr (DELETE, st', out)"
      using mach_del rd lb same by (simp add: consume_def del_line_def)
    moreover have "mach (Suc i) j st' (snd (script_step acts))"
      using mach_del ds inp same
      by (intro mach.mach_del [of _ ds' as _ hs]) (auto simp: change_acts_def)
    then have "sim st' (snd (script_step acts))"
      unfolding sim_def using l same mach_del by (intro exI [of _ "Suc i"] exI [of _ j]) auto
    ultimately show ?thesis using mach_del ds same by (auto simp: change_acts_def)
  next
    case (mach_ins as hs)
    then obtain a as' where as: "as = a # as'" using left by (cases as) auto
    then obtain st1 where rd: "ds_read_line ?st = (True, st1)" and lb: "ds_linebuf st1 = ins_line a"
        and inp: "ds_in st1 = map ins_line as' @ render i (j + length as) hs"
        and same: "in_lineno st1 = in_lineno st" "out_lineno st1 = out_lineno st" "ds_state st1 = ds_state st"
          "change_left st1 = change_left st" "lines_left st1 = lines_left st - 1"
      using mach_ins by (auto simp: ds_read_line_def)
    let ?st' = "st1\<lparr>out_lineno := int_of32 (out_lineno st1 + 1)\<rparr>"
    have "consume ?st out = Inr (INSERT, ?st', out)"
      using mach_ins rd lb same by (simp add: consume_def ins_line_def Let_def)
    moreover have "mach i (Suc j) ?st' (snd (script_step acts))"
      using mach_ins as inp same j
      by (intro mach.mach_ins [of _ as' _ hs]) (auto simp: max_line_def)
    then have "sim ?st' (snd (script_step acts))"
      unfolding sim_def using l same mach_ins by (intro exI [of _ i] exI [of _ "Suc j"]) auto
    ultimately show ?thesis using mach_ins as same lb by auto
  qed (use assms left in auto)
qed

text \<open>
  One call of \<open>process\<close> is one step of the script: it returns the kind of the next action,
  writes the control lines of the change of state, and leaves the text of an inserted line in
  the buffer.
\<close>

lemma process_step:
  assumes "sim st acts"
  shows "\<exists>st'. process out n st
             = Inr (fst (script_step acts), st', out @ ctl (ds_state st) (fst (script_step acts)) n)
           \<and> sim st' (snd (script_step acts)) \<and> ds_state st' = fst (script_step acts)
           \<and> (\<forall>x r. acts = Ins x # r \<longrightarrow> ds_linebuf st' = ins_line x)"
proof (cases "ds_state st = END")
  case True
  then have acts: "acts = []" using assms by (auto simp: sim_def elim: mach.cases)
  let ?st' = "(count_line st)\<lparr>out_lineno := int_of32 (out_lineno st + 1)\<rparr>"
  have "sim ?st' []" unfolding sim_def using True mach_end [of ?st' "[]" 0 0] by auto
  then show ?thesis
    using True acts by (auto simp: process_consume consume_def Let_def ctl_def)
next
  case False
  let ?k = "fst (script_step acts)"
  show ?thesis
  proof (cases "lines_left st = 0")
    case True
    then obtain st1 where st1: "ds_next_state (count_line st) = Inr st1" and r: "ready st1 acts"
        and k: "ds_state st1 = ?k" and ne: "?k \<noteq> ds_state st"
      using ready_boundary [OF assms False] by auto
    have pr: "process out n st = consume (st1\<lparr>lines_left := lines_left st1 - 1\<rparr>) (out @ ctl (ds_state st) ?k n)"
      using False True st1 k ne by (auto simp: process_consume Let_def ctl_def)
    show ?thesis
    proof (cases "?k = END")
      case True
      then have acts: "acts = []" by (cases acts; cases "hd acts") auto
      let ?st' = "st1\<lparr>lines_left := lines_left st1 - 1, out_lineno := int_of32 (out_lineno st1 + 1)\<rparr>"
      have "sim ?st' []" unfolding sim_def using k True mach_end [of ?st' "[]" 0 0] by auto
      then show ?thesis using pr k True acts by (auto simp: consume_def Let_def)
    next
      case False
      then show ?thesis
        using consume_ready [OF r, of "out @ ctl (ds_state st) ?k n"] k pr by auto
    qed
  next
    case False
    note ri = ready_inside [OF assms \<open>ds_state st \<noteq> END\<close> False]
    then have "process out n st = consume ((count_line st)\<lparr>lines_left := lines_left (count_line st) - 1\<rparr>) out"
      using False \<open>ds_state st \<noteq> END\<close> by (simp add: process_consume)
    moreover have "ctl (ds_state st) ?k n = []" using ri by (simp add: ctl_def)
    ultimately show ?thesis
      using consume_ready [of "count_line st" acts out] ri \<open>ds_state st \<noteq> END\<close> by auto
  qed
qed

lemma sim_new:
  assumes "hunks_ok True hs" and "old_count (acts_of hs) \<le> max_line" and "new_count (acts_of hs) \<le> max_line"
  shows "sim (new_diff_state (render 0 0 hs) echo) (acts_of hs)"
  unfolding sim_def
  by (intro exI [of _ 0] conjI mach_start [of _ 0 hs]) (use assms in \<open>auto simp: new_diff_state_def\<close>)

section \<open>Properties\<close>

text \<open>
  \<open>run_process\<close> calls \<open>process\<close> a number of times and collects what it returns (with the text of
  the inserted lines) and what it writes; \<open>script_run\<close> does the same with the script.
\<close>

fun run_process :: "nat \<Rightarrow> nat \<Rightarrow> diff_state \<Rightarrow> ((diffstate \<times> string) list \<times> string) res" where
  "run_process n 0 st = Inr ([], [])"
| "run_process n (Suc k) st =
     bindE (process [] n st) (\<lambda>(a, st, out).
     bindE (if a = INSERT then get_insert_line st else Inr []) (\<lambda>l.
     bindE (run_process n k st) (\<lambda>(rest, out'). Inr ((a, l) # rest, out @ out'))))"

fun script_run :: "nat \<Rightarrow> diffstate \<Rightarrow> nat \<Rightarrow> act list \<Rightarrow> (diffstate \<times> string) list \<times> string" where
  "script_run n p 0 acts = ([], [])"
| "script_run n p (Suc k) acts =
     (let (q, acts') = script_step acts; (rest, out) = script_run n q k acts'
      in ((q, case acts of Ins x # _ \<Rightarrow> x @ [newline] | _ \<Rightarrow> []) # rest, ctl p q n @ out))"

lemma get_insert_line_ins:
  assumes "ds_state st = INSERT" and "ds_linebuf st = ins_line x" and "plain_line x"
  shows "get_insert_line st = Inr (x @ [newline])"
  using assms c_str_plain [of x] by (simp add: get_insert_line_def ins_line_def c_str_def)

lemma run_process_script:
  assumes "sim st acts" and "\<forall>x. Ins x \<in> set acts \<longrightarrow> plain_line x"
  shows "run_process n k st = Inr (script_run n (ds_state st) k acts)"
  using assms
proof (induction k arbitrary: st acts)
  case (Suc k)
  obtain st' where p: "process [] n st = Inr (fst (script_step acts), st', ctl (ds_state st) (fst (script_step acts)) n)"
      and s: "sim st' (snd (script_step acts))" and k: "ds_state st' = fst (script_step acts)"
      and t: "\<forall>x r. acts = Ins x # r \<longrightarrow> ds_linebuf st' = ins_line x"
    using process_step [OF Suc.prems(1), of "[]" n] by auto
  have "\<forall>x. Ins x \<in> set (snd (script_step acts)) \<longrightarrow> plain_line x"
    using Suc.prems(2) by (cases acts) auto
  from Suc.IH [OF s this] have r: "run_process n k st' = Inr (script_run n (fst (script_step acts)) k (snd (script_step acts)))"
    by (simp add: k)
  show ?case
  proof (cases acts)
    case Nil
    then show ?thesis using p r by (auto simp: Let_def split: prod.splits)
  next
    case (Cons a as)
    then show ?thesis
      using p r t k Suc.prems(2) get_insert_line_ins [of st']
      by (cases a) (auto simp: Let_def split: prod.splits)
  qed
qed simp

text \<open>
  C11. The machine run on what \<open>diff\<close> prints for a list of hunks: any number of calls of
  \<open>process\<close> gives back the script of the hunks (unchanged, deleted and inserted lines, the
  latter with their text), followed by the end state, and writes the control lines of the
  changes of state. No call fails.
\<close>

theorem process_follows_diff:
  assumes "hunks_ok True hs" and "old_count (acts_of hs) \<le> max_line" and "new_count (acts_of hs) \<le> max_line"
    and "\<forall>h \<in> set hs. \<forall>x \<in> set (h_adds h). plain_line x"
  shows "run_process n k (new_diff_state (render 0 0 hs) echo) = Inr (script_run n START k (acts_of hs))"
proof -
  have "Ins x \<in> set (acts_of hs) \<Longrightarrow> \<exists>h \<in> set hs. x \<in> set (h_adds h)" for x
    by (induction hs) (auto simp: change_acts_def)
  then have "\<forall>x. Ins x \<in> set (acts_of hs) \<longrightarrow> plain_line x" using assms(4) by blast
  then show ?thesis
    using run_process_script [OF sim_new [OF assms(1-3)]] by (simp add: new_diff_state_def)
qed

theorem process_follows_diff_witness:
  "run_process 7 4 (new_diff_state [''2c2'' @ [newline], ''< b'' @ [newline], ''---'' @ [newline], ''> x'' @ [newline]] False)
   = Inr ([(NOCHANGE, []), (DELETE, []), (INSERT, ''x'' @ [newline]), (END, [])],
          control_text (CHR ''D'') 7 @ control_text (CHR ''E'') 7 @ control_text (CHR ''I'') 7 @ control_text (CHR ''E'') 7)"
proof -
  let ?h = "\<lparr>h_keep = 1, h_dels = [''b''], h_adds = [''x'']\<rparr>"
  have "show_nat 2 = ''2''" by code_simp
  then have "render 0 0 [?h] = [''2c2'' @ [newline], ''< b'' @ [newline], ''---'' @ [newline], ''> x'' @ [newline]]"
    by (simp add: header_def show_range_def hunk_body_def del_line_def ins_line_def eval_nat_numeral)
  moreover have "run_process 7 4 (new_diff_state (render 0 0 [?h]) False) = Inr (script_run 7 START 4 (acts_of [?h]))"
    by (rule process_follows_diff) (simp_all add: hunk_ok_def change_acts_def max_line_def plain_line_def)
  moreover have "script_run 7 START 4 (acts_of [?h])
     = ([(NOCHANGE, []), (DELETE, []), (INSERT, ''x'' @ [newline]), (END, [])],
          control_text (CHR ''D'') 7 @ control_text (CHR ''E'') 7 @ control_text (CHR ''I'') 7 @ control_text (CHR ''E'') 7)"
    by (simp add: change_acts_def ctl_def eval_nat_numeral)
  ultimately show ?thesis by simp
qed

end
