(* ===== verification/Body_Scanner.thy ===== *)
theory Body_Scanner
  imports Version_Select Diff_State
begin

text \<open>
  \<open>class sccs_file_body_scanner\<close> (body-scanner.h, body-scanner.cc): the body of an s-file, read
  line by line. \<open>get\<close> writes a version, \<open>delta\<close> writes a new body from the old one and the output
  of \<open>diff\<close>, \<open>remove\<close> takes a delta out, \<open>emit_raw_body\<close> and \<open>print_body\<close> copy.

  The body is the list of lines that \<open>read_line\<close> returns (see \<open>Line_Reader\<close>); what is written is
  a string. The member functions and function pointers that \<open>get\<close> is given are parameters here
  as they are in the source. In \<open>delta\<close> the variable \<open>c\<close> is not initialised when the body has
  ended; the only reachable effect, that an unfinished body counts one more unchanged line, is
  modelled as if \<open>c\<close> were not \<open>-1\<close>.
\<close>

text \<open>The output function for bodies that are not encoded (bodyio.cc).\<close>

definition output_body_line_text :: "string \<Rightarrow> string" where
  "output_body_line_text l = linebuf_write l @ [newline]"

section \<open>get\<close>

record subst_parms =
  sp_outname :: string
  sp_module_name :: string
  wstring :: "string option"
  sp_out :: string
  sp_delta :: delta
  sp_out_lineno :: nat
  sp_now :: sccs_date
  found_id :: bool

definition write_out :: "string \<Rightarrow> subst_parms \<Rightarrow> subst_parms" where
  "write_out s p = p\<lparr>sp_out := sp_out p @ s\<rparr>"

record get_env =
  ge_table :: delta_table
  ge_write_subst :: "string \<Rightarrow> delta \<Rightarrow> bool \<Rightarrow> subst_parms \<Rightarrow> subst_parms res"
  ge_outputfn :: "string \<Rightarrow> string"
  ge_encoded :: bool
  ge_do_kw_subst :: bool
  ge_show_module :: bool
  ge_show_sid :: bool

text \<open>A line of text that belongs to the version.\<close>

definition get_text_line :: "get_env \<Rightarrow> seq_state \<Rightarrow> string \<Rightarrow> subst_parms \<Rightarrow> subst_parms res" where
  "get_text_line g st l p =
     (let p = p\<lparr>sp_out_lineno := (sp_out_lineno p + 1) mod 4294967296\<rparr>;
          p = (if ge_show_module g then write_out (sp_module_name p @ [CHR 0x09]) p else p) in
      bindE (if ge_show_sid g then
               bindE (delta_at_seq (ge_table g) (active_seq st)) (\<lambda>d.
               bindE (sid_print (delta_id d)) (\<lambda>t. Inr (write_out (t @ [CHR 0x09]) p)))
             else Inr p) (\<lambda>p.
      if ge_do_kw_subst g \<and> \<not> ge_encoded g then
        bindE (ge_write_subst g l (sp_delta p) False p) (\<lambda>p. Inr (write_out [newline] p))
      else
        let p = (if \<not> ge_do_kw_subst g \<and> \<not> found_id p \<and> check_id_keywords l then p\<lparr>found_id := True\<rparr> else p)
        in Inr (write_out (ge_outputfn g l) p)))"

text \<open>A control line: the sequence number and the effect on the state.\<close>

definition badstate :: "(string + 'a) \<Rightarrow> 'a res" where
  "badstate r = (case r of Inl msg \<Rightarrow> Inl (Corrupt (Bad_state msg)) | Inr x \<Rightarrow> Inr x)"

definition apply_control :: "char \<Rightarrow> seq_no \<Rightarrow> seq_state \<Rightarrow> seq_state res" where
  "apply_control c s st =
     (if c = CHR ''E'' then badstate (seq_end s st)
      else if c = CHR ''D'' \<or> c = CHR ''I'' then badstate (seq_start s c st)
      else Inl (Corrupt Unexpected_control_line))"

fun get_loop :: "get_env \<Rightarrow> string list \<Rightarrow> seq_state \<Rightarrow> subst_parms \<Rightarrow> (seq_state \<times> subst_parms) res" where
  "get_loop g [] st p = Inr (st, p)"
| "get_loop g (l # ls) st p =
     (if line_type l = NUL then
        (if \<not> include_line st then get_loop g ls st p
         else bindE (get_text_line g st l p) (\<lambda>p. get_loop g ls st p))
      else
        bindE (check_arg l) (\<lambda>_.
        bindE (strict_atous (drop 3 l)) (\<lambda>s.
        if s < 1 \<or> s > high_seqno (ge_table g) then Inl (Corrupt Invalid_serial_number)
        else bindE (apply_control (line_type l) s st) (\<lambda>st. get_loop g ls st p))))"

definition body_get :: "get_env \<Rightarrow> string list \<Rightarrow> seq_state \<Rightarrow> subst_parms \<Rightarrow> (seq_state \<times> subst_parms) res" where
  "body_get g body st p =
     (case body of
        [] \<Rightarrow> Inl (Corrupt Expected_I)
      | l # ls \<Rightarrow>
          if line_type l \<noteq> CHR ''I'' then Inl (Corrupt Expected_I)
          else
            bindE (check_arg l) (\<lambda>_.
            bindE (strict_atous (drop 3 l)) (\<lambda>first.
            let st = (case seq_start first (CHR ''I'') st of Inr st' \<Rightarrow> st' | Inl _ \<Rightarrow> st)
            in get_loop g ls st p)))"

section \<open>delta\<close>

record delta_result =
  dr_inserted :: nat
  dr_deleted :: nat
  dr_unchanged :: nat

definition line_fits :: "nat \<Rightarrow> string \<Rightarrow> bool" where
  "line_fits len_max pline \<longleftrightarrow> len_max = 0 \<or> length pline - 1 < len_max"

lemma ds_read_line_shorter: "ds_read_line st = (True, st') \<Longrightarrow> length (ds_in st') < length (ds_in st)"
  by (auto simp: ds_read_line_def split: list.splits)

lemma ds_read_line_le: "ds_read_line st = (b, st') \<Longrightarrow> length (ds_in st') \<le> length (ds_in st)"
  by (auto simp: ds_read_line_def split: list.splits)

lemma bindE_InrE:
  assumes "bindE m f = Inr y"
  obtains x where "f x = Inr y"
  using assms by (cases m) auto

lemma parse_command_in: "parse_command st = Inr st' \<Longrightarrow> ds_in st' = ds_in st"
  unfolding parse_command_def Let_def diff_output_corrupt_def
  by (elim bindE_InrE case_prodE | clarsimp split: prod.splits if_split_asm)+

lemma ds_next_state_le: "ds_next_state st = Inr st' \<Longrightarrow> length (ds_in st') \<le> length (ds_in st)"
  by (auto simp: ds_next_state_def diff_output_corrupt_def split: if_splits prod.splits bool.splits
      dest!: parse_command_in ds_read_line_le)

lemma consume_insert_shorter:
  "consume st out = Inr (INSERT, st', out') \<Longrightarrow> length (ds_in st') < length (ds_in st)"
  by (auto simp: consume_def diff_output_corrupt_def bindE_eq_Inr Let_def
      split: if_splits prod.splits bool.splits dest!: ds_read_line_shorter)

lemma process_insert_shorter:
  assumes "process out n st = Inr (INSERT, st', out')"
  shows "length (ds_in st') < length (ds_in st)"
proof -
  from assms show ?thesis
    by (auto simp: process_consume bindE_eq_Inr Let_def split: if_splits
        dest!: consume_insert_shorter ds_next_state_le)
qed

text \<open>
  The inner loop for a line of the predecessor: emit the lines that \<open>diff\<close> inserts before it,
  then count it as deleted or unchanged.
\<close>

function line_loop ::
  "nat \<Rightarrow> seq_no \<Rightarrow> diff_state \<Rightarrow> delta_result \<Rightarrow> string \<Rightarrow> (diff_state \<times> delta_result \<times> string) res" where
  "line_loop len_max n ds r out =
     (case process out n ds of
        Inl e \<Rightarrow> Inl e
      | Inr (action, ds', out') \<Rightarrow>
          if action = DELETE then Inr (ds', r\<lparr>dr_deleted := dr_deleted r + 1\<rparr>, out')
          else if action = INSERT then
            bindE (get_insert_line ds') (\<lambda>pline.
              if line_fits len_max pline
              then line_loop len_max n ds' (r\<lparr>dr_inserted := dr_inserted r + 1\<rparr>) (out' @ pline)
              else Inl (Failed Line_too_long))
          else if action = END \<or> action = NOCHANGE then
            Inr (ds', r\<lparr>dr_unchanged := dr_unchanged r + 1\<rparr>, out')
          else Inl Assertion)"
  by pat_completeness auto
termination
  by (relation "measure (\<lambda>(lm, n, ds, r, out). length (ds_in ds))")
     (auto dest: process_insert_shorter simp: eq_commute)

text \<open>The loop after the end of the body: a block inserted at the end of the file.\<close>

function tail_loop ::
  "nat \<Rightarrow> seq_no \<Rightarrow> diff_state \<Rightarrow> delta_result \<Rightarrow> string \<Rightarrow> (delta_result \<times> string) res" where
  "tail_loop len_max n ds r out =
     (case process out n ds of
        Inl e \<Rightarrow> Inl e
      | Inr (action, ds', out') \<Rightarrow>
          if action = INSERT then
            bindE (get_insert_line ds') (\<lambda>pline.
              if line_fits len_max pline
              then tail_loop len_max n ds' (r\<lparr>dr_inserted := dr_inserted r + 1\<rparr>) (out' @ pline)
              else Inl (Failed Line_too_long))
          else Inr (r, out'))"
  by pat_completeness auto
termination
  by (relation "measure (\<lambda>(lm, n, ds, r, out). length (ds_in ds))")
     (auto dest: process_insert_shorter simp: eq_commute)

declare line_loop.simps [simp del] tail_loop.simps [simp del]

fun delta_loop ::
  "nat \<Rightarrow> seq_no \<Rightarrow> seq_no \<Rightarrow> string list \<Rightarrow> seq_state \<Rightarrow> diff_state \<Rightarrow> delta_result \<Rightarrow> string \<Rightarrow>
   (delta_result \<times> string) res" where
  "delta_loop len_max high n [] st ds r out =
     bindE (if include_line st then line_loop len_max n ds r out else Inr (ds, r, out)) (\<lambda>(ds, r, out).
       tail_loop len_max n ds r out)"
| "delta_loop len_max high n (l # ls) st ds r out =
     (if line_type l \<noteq> NUL then
        bindE (strict_atous (drop 3 l)) (\<lambda>s.
        if s < 1 \<or> s > high then Inl (Corrupt Invalid_sequence_number)
        else bindE (apply_control (line_type l) s st) (\<lambda>st.
          delta_loop len_max high n ls st ds r (out @ l @ [newline])))
      else
        bindE (if include_line st then line_loop len_max n ds r out else Inr (ds, r, out)) (\<lambda>(ds, r, out).
          delta_loop len_max high n ls st ds r (out @ l @ [newline])))"

definition body_delta ::
  "nat \<Rightarrow> string list \<Rightarrow> seq_no \<Rightarrow> seq_no \<Rightarrow> seq_state \<Rightarrow> string list \<Rightarrow> bool \<Rightarrow> (delta_result \<times> string) res" where
  "body_delta len_max body high n st diff_out display =
     delta_loop len_max high n body st (new_diff_state diff_out display)
       \<lparr>dr_inserted = 0, dr_deleted = 0, dr_unchanged = 0\<rparr> []"

section \<open>remove\<close>

datatype update_state = COPY | RM_DELETE | RM_INSERT

definition rm_next_state :: "update_state \<Rightarrow> char \<Rightarrow> update_state option" where
  "rm_next_state current key =
     (if current = COPY then
        (if key = CHR ''I'' then Some RM_INSERT else if key = CHR ''D'' then Some RM_DELETE else None)
      else if key = CHR ''E'' then Some COPY else None)"

fun remove_body :: "string list \<Rightarrow> seq_no \<Rightarrow> update_state \<Rightarrow> string \<Rightarrow> string res" where
  "remove_body [] s state out = (if state \<noteq> COPY then Inl (Failed Unexpected_eof) else Inr out)"
| "remove_body (l # ls) s state out =
     (if line_type l \<noteq> NUL then
        bindE (check_arg l) (\<lambda>_.
        bindE (strict_atous (drop 3 l)) (\<lambda>m.
        if m = s then
          (case rm_next_state state (line_type l) of
             None \<Rightarrow> Inl (Failed Unexpected_control_line)
           | Some state' \<Rightarrow> remove_body ls s state' out)
        else if state = RM_INSERT then Inl (Failed Non_terminal_delta)
        else remove_body ls s state (out @ l @ [newline])))
      else if state \<noteq> RM_INSERT then remove_body ls s state (out @ l @ [newline])
      else remove_body ls s state out)"

definition body_remove :: "string list \<Rightarrow> seq_no \<Rightarrow> string res" where
  "body_remove body s = remove_body body s COPY []"

section \<open>Copying\<close>

fun emit_raw_body :: "string list \<Rightarrow> string \<Rightarrow> string" where
  "emit_raw_body [] out = out"
| "emit_raw_body (l # ls) out = emit_raw_body ls (out @ l @ [newline])"

text \<open>\<open>print_body\<close> works on characters: \<open>^A\<close> becomes \<open>***\<close>, and text lines are indented.\<close>

fun print_body_loop :: "string \<Rightarrow> string \<Rightarrow> string" where
  "print_body_loop [] out = out"
| "print_body_loop (ch # s) out =
     (if ch = ctrl_A then print_body_loop s (out @ ''*** '')
      else if ch = newline then
        (if s = [] then out @ [newline]
         else if hd s = ctrl_A then print_body_loop s (out @ [newline])
         else print_body_loop s (out @ [newline, CHR 0x09]))
      else print_body_loop s (out @ [ch]))"

definition print_body :: "string \<Rightarrow> string" where
  "print_body body = print_body_loop body [newline]"

end
