(* ===== verification/Keywords.thy ===== *)
theory Keywords
  imports Sccs_File Body_Scanner
begin

text \<open>
  Keyword substitution (writesubst.cc), the check for keywords in a file (sf-kw.cc) and
  \<open>sccs_file::do_get\<close> (sf-get.cc), which hands the substitution to the body scanner.

  \<open>write_subst\<close> calls itself for the keywords W and A. The model bounds the depth of these
  calls by a number and gives \<open>Diverged\<close> when it is used up; a depth of three is always
  enough, whatever the string of the \<open>-w\<close> option is. \<open>canonify_filename\<close> asks the operating
  system; it is a parameter, \<open>None\<close> being its failure.
\<close>

section \<open>Substitution\<close>

definition expand_keyletter :: "char \<Rightarrow> char list \<Rightarrow> bool" where
  "expand_keyletter which expanded = (if expanded = [] then True else which \<in> set expanded)"

definition put :: "subst_parms \<Rightarrow> string res \<Rightarrow> (bool \<times> subst_parms) res" where
  "put p t = bindE t (\<lambda>s. Inr (False, write_out s p))"

text \<open>The strings that W and A stand for.\<close>

definition default_wstring :: string where
  "default_wstring = ''%Z%%M%'' @ [CHR 0x09] @ ''%I%''"

definition what_string :: string where
  "what_string = ''%Z%%Y% %M% %I%%Z%''"

text \<open>
  \<open>emit_keyletter_expansion\<close>: \<open>recurse\<close> stands for the recursive call of \<open>write_subst\<close>. The
  result is \<open>True\<close> for a letter that is not a keyword.
\<close>

definition emit_keyletter_expansion ::
  "(string \<Rightarrow> subst_parms \<Rightarrow> subst_parms res) \<Rightarrow> (string \<Rightarrow> string option) \<Rightarrow> sccs_file \<Rightarrow> delta \<Rightarrow>
   char \<Rightarrow> subst_parms \<Rightarrow> (bool \<times> subst_parms) res" where
  "emit_keyletter_expansion recurse canonify f d c p =
     (if c = CHR ''M'' then put p (Inr (get_module_name f))
      else if c = CHR ''I'' then put p (sid_print (delta_id d))
      else if c = CHR ''R'' then put p (sid_printf (delta_id d) (CHR ''R'') True)
      else if c = CHR ''L'' then put p (sid_printf (delta_id d) (CHR ''L'') True)
      else if c = CHR ''B'' then put p (sid_printf (delta_id d) (CHR ''B'') True)
      else if c = CHR ''S'' then put p (sid_printf (delta_id d) (CHR ''S'') True)
      else if c = CHR ''D'' then put p (date_printf (sp_now p) (CHR ''D''))
      else if c = CHR ''H'' then put p (date_printf (sp_now p) (CHR ''H''))
      else if c = CHR ''T'' then put p (date_printf (sp_now p) (CHR ''T''))
      else if c = CHR ''E'' then put p (date_printf (delta_date d) (CHR ''D''))
      else if c = CHR ''G'' then put p (date_printf (delta_date d) (CHR ''H''))
      else if c = CHR ''U'' then put p (date_printf (delta_date d) (CHR ''T''))
      else if c = CHR ''Y'' then put p (Inr (case fl_type (sf_flags f) of Some t \<Rightarrow> t | None \<Rightarrow> []))
      else if c = CHR ''F'' then put p (base_part (sname (sf_name f)))
      else if c = CHR ''P'' then
        (case canonify (sname (sf_name f)) of
           None \<Rightarrow> Inl (Failed (Message ''canonify''))
         | Some path \<Rightarrow> put p (Inr path))
      else if c = CHR ''Q'' then put p (Inr (case user_def (sf_flags f) of Some t \<Rightarrow> t | None \<Rightarrow> []))
      else if c = CHR ''C'' then put p (Inr (show_nat (sp_out_lineno p)))
      else if c = CHR ''Z'' then put p (Inr ''@(#)'')
      else if c = CHR ''W'' then
        (let saved = (case wstring p of None \<Rightarrow> default_wstring | Some w \<Rightarrow> w) in
         bindE (recurse saved (p\<lparr>wstring := None\<rparr>)) (\<lambda>p.
           Inr (False, if wstring p = None then p\<lparr>wstring := Some saved\<rparr> else p)))
      else if c = CHR ''A'' then bindE (recurse what_string p) (\<lambda>p. Inr (False, p))
      else Inr (True, p))"

text \<open>
  The loop of \<open>write_subst\<close>: \<open>pre\<close> is the text from \<open>start\<close> to the place where the next percent
  sign is searched, \<open>s\<close> the text from there on.
\<close>

function subst_loop ::
  "(char \<Rightarrow> subst_parms \<Rightarrow> (bool \<times> subst_parms) res) \<Rightarrow> (char \<Rightarrow> bool) \<Rightarrow> string \<Rightarrow> string \<Rightarrow> subst_parms \<Rightarrow> subst_parms res" where
  "subst_loop emit expand pre s p =
     (case split_at (CHR ''%'') s of
        (a, None) \<Rightarrow> Inr (write_out (pre @ s) p)
      | (a, Some r) \<Rightarrow>
          if char_at r 0 \<noteq> NUL \<and> char_at r 1 = CHR ''%'' then
            (if \<not> expand (char_at r 0) then
               subst_loop emit expand [] (drop 2 r) (write_out (pre @ a @ [CHR ''%'', char_at r 0, CHR ''%'']) p)
             else
               bindE (emit (char_at r 0) (write_out (pre @ a) p)) (\<lambda>(unknown, p).
                 if unknown then subst_loop emit expand [CHR ''%'', char_at r 0] (drop 1 r) p
                 else subst_loop emit expand [] (drop 2 r) (p\<lparr>found_id := True\<rparr>)))
          else subst_loop emit expand (pre @ a @ [CHR ''%'']) r p)"
  by pat_completeness auto
termination
proof (relation "measure (\<lambda>(emit, expand, pre, s, p). length s)", goal_cases)
  case 1
  show ?case by simp
qed (auto dest!: split_at_Some_length [OF sym])

declare subst_loop.simps [simp del]

fun write_subst ::
  "nat \<Rightarrow> (string \<Rightarrow> string option) \<Rightarrow> sccs_file \<Rightarrow> string \<Rightarrow> delta \<Rightarrow> bool \<Rightarrow> subst_parms \<Rightarrow> subst_parms res" where
  "write_subst 0 canonify f start d force p = Inl Diverged"
| "write_subst (Suc depth) canonify f start d force p =
     subst_loop (emit_keyletter_expansion (\<lambda>s. write_subst depth canonify f s d True) canonify f d)
       (\<lambda>c. force \<or> expand_keyletter c (flag_letters (sf_flags f))) [] start p"

section \<open>Keywords in a file\<close>

text \<open>\<open>no_id_keywords\<close> warns, or throws when the \<open>i\<close> flag is set.\<close>

definition no_id_keywords_action :: "sccs_file \<Rightarrow> unit res" where
  "no_id_keywords_action f =
     (if no_id_keywords_is_fatal (sf_flags f) then Inl (Fatal (Message ''No id keywords'')) else Inr ())"

text \<open>The loop over the characters of the file; \<open>lst\<close> is the previous character.\<close>

fun file_keyword_loop :: "char \<Rightarrow> string \<Rightarrow> bool" where
  "file_keyword_loop lst [] = False"
| "file_keyword_loop lst (ch # s) =
     (if lst = CHR ''%'' \<and> is_id_keyword_letter ch then
        (case s of [] \<Rightarrow> False | pk # r \<Rightarrow> if pk = CHR ''%'' then True else file_keyword_loop ch s)
      else file_keyword_loop ch s)"

definition check_keywords_in_file :: "sccs_file \<Rightarrow> string \<Rightarrow> unit res" where
  "check_keywords_in_file f content =
     (if file_keyword_loop newline content then Inr () else no_id_keywords_action f)"

section \<open>do_get\<close>

definition do_get ::
  "(string \<Rightarrow> string option) \<Rightarrow> sccs_file \<Rightarrow> seq_state \<Rightarrow> subst_parms \<Rightarrow> bool \<Rightarrow> bool \<Rightarrow> bool \<Rightarrow> bool \<Rightarrow> bool \<Rightarrow>
   (seq_state \<times> subst_parms) res" where
  "do_get canonify f st parms do_kw_subst show_sid show_module no_decode for_edit =
     bindE (ASSERT (sf_mode f \<noteq> CREATE)) (\<lambda>_.
     bindE (ASSERT (sf_mode f \<noteq> FIX_CHECKSUM)) (\<lambda>_.
     bindE (edit_mode_permitted f for_edit) (\<lambda>_.
       body_get
         \<lparr>ge_table = sf_table f, ge_write_subst = (\<lambda>s d force p. write_subst 3 canonify f s d force p),
          ge_outputfn = (if fl_encoded (sf_flags f) \<and> \<not> no_decode then output_body_line_binary else output_body_line_text),
          ge_encoded = fl_encoded (sf_flags f), ge_do_kw_subst = do_kw_subst,
          ge_show_module = show_module, ge_show_sid = show_sid\<rparr>
         (sf_body f) st parms)))"

section \<open>The depth of the recursion\<close>

definition okr :: "('a \<Rightarrow> bool) \<Rightarrow> 'a res \<Rightarrow> bool" where
  "okr P r \<longleftrightarrow> (case r of Inl e \<Rightarrow> e \<noteq> Diverged | Inr x \<Rightarrow> P x)"

lemma okr_simps [simp]: "okr P (Inr x) = P x" "okr P (Inl e) \<longleftrightarrow> e \<noteq> Diverged"
  by (simp_all add: okr_def)

lemma okr_bindE: "okr Q m \<Longrightarrow> (\<And>x. m = Inr x \<Longrightarrow> Q x \<Longrightarrow> okr P (g x)) \<Longrightarrow> okr P (bindE m g)"
  by (cases m) auto

lemma wstring_write_out [simp]: "wstring (write_out t p) = wstring p"
  by (simp add: write_out_def)

lemma in_set_char_at: "i < length s \<Longrightarrow> char_at s i \<in> set s"
  by (simp add: char_at_def)

lemma split_at_Some: "split_at c s = (a, Some r) \<Longrightarrow> s = a @ c # r \<and> c \<notin> set a"
  by (induction s arbitrary: a) (auto split: if_splits prod.splits)

lemma split_at_None: "split_at c s = (a, None) \<Longrightarrow> a = s \<and> c \<notin> set s"
  by (induction s arbitrary: a) (auto split: if_splits prod.splits)

text \<open>
  A loop whose keywords keep a property of the \<open>-w\<close> string does so as well, and only depends on
  what its keywords do under that property.
\<close>

lemma subst_loop_keeps:
  assumes "\<And>c p. c \<in> set s \<Longrightarrow> W (wstring p) \<Longrightarrow> emit c p = emit' c p \<and> okr (\<lambda>(b, p). W (wstring p)) (emit' c p)"
    and "W (wstring p)"
  shows "subst_loop emit expand pre s p = subst_loop emit' expand pre s p
     \<and> okr (\<lambda>p. W (wstring p)) (subst_loop emit' expand pre s p)"
  using assms
proof (induction "length s" arbitrary: s pre p rule: less_induct)
  case less
  show ?case
  proof (cases "split_at (CHR ''%'') s")
    case (Pair a ro)
    show ?thesis
    proof (cases ro)
      case None
      then show ?thesis using Pair less.prems by (simp add: subst_loop.simps [of _ _ _ s])
    next
      case (Some r)
      then have s: "s = a @ CHR ''%'' # r" using split_at_Some Pair by auto
      have IH: "subst_loop emit expand pre' s' p' = subst_loop emit' expand pre' s' p'
          \<and> okr (\<lambda>p. W (wstring p)) (subst_loop emit' expand pre' s' p')"
        if "length s' \<le> length r" "set s' \<subseteq> set r" "W (wstring p')" for s' pre' p'
        using that by (intro less.hyps) (auto simp: s intro!: less.prems(1))
      have drops: "set (drop n r) \<subseteq> set r" for n by (rule set_drop_subset)
      show ?thesis
      proof (cases "char_at r 0 \<noteq> NUL \<and> char_at r 1 = CHR ''%'' \<and> expand (char_at r 0)")
        case True
        then have "r \<noteq> []" by auto
        then have "char_at r 0 \<in> set s" using in_set_char_at [of 0 r] by (simp add: s)
        note e = less.prems(1) [OF this, of "write_out (pre @ a) p"]
        have "subst_loop emit expand pre s p =
            bindE (emit' (char_at r 0) (write_out (pre @ a) p)) (\<lambda>(unknown, p).
                 if unknown then subst_loop emit expand [CHR ''%'', char_at r 0] (drop 1 r) p
                 else subst_loop emit expand [] (drop 2 r) (p\<lparr>found_id := True\<rparr>))"
          "subst_loop emit' expand pre s p =
            bindE (emit' (char_at r 0) (write_out (pre @ a) p)) (\<lambda>(unknown, p).
                 if unknown then subst_loop emit' expand [CHR ''%'', char_at r 0] (drop 1 r) p
                 else subst_loop emit' expand [] (drop 2 r) (p\<lparr>found_id := True\<rparr>))"
          using e less.prems(2) True by (simp_all add: subst_loop.simps [of _ _ _ s] Pair Some)
        then show ?thesis
          using e less.prems(2) IH drops
          by (cases "emit' (char_at r 0) (write_out (pre @ a) p)") (auto split: if_split)
      next
        case False
        then show ?thesis using IH drops less.prems(2)
          by (auto simp: subst_loop.simps [of _ _ _ s] Pair Some)
      qed
    qed
  qed
qed

lemma put_ok: "okr (\<lambda>_. True) t \<Longrightarrow> W (wstring p) \<Longrightarrow> okr (\<lambda>(b, p). W (wstring p)) (put p t)"
  by (cases t) (simp_all add: put_def)

lemma prints_ok: "okr (\<lambda>_. True) (sid_print s)" "okr (\<lambda>_. True) (sid_printf s c b)" "okr (\<lambda>_. True) (date_printf d c)"
  "okr (\<lambda>_. True) (base_part n)"
  by (simp_all add: sid_print_def sid_printf_def date_printf_def base_part_def split_filename_def ASSERT_def okr_def bindE_def
      split: option.split)

text \<open>The keywords other than W and A do not call \<open>write_subst\<close>.\<close>

lemma emit_simple:
  assumes "c \<noteq> CHR ''W''" and "c \<noteq> CHR ''A''" and "W (wstring p)"
  shows "emit_keyletter_expansion g canonify f d c p = emit_keyletter_expansion h canonify f d c p
     \<and> okr (\<lambda>(b, p). W (wstring p)) (emit_keyletter_expansion h canonify f d c p)"
  using assms put_ok [of _ W p] prints_ok
  unfolding emit_keyletter_expansion_def by (simp split: option.split)

lemma fixed_strings:
  "CHR ''W'' \<notin> set default_wstring" "CHR ''A'' \<notin> set default_wstring"
  "CHR ''W'' \<notin> set what_string" "CHR ''A'' \<notin> set what_string"
  by (simp_all add: default_wstring_def what_string_def)

lemma depth_1:
  assumes "CHR ''W'' \<notin> set s" and "CHR ''A'' \<notin> set s"
  shows "write_subst (Suc n) canonify f s d force p = write_subst 1 canonify f s d force p
     \<and> okr (\<lambda>q. wstring q = wstring p) (write_subst 1 canonify f s d force p)"
proof -
  have "emit_keyletter_expansion g canonify f d c q = emit_keyletter_expansion h canonify f d c q
      \<and> okr (\<lambda>(b, q). wstring q = wstring p) (emit_keyletter_expansion h canonify f d c q)"
    if "c \<in> set s" "wstring q = wstring p" for c q g h
    using that assms by (intro emit_simple) auto
  from subst_loop_keeps [of s "\<lambda>w. w = wstring p", OF this] show ?thesis by simp
qed

lemma depth_2:
  assumes "wstring p = None \<or> wstring p = Some default_wstring"
  shows "write_subst (Suc (Suc n)) canonify f s d force p = write_subst 2 canonify f s d force p
     \<and> okr (\<lambda>q. wstring q = None \<or> wstring q = Some default_wstring) (write_subst 2 canonify f s d force p)"
proof -
  let ?W = "\<lambda>w. w = None \<or> w = Some default_wstring"
  have "emit_keyletter_expansion (\<lambda>s. write_subst (Suc n) canonify f s d True) canonify f d c q =
        emit_keyletter_expansion (\<lambda>s. write_subst 1 canonify f s d True) canonify f d c q
      \<and> okr (\<lambda>(b, q). ?W (wstring q)) (emit_keyletter_expansion (\<lambda>s. write_subst 1 canonify f s d True) canonify f d c q)"
    if "?W (wstring q)" for c q
  proof -
    note fixed = depth_1 [OF fixed_strings(1,2), of n canonify f d True "q\<lparr>wstring := None\<rparr>"]
      depth_1 [OF fixed_strings(3,4), of n canonify f d True q]
    consider "c = CHR ''W''" | "c = CHR ''A''" | "c \<noteq> CHR ''W''" "c \<noteq> CHR ''A''" by blast
    then show ?thesis
    proof cases
      case 1
      have "(case wstring q of None \<Rightarrow> default_wstring | Some w \<Rightarrow> w) = default_wstring" using that by auto
      then show ?thesis using 1 fixed(1)
        by (auto simp: emit_keyletter_expansion_def Let_def simp del: write_subst.simps One_nat_def intro!: okr_bindE)
    next
      case 2
      then show ?thesis using fixed(2) that
        by (auto simp: emit_keyletter_expansion_def simp del: write_subst.simps One_nat_def intro!: okr_bindE)
    next
      case 3
      then show ?thesis by (rule emit_simple) (rule that)
    qed
  qed
  from subst_loop_keeps [of s ?W, OF this assms] show ?thesis by (simp add: numeral_2_eq_2)
qed

lemma depth_3:
  "write_subst (Suc (Suc (Suc n))) canonify f s d force p = write_subst 3 canonify f s d force p
   \<and> okr (\<lambda>_. True) (write_subst 3 canonify f s d force p)"
proof -
  let ?W = "\<lambda>w. True"
  have "emit_keyletter_expansion (\<lambda>s. write_subst (Suc (Suc n)) canonify f s d True) canonify f d c q =
        emit_keyletter_expansion (\<lambda>s. write_subst 2 canonify f s d True) canonify f d c q
      \<and> okr (\<lambda>(b, q). ?W (wstring q)) (emit_keyletter_expansion (\<lambda>s. write_subst 2 canonify f s d True) canonify f d c q)"
    for c q
  proof -
    note two = depth_2 [of "q\<lparr>wstring := None\<rparr>" n canonify f _ d True]
      depth_1 [OF fixed_strings(3,4), of "Suc n" canonify f d True q]
      depth_1 [OF fixed_strings(3,4), of 1 canonify f d True q]
    have what: "write_subst (Suc (Suc n)) canonify f what_string d True q = write_subst 2 canonify f what_string d True q"
      "okr (\<lambda>q'. True) (write_subst 2 canonify f what_string d True q)"
      using two(2,3) by (auto simp: numeral_2_eq_2 okr_def simp del: write_subst.simps split: sum.splits)
    consider "c = CHR ''W''" | "c = CHR ''A''" | "c \<noteq> CHR ''W''" "c \<noteq> CHR ''A''" by blast
    then show ?thesis
    proof cases
      case 1
      then show ?thesis using two(1)
        by (auto simp: emit_keyletter_expansion_def Let_def simp del: write_subst.simps intro!: okr_bindE)
    next
      case 2
      then show ?thesis using what
        by (auto simp: emit_keyletter_expansion_def simp del: write_subst.simps intro!: okr_bindE)
    next
      case 3
      then show ?thesis by (intro emit_simple [where W = ?W]) auto
    qed
  qed
  from subst_loop_keeps [of s ?W, OF this TrueI] show ?thesis by (simp add: numeral_3_eq_3 numeral_2_eq_2)
qed

section \<open>Which text is a keyword\<close>

datatype token = Lit string | Key char

definition keyword_letter :: "char \<Rightarrow> bool" where
  "keyword_letter c \<longleftrightarrow> c \<in> set ''MIRLBSDHTEGUYFPQCZWA''"

fun tokens :: "(char \<Rightarrow> bool) \<Rightarrow> string \<Rightarrow> token list" where
  "tokens expand [] = []"
| "tokens expand (x # s) =
     (case s of
        c # y # r \<Rightarrow>
          if x = CHR ''%'' \<and> y = CHR ''%'' then
            if \<not> expand c then Lit [x, c, y] # tokens expand r
            else if keyword_letter c then Key c # tokens expand r
            else Lit [x] # tokens expand s
          else Lit [x] # tokens expand s
      | _ \<Rightarrow> Lit [x] # tokens expand s)"

fun run_token :: "(char \<Rightarrow> subst_parms \<Rightarrow> (bool \<times> subst_parms) res) \<Rightarrow> subst_parms \<Rightarrow> token \<Rightarrow> subst_parms res" where
  "run_token emit p (Lit t) = Inr (write_out t p)"
| "run_token emit p (Key c) = bindE (emit c p) (\<lambda>(_, p). Inr (p\<lparr>found_id := True\<rparr>))"

lemma write_out_append: "write_out t (write_out s p) = write_out (s @ t) p" and write_out_Nil [simp]: "write_out [] p = p"
  by (simp_all add: write_out_def)

lemma tokens_plain:
  assumes "CHR ''%'' \<notin> set a"
  shows "foldE (run_token emit) p (tokens expand (a @ s)) = foldE (run_token emit) (write_out a p) (tokens expand s)"
  using assms
proof (induction a arbitrary: p)
  case (Cons x a)
  have "tokens expand ((x # a) @ s) = Lit [x] # tokens expand (a @ s)"
    using Cons.prems by (auto split: list.split)
  then show ?case using Cons by (simp add: write_out_append)
qed simp

lemma tokens_percent:
  "\<not> (char_at r 0 \<noteq> NUL \<and> char_at r 1 = CHR ''%'') \<Longrightarrow> NUL \<notin> set r \<Longrightarrow>
     tokens expand (CHR ''%'' # r) = Lit ''%'' # tokens expand r"
  "expand (CHR ''%'') \<Longrightarrow> tokens expand (CHR ''%'' # CHR ''%'' # s) = Lit ''%'' # tokens expand (CHR ''%'' # s)"
  by (auto simp: keyword_letter_def split: list.split)

lemma subst_loop_tokens:
  assumes "NUL \<notin> set s" and "\<And>c p b q. keyword_letter c \<Longrightarrow> emit c p = Inr (b, q) \<Longrightarrow> \<not> b"
    and "\<And>c p. \<not> keyword_letter c \<Longrightarrow> emit c p = Inr (True, p)"
  shows "subst_loop emit expand pre s p = foldE (run_token emit) (write_out pre p) (tokens expand s)"
  using assms(1)
proof (induction "length s" arbitrary: s pre p rule: less_induct)
  case less
  obtain a ro where sp: "split_at (CHR ''%'') s = (a, ro)" by (cases "split_at (CHR ''%'') s")
  show ?case
  proof (cases ro)
    case None
    then have "CHR ''%'' \<notin> set s" using split_at_None sp by blast
    moreover have "subst_loop emit expand pre s p = Inr (write_out (pre @ s) p)"
      by (subst subst_loop.simps) (simp only: sp None, simp)
    ultimately show ?thesis
      using tokens_plain [of s emit "write_out pre p" expand "[]"] by (simp add: write_out_append)
  next
    case (Some r)
    have s: "s = a @ CHR ''%'' # r" and a: "CHR ''%'' \<notin> set a" using split_at_Some sp Some by auto
    note step = subst_loop.simps [of emit expand pre s p, unfolded sp Some, simplified]
    note rhs = tokens_plain [OF a, of emit "write_out pre p" expand "CHR ''%'' # r", folded s]
    show ?thesis
    proof (cases "char_at r 0 \<noteq> NUL \<and> char_at r 1 = CHR ''%''")
      case False
      have "tokens expand (CHR ''%'' # r) = Lit ''%'' # tokens expand r"
        using less.prems by (intro tokens_percent(1) [OF False]) (simp add: s)
      moreover have "subst_loop emit expand pre s p = subst_loop emit expand (pre @ a @ [CHR ''%'']) r p"
        by (subst subst_loop.simps) (simp only: sp Some prod.case option.case False if_False)
      moreover have "subst_loop emit expand (pre @ a @ [CHR ''%'']) r p =
          foldE (run_token emit) (write_out (pre @ a @ [CHR ''%'']) p) (tokens expand r)"
        using less.prems by (intro less.hyps) (simp_all add: s)
      ultimately show ?thesis using rhs by (simp add: write_out_append del: tokens.simps)
    next
      case True
      then obtain c t where r: "r = c # CHR ''%'' # t"
        by (cases r; cases "tl r") auto
      have IH: "subst_loop emit expand pre' t p' = foldE (run_token emit) (write_out pre' p') (tokens expand t)" for pre' p'
        using less.prems by (intro less.hyps) (simp_all add: s r)
      have IH2: "subst_loop emit expand pre' (CHR ''%'' # t) p' = foldE (run_token emit) (write_out pre' p') (tokens expand (CHR ''%'' # t))" for pre' p'
        using less.prems by (intro less.hyps) (simp_all add: s r)
      have c: "c \<noteq> NUL" using True r by simp
      consider (raw) "\<not> expand c" | (key) "expand c" "keyword_letter c" | (other) "expand c" "\<not> keyword_letter c" by blast
      then show ?thesis
      proof cases
        case raw
        then show ?thesis using step rhs IH c by (simp add: r write_out_append)
      next
        case key
        then show ?thesis
          using step rhs IH c assms(2) [of c "write_out (pre @ a) p"]
          by (cases "emit c (write_out (pre @ a) p)") (auto simp: r write_out_append)
      next
        case other
        have "tokens expand (CHR ''%'' # r) = Lit ''%'' # Lit [c] # tokens expand (CHR ''%'' # t)"
        proof (cases "c = CHR ''%''")
          case True
          then show ?thesis using other by (simp add: r tokens_percent(2) del: tokens.simps)
        next
          case False
          then show ?thesis using other by (simp add: r split: list.split)
        qed
        then show ?thesis using step rhs IH2 c other assms(3) by (simp add: r write_out_append del: tokens.simps)
      qed
    qed
  qed
qed

lemma put_known: "put p t = Inr (b, q) \<longleftrightarrow> \<not> b \<and> (\<exists>s. t = Inr s \<and> q = write_out s p)"
  by (cases t) (auto simp: put_def)

lemma emit_known:
  assumes "keyword_letter c" and "emit_keyletter_expansion g canonify f d c p = Inr (b, q)"
  shows "\<not> b"
proof -
  have "\<forall>b q. emit_keyletter_expansion g canonify f d c p = Inr (b, q) \<longrightarrow> \<not> b"
    using assms(1) unfolding keyword_letter_def list.set insert_iff empty_iff
    by (elim disjE)
      (simp_all add: emit_keyletter_expansion_def put_known Let_def bindE_eq_Inr split: option.split)
  then show ?thesis using assms(2) by blast
qed

lemma emit_unknown: "\<not> keyword_letter c \<Longrightarrow> emit_keyletter_expansion g canonify f d c p = Inr (True, p)"
  by (simp add: keyword_letter_def emit_keyletter_expansion_def)

section \<open>Properties\<close>

text \<open>
  C36. Keyword substitution ends: three nested calls of \<open>write_subst\<close> are enough for every line,
  every set of flags and every string of the \<open>-w\<close> option, even one that contains \<open>%W%\<close> itself;
  a greater depth changes nothing.
\<close>

theorem write_subst_ends:
  assumes "3 \<le> n"
  shows "write_subst n canonify f s d force p = write_subst 3 canonify f s d force p
     \<and> write_subst 3 canonify f s d force p \<noteq> Inl Diverged"
proof -
  obtain k where "n = Suc (Suc (Suc k))" using assms by (metis add_Suc_right add_0_right le_Suc_ex numeral_3_eq_3 add.commute)
  then show ?thesis using depth_3 [of k canonify f s d force p] by (auto simp: okr_def simp del: write_subst.simps)
qed

theorem write_subst_ends_witness:
  "write_subst 7 (\<lambda>_. None) (file_start new_name READ) ''%W%'' delta_default False
     \<lparr>sp_outname = [], sp_module_name = [], wstring = Some ''%W%%A%'', sp_out = [], sp_delta = delta_default,
      sp_out_lineno = 0, sp_now = date_default, found_id = False\<rparr> \<noteq> Inl Diverged"
  by (subst write_subst_ends [THEN conjunct1], simp, rule write_subst_ends [THEN conjunct2, of 3], simp)

text \<open>
  C37. A line is read as a sequence of tokens: three characters \<open>%c%\<close> whose letter is a keyword
  that the y flag lets expand are replaced by the expansion of that keyword, three characters
  \<open>%c%\<close> whose letter the y flag excludes are copied whole, and every other character is copied.
\<close>

theorem write_subst_by_tokens:
  assumes "NUL \<notin> set s"
  shows "write_subst 3 canonify f s d force p =
     foldE (run_token (emit_keyletter_expansion (\<lambda>s. write_subst 2 canonify f s d True) canonify f d)) p
       (tokens (\<lambda>c. force \<or> expand_keyletter c (flag_letters (sf_flags f))) s)"
  using subst_loop_tokens [OF assms emit_known emit_unknown]
  by (simp add: numeral_3_eq_3 numeral_2_eq_2)

theorem write_subst_by_tokens_witness:
  "\<exists>q. write_subst 3 (\<lambda>_. None) (file_start new_name READ) ''x %Z% %j%Q%'' delta_default False
     \<lparr>sp_outname = [], sp_module_name = [], wstring = None, sp_out = [], sp_delta = delta_default,
      sp_out_lineno = 0, sp_now = date_default, found_id = False\<rparr> = Inr q
     \<and> sp_out q = ''x @(#) %j'' \<and> found_id q"
  by (subst write_subst_by_tokens)
    (simp_all add: keyword_letter_def expand_keyletter_def file_start_def flags_default_def emit_keyletter_expansion_def put_def write_out_def)

text \<open>The string of the \<open>-w\<close> option is lost when it contains \<open>%W%\<close>.\<close>

lemma wstring_lost:
  "map_option wstring (case write_subst 3 (\<lambda>_. None) (file_start new_name READ) ''%W%''
      (delta_default\<lparr>delta_id := mk_sid 1 1 0 0\<rparr>) False
      \<lparr>sp_outname = [], sp_module_name = [], wstring = Some ''x%W%'', sp_out = [], sp_delta = delta_default,
       sp_out_lineno = 0, sp_now = date_default, found_id = False\<rparr> of Inl _ \<Rightarrow> None | Inr q \<Rightarrow> Some q) =
   Some (Some default_wstring)"
  by code_simp

end
