(* ===== verification/Sid_Select.thy ===== *)
theory Sid_Select
  imports Sccs_File
begin

text \<open>
  Which SID a request means, which SID a new delta gets, and whether a version may be edited
  (sf-get2.cc).

  The loops that look for a SID that is not in use step through all values of a \<open>short\<close>, which
  wraps around: after 65536 steps the loop has returned to its start, so the model gives up
  there, and its result \<open>Diverged\<close> is exactly a loop that never ends.
\<close>

section \<open>Finding the requested version\<close>

definition sid_matches :: "sid \<Rightarrow> sid \<Rightarrow> bool \<Rightarrow> bool res" where
  "sid_matches requested found get_top_delta =
     (let ncomponents = (if components requested = 2 \<and> \<not> get_top_delta then 4 else components requested) in
      bindE (ASSERT (ncomponents \<le> 4)) (\<lambda>_.
        if ncomponents = 1 then
          if release_of_sid found > release_of_sid requested then Inr False
          else if \<not> get_top_delta \<and> \<not> on_trunk found then Inr False
          else Inr True
        else Inr (sid_matches_fields found requested ncomponents)))"

text \<open>The loop over the deltas, with the best match so far.\<close>

fun best_loop :: "sid \<Rightarrow> bool \<Rightarrow> nat \<Rightarrow> sid option \<Rightarrow> delta list \<Rightarrow> sid option res" where
  "best_loop requested gtop ncomponents best [] = Inr best"
| "best_loop requested gtop ncomponents best (d # ds) =
     bindE (sid_matches requested (delta_id d) gtop) (\<lambda>m.
       if m \<and> (case best of None \<Rightarrow> True | Some b \<Rightarrow> gte (delta_id d) b) then
         if gtop \<and> sid_matches_fields (delta_id d) requested ncomponents then Inr (Some (delta_id d))
         else best_loop requested gtop ncomponents (Some (delta_id d)) ds
       else best_loop requested gtop ncomponents best ds)"

text \<open>The request with the default SID or the highest release filled in.\<close>

definition effective_request :: "sccs_file \<Rightarrow> sid \<Rightarrow> sid" where
  "effective_request f requested =
     (if is_null requested then
        if is_null (default_sid (sf_flags f)) then sid_of_release (release_of_sid (high_release (sf_table f)))
        else default_sid (sf_flags f)
      else requested)"

definition find_requested_sid :: "sccs_file \<Rightarrow> sid \<Rightarrow> bool \<Rightarrow> sid option res" where
  "find_requested_sid f requested get_top_delta =
     (let r = effective_request f requested in
      if is_null requested \<and> is_null (default_sid (sf_flags f)) \<and> \<not> get_top_delta \<and> is_null r then Inr None
      else
        let ncomponents = (if components r = 2 \<and> \<not> get_top_delta then 4 else components r) in
        bindE (ASSERT (ncomponents \<le> 4)) (\<lambda>_.
          best_loop r get_top_delta ncomponents None (selected Current (sf_table f))))"

definition find_requested_seqno :: "sccs_file \<Rightarrow> seq_no \<Rightarrow> sid option res" where
  "find_requested_seqno f requested =
     (if requested > 0 \<and> requested \<le> high_seqno (sf_table f) then
        bindE (delta_at_seq_exists (sf_table f) requested) (\<lambda>ex.
          if ex then bindE (delta_at_seq (sf_table f) requested) (\<lambda>d. Inr (Some (delta_id d))) else Inr None)
      else Inr None)"

section \<open>The SID of a new delta\<close>

definition sid_in_use :: "sccs_file \<Rightarrow> sccs_pfile \<Rightarrow> sid \<Rightarrow> bool" where
  "sid_in_use f p s \<longleftrightarrow> find_delta f s \<noteq> None \<or> find_to_be_created p s \<noteq> None"

fun skip_used :: "nat \<Rightarrow> (sid \<Rightarrow> bool) \<Rightarrow> (sid \<Rightarrow> sid) \<Rightarrow> sid \<Rightarrow> sid res" where
  "skip_used 0 used step s = Inl Diverged"
| "skip_used (Suc n) used step s = (if used s then skip_used n used step (step s) else Inr s)"

text \<open>The successor of the request, before branches are considered.\<close>

definition next_candidate :: "sccs_file \<Rightarrow> sccs_pfile \<Rightarrow> sid \<Rightarrow> sid \<Rightarrow> sid res" where
  "next_candidate f p requested got =
     (if release_only requested then skip_used 65536 (sid_in_use f p) next_level (next_level requested)
      else if partial_sid requested then Inr (sid_inc got)
      else Inr (sid_inc requested))"

text \<open>Whether a collision forces a branch; \<open>None\<close> is the failure that is reported to the caller.\<close>

definition branch_again :: "sccs_file \<Rightarrow> sccs_pfile \<Rightarrow> sid \<Rightarrow> sid \<Rightarrow> bool option" where
  "branch_again f p requested nxt =
     (case find_any_delta f nxt of
        Some d \<Rightarrow>
          if \<not> removed d \<and> \<not> partial_sid requested then Some True
          else Some (sid_in_use f p nxt \<and> joint_edit (sf_flags f))
      | None \<Rightarrow>
          if sid_in_use f p nxt then (if joint_edit (sf_flags f) then Some True else None)
          else Some False)"

text \<open>The result is the new SID and the failure flag.\<close>

definition find_next_sid :: "sccs_file \<Rightarrow> sid \<Rightarrow> sid \<Rightarrow> bool \<Rightarrow> sccs_pfile \<Rightarrow> (sid \<times> bool) res" where
  "find_next_sid f requested0 got want_branch0 p =
     (let want_branch = (want_branch0 \<and> fl_branch (sf_flags f));
          requested = (if \<not> is_null (default_sid (sf_flags f)) then default_sid (sf_flags f) else requested0);
          ncomponents = components requested;
          taken = (\<lambda>s. find_delta f s \<noteq> None \<or> joint_edit (sf_flags f) \<and> is_to_be_created p s);
          finish = (\<lambda>s. bindE (ASSERT (\<not> sid_in_use f p s)) (\<lambda>_. Inr (s, False)))
      in
      bindE (next_candidate f p requested got) (\<lambda>nxt.
        if want_branch then
          bindE (skip_used 65536 taken next_branch (next_branch (if ncomponents < 4 then got else nxt))) finish
        else
          let too_high = (on_trunk requested \<and> release_valid (fl_ceiling (sf_flags f))
                          \<and> release_of_sid requested > fl_ceiling (sf_flags f)) in
          case branch_again f p requested nxt of
            None \<Rightarrow> Inr (nxt, True)
          | Some again \<Rightarrow>
              let not_trunk_top = (ncomponents < 3 \<and> release_of_sid got < release_of_sid (highest_delta_release f)) in
              if too_high \<or> again \<or> not_trunk_top
              then bindE (skip_used 65536 taken next_branch (next_branch got)) finish
              else finish nxt))"

section \<open>Permission to edit\<close>

definition test_locks :: "string \<Rightarrow> (int \<Rightarrow> bool) \<Rightarrow> sccs_file \<Rightarrow> sid \<Rightarrow> sccs_pfile \<Rightarrow> bool" where
  "test_locks myself group_member f got p =
     (if \<not> authorised myself group_member (users f) then False
      else if all_locked (sf_flags f)
              \<or> release_valid (fl_floor (sf_flags f)) \<and> fl_floor (sf_flags f) > release_of_sid got
              \<or> release_valid (fl_ceiling (sf_flags f)) \<and> fl_ceiling (sf_flags f) < release_of_sid got
              \<or> rel_member (locked (sf_flags f)) (release_of_sid got) then False
      else if find_locked p got \<noteq> None \<and> \<not> joint_edit (sf_flags f) then False
      else True)"

section \<open>The best match\<close>

lemma components_le: "components s \<le> 4"
  by (simp add: components_def)

definition matches_request :: "sid \<Rightarrow> bool \<Rightarrow> sid \<Rightarrow> bool" where
  "matches_request r gtop s \<longleftrightarrow>
     (if components r = 1 then release_of_sid s \<le> release_of_sid r \<and> (gtop \<or> on_trunk s)
      else sid_matches_fields s r (if components r = 2 \<and> \<not> gtop then 4 else components r))"

lemma sid_matches_eq: "sid_matches r s gtop = Inr (matches_request r gtop s)"
  using components_le [of r] by (auto simp: sid_matches_def matches_request_def Let_def)

lemma gte_refl: "gte s s" and gte_trans: "gte s t \<Longrightarrow> gte t u \<Longrightarrow> gte s u" and gte_total: "gte s t \<or> gte t s"
  by (auto simp: gte_def split: if_splits)

lemma best_loop_max:
  assumes "best_loop r False n best ds = Inr res"
  shows "(res = None \<longleftrightarrow> best = None \<and> (\<forall>d \<in> set ds. \<not> matches_request r False (delta_id d)))
    \<and> (\<forall>s. res = Some s \<longrightarrow> (best = Some s \<or> (\<exists>d \<in> set ds. delta_id d = s \<and> matches_request r False s))
           \<and> (\<forall>b. best = Some b \<longrightarrow> gte s b)
           \<and> (\<forall>d \<in> set ds. matches_request r False (delta_id d) \<longrightarrow> gte s (delta_id d)))"
  using assms
proof (induction ds arbitrary: best)
  case Nil
  then show ?case by (auto simp: gte_refl)
next
  case (Cons d ds)
  show ?case
  proof (cases "matches_request r False (delta_id d) \<and> (case best of None \<Rightarrow> True | Some b \<Rightarrow> gte (delta_id d) b)")
    case True
    then have "best_loop r False n (Some (delta_id d)) ds = Inr res" using Cons.prems by (simp add: sid_matches_eq)
    from Cons.IH [OF this] show ?thesis
      using True by (auto split: option.splits dest: gte_trans)
  next
    case False
    then have "best_loop r False n best ds = Inr res" using Cons.prems by (auto simp: sid_matches_eq split: if_splits)
    from Cons.IH [OF this] show ?thesis
      using False by (auto split: option.splits dest: gte_trans) (meson gte_total gte_trans)+
  qed
qed

lemma best_loop_top:
  assumes "components r \<noteq> 1" and "n = components r"
  shows "best_loop r True n None ds = Inr (map_option delta_id (List.find (\<lambda>d. matches_request r True (delta_id d)) ds))"
  using assms by (induction ds) (auto simp: sid_matches_eq matches_request_def)

text \<open>
  With \<open>-t\<close> and only a release: the first delta of the release ends the loop; until then all
  matches are of earlier releases.
\<close>

lemma best_loop_release:
  assumes "components r = 1" and "best_loop r True 1 best ds = Inr res" and "\<forall>b. best = Some b \<longrightarrow> rel b < rel r"
  shows "if \<exists>d \<in> set ds. rel (delta_id d) = rel r
     then res = Some (delta_id (hd (filter (\<lambda>d. rel (delta_id d) = rel r) ds)))
     else (res = None \<longleftrightarrow> best = None \<and> (\<forall>d \<in> set ds. \<not> matches_request r True (delta_id d)))
       \<and> (\<forall>s. res = Some s \<longrightarrow> (best = Some s \<or> (\<exists>d \<in> set ds. delta_id d = s \<and> matches_request r True s))
           \<and> (\<forall>b. best = Some b \<longrightarrow> gte s b)
           \<and> (\<forall>d \<in> set ds. matches_request r True (delta_id d) \<longrightarrow> gte s (delta_id d)))"
  using assms(2,3)
proof (induction ds arbitrary: best)
  case Nil
  then show ?case by (auto simp: gte_refl)
next
  case (Cons d ds)
  have match: "matches_request r True s \<longleftrightarrow> rel s \<le> rel r" "sid_matches_fields s r (Suc 0) \<longleftrightarrow> rel s = rel r" for s
    using assms(1) by (simp_all add: matches_request_def release_of_sid_def less_eq_release_def sid_matches_fields_def)
  let ?x = "delta_id d"
  consider "rel ?x = rel r" | "rel ?x < rel r" "case best of None \<Rightarrow> True | Some b \<Rightarrow> gte ?x b"
    | "rel ?x < rel r" "\<exists>b. best = Some b \<and> \<not> gte ?x b" | "rel r < rel ?x"
    by (cases best) fastforce+
  then show ?case
  proof cases
    case 1
    then have "case best of None \<Rightarrow> True | Some b \<Rightarrow> gte ?x b" using Cons.prems(2) by (auto simp: gte_def split: option.splits)
    then show ?thesis using 1 Cons.prems(1) by (auto simp: sid_matches_eq match)
  next
    case 2
    then have "best_loop r True 1 (Some ?x) ds = Inr res" using Cons.prems(1) by (simp add: sid_matches_eq match)
    from Cons.IH [OF this] 2 show ?thesis
      by (auto simp: match split: option.splits if_splits dest: gte_trans)
  next
    case 3
    then have "best_loop r True 1 best ds = Inr res" using Cons.prems(1) by (auto simp: sid_matches_eq match)
    from Cons.IH [OF this Cons.prems(2)] 3 show ?thesis
      by (auto simp: match split: if_splits) (meson gte_total gte_trans)+
  next
    case 4
    then have "best_loop r True 1 best ds = Inr res" using Cons.prems(1) by (auto simp: sid_matches_eq match)
    from Cons.IH [OF this Cons.prems(2)] 4 show ?thesis by (auto simp: match split: if_splits)
  qed
qed

lemma best_loop_returns: "\<exists>res. best_loop r gtop n best ds = Inr res"
  by (induction ds arbitrary: best) (auto simp: sid_matches_eq)

section \<open>Looking for an unused SID\<close>

lemma short_of_cong: "short_of a = short_of b \<longleftrightarrow> a mod 65536 = b mod 65536"
  by (simp add: short_of_def signed_take_bit_eq_iff_take_bit_eq take_bit_eq_mod)

lemma short_of_mod: "short_of n mod 65536 = n mod 65536"
  using short_of_cong [of "short_of n" n] short_of_id [of "short_of n"] is_short_short_of [of n]
  by (auto simp: is_short_def)

lemma short_of_add: "short_of (short_of a + b) = short_of (a + b)" "short_of (b + short_of a) = short_of (b + a)"
  unfolding short_of_cong by (metis mod_add_left_eq short_of_mod, metis mod_add_right_eq short_of_mod)

lemma short_of_inj:
  assumes "short_of (a + int i) = short_of (a + int j)" and "i < 65536" and "j < 65536"
  shows "i = j"
proof -
  have "(a + int i) mod 65536 = (a + int j) mod 65536" using assms(1) by (simp add: short_of_cong)
  then have "int i mod 65536 = int j mod 65536" by (metis add_diff_cancel_left' mod_diff_cong)
  then show ?thesis using assms(2,3) by simp
qed

lemma iterate_branch:
  "(next_branch ^^ i) (next_branch s) = s\<lparr>branch := short_of (branch s + 1 + int i), sequence := 1\<rparr>"
  by (induction i) (simp_all add: next_branch_def short_of_add algebra_simps)

lemma iterate_level:
  "(next_level ^^ i) (next_level s) = s\<lparr>level := short_of (level s + 1 + int i), branch := 0, sequence := 0\<rparr>"
  by (induction i) (simp_all add: next_level_def short_of_add algebra_simps)

lemma skip_used_result: "skip_used n used step s = Inr t \<Longrightarrow> \<not> used t"
  by (induction n arbitrary: s) (auto split: if_splits)

lemma skip_used_all: "skip_used n used step s = Inl e \<Longrightarrow> i < n \<Longrightarrow> used ((step ^^ i) s)"
proof (induction n arbitrary: s i)
  case (Suc n)
  then show ?case
    by (cases i) (auto simp: funpow_swap1 split: if_splits)
qed simp

lemma skip_used_returns:
  assumes "inj_on (\<lambda>i. (step ^^ i) s) {..<n}" and "finite {t. used t}" and "card {t. used t} < n"
  shows "\<exists>t. skip_used n used step s = Inr t"
proof (rule ccontr)
  assume no: "\<not> ?thesis"
  then obtain e where e: "skip_used n used step s = Inl e" by (cases "skip_used n used step s") auto
  have "(\<lambda>i. (step ^^ i) s) ` {..<n} \<subseteq> {t. used t}" using skip_used_all [OF e] by auto
  then have "n \<le> card {t. used t}" using card_inj_on_le [OF assms(1) _ assms(2)] by simp
  then show False using assms(3) by simp
qed

lemma inj_branch: "inj_on (\<lambda>i. (next_branch ^^ i) (next_branch s)) {..<65536}"
  by (rule inj_onI) (auto simp: iterate_branch dest!: arg_cong [where f = branch] short_of_inj)

lemma inj_level: "inj_on (\<lambda>i. (next_level ^^ i) (next_level s)) {..<65536}"
  by (rule inj_onI) (auto simp: iterate_level dest!: arg_cong [where f = level] short_of_inj)

lemma in_use_sids: "{s. sid_in_use f p s} \<subseteq> set (map delta_id (items (sf_table f)) @ map el_delta (edit_locks p))"
  by (auto simp: sid_in_use_def find_delta_def table_find_eq find_to_be_created_def selected_def find_None_iff
      simp del: not_None_eq)

lemma in_use_few:
  assumes "length (items (sf_table f)) + length (edit_locks p) < 65536" and "{s. used s} \<subseteq> {s. sid_in_use f p s}"
  shows "finite {s. used s}" "card {s. used s} < 65536"
proof -
  have sub: "{s. used s} \<subseteq> set (map delta_id (items (sf_table f)) @ map el_delta (edit_locks p))"
    using assms(2) in_use_sids by blast
  then show "finite {s. used s}" by (rule finite_subset) simp
  have "card {s. used s} \<le> card (set (map delta_id (items (sf_table f)) @ map el_delta (edit_locks p)))"
    using sub by (intro card_mono) auto
  also have "\<dots> \<le> length (items (sf_table f)) + length (edit_locks p)"
    using card_length [of "map delta_id (items (sf_table f)) @ map el_delta (edit_locks p)"] by simp
  finally show "card {s. used s} < 65536" using assms(1) by simp
qed


lemma next_candidate_returns:
  assumes "length (items (sf_table f)) + length (edit_locks p) < 65536"
  shows "\<exists>nxt. next_candidate f p requested got = Inr nxt"
  using skip_used_returns [OF inj_level in_use_few [OF assms order_refl]] by (simp add: next_candidate_def)

lemma branch_loop_returns:
  assumes "length (items (sf_table f)) + length (edit_locks p) < 65536"
    and "taken = (\<lambda>s. find_delta f s \<noteq> None \<or> joint_edit (sf_flags f) \<and> is_to_be_created p s)"
  shows "\<exists>s. skip_used 65536 taken next_branch (next_branch s0) = Inr s \<and> (joint_edit (sf_flags f) \<longrightarrow> \<not> sid_in_use f p s)"
proof -
  have "{s. taken s} \<subseteq> {s. sid_in_use f p s}"
    by (auto simp: assms(2) sid_in_use_def is_to_be_created_def)
  from skip_used_returns [OF inj_branch in_use_few [OF assms(1) this]]
  obtain s where s: "skip_used 65536 taken next_branch (next_branch s0) = Inr s" by blast
  then have "\<not> taken s" by (rule skip_used_result)
  then show ?thesis using s by (auto simp: assms(2) sid_in_use_def is_to_be_created_def)
qed

section \<open>An example\<close>

definition two_versions :: sccs_file where
  "two_versions = (file_start new_name UPDATE)\<lparr>sf_flags := flags_default\<lparr>joint_edit := True\<rparr>,
     sf_table := foldl (\<lambda>t d. table_add d t) table_empty
       [delta_default\<lparr>delta_id := mk_sid 1 2 0 0, seq := 2, prev_seq := 1\<rparr>,
        delta_default\<lparr>delta_id := mk_sid 1 1 0 0, seq := 1\<rparr>]\<rparr>"

lemma two_versions_simps [simp]:
  "joint_edit (sf_flags two_versions)" "length (items (sf_table two_versions)) = 2"
  by (simp_all add: two_versions_def)

section \<open>Properties\<close>

text \<open>
  C34. \<open>find_requested_sid\<close> always returns. Without the \<open>-t\<close> option it fails exactly when no
  delta that has not been removed matches the request (with the default SID or the highest
  release filled in), and otherwise its result is a match that is not below any other match.
  With \<open>-t\<close> and a request of two or more components it is the first match in the file. With \<open>-t\<close> and a
  release it is the first delta of that release, on the trunk or not, and if there is none, a greatest
  one of the earlier releases; it fails exactly when there are none of these either.
\<close>

theorem find_requested_sid_best:
  assumes "r = effective_request f requested"
    and "M = filter (\<lambda>d. matches_request r gtop (delta_id d)) (selected Current (sf_table f))"
    and "\<not> (\<not> gtop \<and> is_null requested \<and> is_null r)"
  shows "\<exists>res. find_requested_sid f requested gtop = Inr res
     \<and> (\<not> gtop \<longrightarrow> (case res of None \<Rightarrow> M = [] | Some s \<Rightarrow> s \<in> delta_id ` set M \<and> (\<forall>d \<in> set M. gte s (delta_id d))))
     \<and> (gtop \<and> components r \<ge> 2 \<longrightarrow> res = (if M = [] then None else Some (delta_id (hd M))))
     \<and> (gtop \<and> components r = 1 \<longrightarrow>
          (let R = filter (\<lambda>d. rel (delta_id d) = rel r) (selected Current (sf_table f)) in
           if R \<noteq> [] then res = Some (delta_id (hd R))
           else (case res of None \<Rightarrow> M = [] | Some s \<Rightarrow> s \<in> delta_id ` set M \<and> (\<forall>d \<in> set M. gte s (delta_id d)))))"
proof -
  define n where "n = (if components r = 2 \<and> \<not> gtop then 4 else components r)"
  have n: "n \<le> 4" using components_le [of r] by (simp add: n_def)
  obtain res where res: "best_loop r gtop n None (selected Current (sf_table f)) = Inr res"
    using best_loop_returns by blast
  have "find_requested_sid f requested gtop = Inr res"
    using assms(3) n res by (auto simp: find_requested_sid_def Let_def assms(1) [symmetric] n_def [symmetric])
  moreover have "case res of None \<Rightarrow> M = [] | Some s \<Rightarrow> s \<in> delta_id ` set M \<and> (\<forall>d \<in> set M. gte s (delta_id d))" if "\<not> gtop"
    using best_loop_max [of r n None "selected Current (sf_table f)" res] res that
    by (auto simp: assms(2) filter_empty_conv split: option.split)
  moreover have "res = (if M = [] then None else Some (delta_id (hd M)))" if "gtop" "components r \<ge> 2"
  proof -
    have first: "map_option delta_id (List.find P ds) = (if filter P ds = [] then None else Some (delta_id (hd (filter P ds))))" for P ds
      by (induction ds) auto
    show ?thesis using that best_loop_top [of r n "selected Current (sf_table f)"] res
      unfolding assms(2) first [symmetric] by (simp add: n_def)
  qed
  moreover have "let R = filter (\<lambda>d. rel (delta_id d) = rel r) (selected Current (sf_table f)) in
      if R \<noteq> [] then res = Some (delta_id (hd R))
      else (case res of None \<Rightarrow> M = [] | Some s \<Rightarrow> s \<in> delta_id ` set M \<and> (\<forall>d \<in> set M. gte s (delta_id d)))"
    if "gtop" "components r = 1"
    using best_loop_release [of r None "selected Current (sf_table f)" res] res that
    by (auto simp: Let_def n_def assms(2) filter_empty_conv split: option.split if_splits)
  ultimately show ?thesis by blast
qed

theorem find_requested_sid_best_witness:
  "\<exists>res. find_requested_sid two_versions (mk_sid 1 0 0 0) False = Inr res
     \<and> (case res of None \<Rightarrow> False | Some s \<Rightarrow> gte s (mk_sid 1 2 0 0))"
proof -
  have r: "mk_sid 1 0 0 0 = effective_request two_versions (mk_sid 1 0 0 0)" by (simp add: effective_request_def is_null_def)
  have M: "filter (\<lambda>d. matches_request (mk_sid 1 0 0 0) False (delta_id d)) (selected Current (sf_table two_versions)) =
     [delta_default\<lparr>delta_id := mk_sid 1 2 0 0, seq := 2, prev_seq := 1\<rparr>, delta_default\<lparr>delta_id := mk_sid 1 1 0 0, seq := 1\<rparr>]"
    by (simp add: two_versions_def selected_def removed_def delta_default_def matches_request_def components_def sid_valid_def
        release_of_sid_def less_eq_release_def on_trunk_def foldl_table_add)
  show ?thesis
    using find_requested_sid_best [OF r M [symmetric]] by (fastforce simp: is_null_def split: option.splits)
qed

text \<open>
  C35. With the joint edit flag, and as long as deltas and locks together are fewer than 65536,
  \<open>find_next_sid\<close> returns, for every request, a SID that neither a delta of the file has nor
  another editor has been promised: the search ends and its final assertion holds.
\<close>

theorem find_next_sid_unused:
  assumes "joint_edit (sf_flags f)" and "length (items (sf_table f)) + length (edit_locks p) < 65536"
  shows "\<exists>s. find_next_sid f requested got want_branch p = Inr (s, False) \<and> \<not> sid_in_use f p s"
proof -
  define r where "r = (if \<not> is_null (default_sid (sf_flags f)) then default_sid (sf_flags f) else requested)"
  obtain nxt where nxt: "next_candidate f p r got = Inr nxt" using next_candidate_returns [OF assms(2)] by blast
  note loop = branch_loop_returns [OF assms(2) refl]
  have "\<exists>again. branch_again f p r nxt = Some again \<and> (\<not> again \<longrightarrow> \<not> sid_in_use f p nxt)"
    using assms(1) by (simp add: branch_again_def split: option.split) blast
  then obtain again where again: "branch_again f p r nxt = Some again" "\<not> again \<longrightarrow> \<not> sid_in_use f p nxt" by blast
  show ?thesis
    using loop [of "if components r < 4 then got else nxt"] loop [of got] again assms(1)
    by (auto simp: find_next_sid_def Let_def r_def [symmetric] nxt)
qed


theorem find_next_sid_unused_witness:
  "\<exists>s. find_next_sid two_versions (mk_sid 1 0 0 0) (mk_sid 1 2 0 0) False
         \<lparr>pmode = PFILE_READ, edit_locks = []\<rparr> = Inr (s, False)
       \<and> \<not> sid_in_use two_versions \<lparr>pmode = PFILE_READ, edit_locks = []\<rparr> s"
  by (rule find_next_sid_unused) simp_all

end
