(* ===== verification/Get.thy ===== *)
theory Get
  imports Keywords Sid_Select
begin

text \<open>
  \<open>get\<close> (get.cc): \<open>sccs_file::get\<close>, the options of the command, and what the command does with
  one s-file.

  The body that \<open>get\<close> writes, the summary of deltas and the commentary are strings. The
  clock, the user's name, the membership of groups, the expansion of file names and the question
  whether the g-file and the l-file can be created come from the operating system and are
  parameters. The lines for debugging on the standard error stream are left out.
\<close>

section \<open>sccs_file::get\<close>

record get_status =
  gs_lines :: nat
  gs_included :: "sid list"
  gs_excluded :: "sid list"

text \<open>
  The delta for the keywords: the first of the sequence numbers, taken from \<open>d\<close> downwards, that
  is not excluded. The inner option is the pointer that \<open>find_delta\<close> returns.
\<close>

fun dparm_loop :: "sccs_file \<Rightarrow> seq_state \<Rightarrow> seq_no list \<Rightarrow> delta option option res" where
  "dparm_loop f st [] = Inr None"
| "dparm_loop f st (s # ss) =
     bindE (delta_at_seq_exists (sf_table f) s) (\<lambda>ex.
       if ex then
         bindE (delta_at_seq (sf_table f) s) (\<lambda>del.
           if \<not> is_excluded st s then Inr (Some (find_delta f (delta_id del))) else dparm_loop f st ss)
       else dparm_loop f st ss)"

definition down_from :: "seq_no \<Rightarrow> seq_no list" where
  "down_from s = rev [1..<Suc s]"

text \<open>The summary file: the deltas included, the latest first.\<close>

definition summary_step :: "sccs_file \<Rightarrow> seq_state \<Rightarrow> bool \<times> string \<Rightarrow> seq_no \<Rightarrow> (bool \<times> string) res" where
  "summary_step f st acc s =
     bindE (delta_at_seq_exists (sf_table f) s) (\<lambda>ex.
       if ex \<and> is_included st s then
         bindE (delta_at_seq (sf_table f) s) (\<lambda>it.
         bindE (sid_print (delta_id it)) (\<lambda>i.
         bindE (date_print (delta_date it)) (\<lambda>dt.
           Inr (False,
                snd acc @ (if fst acc then [] else [newline]) @ ''    '' @ i @ [CHR 0x09] @ dt @ '' '' @ user it @ [newline]
                @ concat (map (\<lambda>c. [CHR 0x09] @ c @ [newline]) (comments it))))))
       else Inr acc)"

definition get_summary :: "sccs_file \<Rightarrow> seq_state \<Rightarrow> seq_no \<Rightarrow> string res" where
  "get_summary f st s =
     bindE (foldE (summary_step f st) (True, []) (down_from s)) (\<lambda>(first, t). Inr (t @ [newline]))"

text \<open>The status: the SIDs that were included and excluded explicitly.\<close>

definition status_step :: "sccs_file \<Rightarrow> seq_state \<Rightarrow> get_status \<Rightarrow> seq_no \<Rightarrow> get_status res" where
  "status_step f st g s =
     (if is_explicitly_tagged st s then
        bindE (seq_to_sid f s) (\<lambda>i.
          Inr (if is_included st s then g\<lparr>gs_included := gs_included g @ [i]\<rparr>
               else if is_excluded st s then g\<lparr>gs_excluded := gs_excluded g @ [i]\<rparr>
               else g))
      else Inr g)"

definition get_state :: "sccs_file \<Rightarrow> seq_no \<Rightarrow> sid_list \<Rightarrow> sid_list \<Rightarrow> sccs_date \<Rightarrow> seq_state res" where
  "get_state f s incl excl cutoff =
     bindE (new_seq_state (highest_delta_seqno f)) (\<lambda>st. prepare_seqstate (sf_table f) st s incl excl cutoff)"

definition sfile_get ::
  "sccs_date \<Rightarrow> (string \<Rightarrow> string option) \<Rightarrow> sccs_file \<Rightarrow> string \<Rightarrow> bool \<Rightarrow> sid \<Rightarrow> sccs_date \<Rightarrow> sid_list \<Rightarrow> sid_list \<Rightarrow>
   bool \<Rightarrow> string option \<Rightarrow> bool \<Rightarrow> bool \<Rightarrow> bool \<Rightarrow> (get_status \<times> string \<times> string) res" where
  "sfile_get now canonify f outname summary i cutoff incl excl keywords w show_sid show_module for_edit =
     (case find_delta f i of
        None \<Rightarrow> Inl Assertion
      | Some d \<Rightarrow>
          bindE (edit_mode_permitted f for_edit) (\<lambda>_.
          bindE (get_state f (seq d) incl excl cutoff) (\<lambda>st.
          bindE (dparm_loop f st (down_from (seq d))) (\<lambda>dp.
          bindE (if summary then get_summary f st (seq d) else Inr []) (\<lambda>summary_text.
          bindE (case dp of None \<Rightarrow> Inr d | Some None \<Rightarrow> Inl (Fatal (Message ''null'')) | Some (Some x) \<Rightarrow> Inr x) (\<lambda>dparm.
          bindE (do_get canonify f st
                   \<lparr>sp_outname = outname, sp_module_name = get_module_name f, wstring = w, sp_out = [], sp_delta = dparm,
                    sp_out_lineno = 0, sp_now = now, found_id = False\<rparr>
                   keywords show_sid show_module False False) (\<lambda>(st, parms).
          bindE (if keywords \<and> \<not> found_id parms then no_id_keywords_action f else Inr ()) (\<lambda>_.
          bindE (foldE (status_step f st) \<lparr>gs_lines = sp_out_lineno parms, gs_included = [], gs_excluded = []\<rparr>
                   [1..<Suc (highest_delta_seqno f)]) (\<lambda>status.
            Inr (status, sp_out parms, summary_text))))))))))"

section \<open>The options of the command\<close>

record get_options =
  go_rid :: sid
  go_edit :: bool
  go_branch :: bool
  go_suppress_keywords :: bool
  go_stdout :: bool
  go_silent :: bool
  go_no_output :: bool
  go_wstring :: "string option"
  go_include :: sid_list
  go_exclude :: sid_list
  go_cutoff :: sccs_date
  go_show_sid :: bool
  go_show_module :: bool
  go_gname :: "string option"
  go_seq :: seq_no
  go_top :: bool
  go_summary :: bool
  go_lfile :: bool
  go_commentary_stderr :: bool

definition get_options_default :: get_options where
  "get_options_default =
     \<lparr>go_rid = null_sid, go_edit = False, go_branch = False, go_suppress_keywords = False, go_stdout = False,
      go_silent = False, go_no_output = False, go_wstring = None, go_include = rl_empty, go_exclude = rl_empty,
      go_cutoff = date_default, go_show_sid = False, go_show_module = False, go_gname = None, go_seq = 0,
      go_top = False, go_summary = False, go_lfile = False, go_commentary_stderr = False\<rparr>"

definition invalid_option :: "'a res" where
  "invalid_option = Inl (Failed (Message ''invalid option''))"

text \<open>The \<open>switch\<close> for one option; the parser of dates from the command line is an argument.\<close>

definition get_option :: "(string \<Rightarrow> sccs_date) \<Rightarrow> get_options \<Rightarrow> char \<times> string \<Rightarrow> get_options res" where
  "get_option parse_date opts ca =
     (case ca of (c, arg) \<Rightarrow>
        if c = CHR ''r'' then
          let r = sid_of_string arg in if sid_valid r then Inr (opts\<lparr>go_rid := r\<rparr>) else invalid_option
        else if c = CHR ''c'' then
          let d = parse_date arg in if date_valid d then Inr (opts\<lparr>go_cutoff := d\<rparr>) else invalid_option
        else if c = CHR ''i'' then
          bindE (sid_list_of_string (Some arg)) (\<lambda>l. if valid_flag l then Inr (opts\<lparr>go_include := l\<rparr>) else invalid_option)
        else if c = CHR ''x'' then
          bindE (sid_list_of_string (Some arg)) (\<lambda>l. if valid_flag l then Inr (opts\<lparr>go_exclude := l\<rparr>) else invalid_option)
        else if c = CHR ''e'' then Inr (opts\<lparr>go_edit := True, go_suppress_keywords := True\<rparr>)
        else if c = CHR ''b'' then Inr (opts\<lparr>go_branch := True\<rparr>)
        else if c = CHR ''k'' then Inr (opts\<lparr>go_suppress_keywords := True\<rparr>)
        else if c = CHR ''p'' then Inr (opts\<lparr>go_stdout := True, go_commentary_stderr := True, go_gname := None\<rparr>)
        else if c = CHR ''l'' then
          if arg \<noteq> [] then
            if arg = ''p'' then Inr (opts\<lparr>go_summary := True, go_lfile := False, go_commentary_stderr := True\<rparr>)
            else invalid_option
          else Inr (opts\<lparr>go_summary := True, go_lfile := True\<rparr>)
        else if c = CHR ''L'' then Inr (opts\<lparr>go_summary := True, go_lfile := False, go_commentary_stderr := True\<rparr>)
        else if c = CHR ''s'' then Inr (opts\<lparr>go_silent := True\<rparr>)
        else if c = CHR ''m'' then Inr (opts\<lparr>go_show_sid := True\<rparr>)
        else if c = CHR ''n'' then Inr (opts\<lparr>go_show_module := True\<rparr>)
        else if c = CHR ''g'' then Inr (opts\<lparr>go_no_output := True\<rparr>)
        else if c = CHR ''w'' then Inr (opts\<lparr>go_wstring := Some arg\<rparr>)
        else if c = CHR ''a'' then
          if atoi arg < 1 \<or> atoi arg > 65535 then invalid_option else Inr (opts\<lparr>go_seq := nat (atoi arg)\<rparr>)
        else if c = CHR ''t'' then Inr (opts\<lparr>go_top := True\<rparr>)
        else if c = CHR ''G'' then Inr (opts\<lparr>go_stdout := False, go_gname := Some arg\<rparr>)
        else if c = CHR ''D'' \<or> c = CHR ''V'' then Inr opts
        else invalid_option)"

section \<open>One s-file\<close>

text \<open>What \<open>get\<close> leaves behind: its exit status so far, its texts and the directory.\<close>

record get_result =
  gr_failed :: bool
  gr_output :: string
  gr_commentary :: string
  gr_dir :: directory

definition print_id_list :: "string \<Rightarrow> sid list \<Rightarrow> string res" where
  "print_id_list s ids =
     (if ids = [] then Inr []
      else foldE (\<lambda>t i. bindE (sid_print i) (\<lambda>x. Inr (t @ x @ [newline]))) (s @ '':'' @ [newline]) ids)"

text \<open>
  The SID to retrieve and the request as it stands afterwards; \<open>None\<close> when there is no such
  delta.
\<close>

definition get_choose :: "get_options \<Rightarrow> sccs_file \<Rightarrow> (sid \<times> sid) option res" where
  "get_choose opts f =
     (if go_seq opts \<noteq> 0 then
        bindE (find_requested_seqno f (go_seq opts)) (\<lambda>r. Inr (map_option (\<lambda>s. (null_sid, s)) r))
      else
        bindE (find_requested_sid f (go_rid opts) (go_top opts)) (\<lambda>r.
          Inr (map_option (\<lambda>s. (if \<not> sid_valid (go_rid opts)
                                   \<or> release_only (go_rid opts) \<and> release_of_sid (go_rid opts) = release_of_sid s
                                then s else go_rid opts, s)) r)))"

text \<open>
  The new SID when the file is gotten for editing: \<open>None\<close> when the locks forbid it or no SID is
  found.
\<close>

definition get_new_sid ::
  "string \<Rightarrow> (int \<Rightarrow> bool) \<Rightarrow> get_options \<Rightarrow> sccs_file \<Rightarrow> sccs_pfile \<Rightarrow> sid \<Rightarrow> sid \<Rightarrow> sid option res" where
  "get_new_sid myself group_member opts f p rid retrieve =
     (if \<not> test_locks myself group_member f retrieve p then Inr None
      else bindE (find_next_sid f rid retrieve (go_branch opts) p) (\<lambda>(s, failed).
             Inr (if failed then None else Some s)))"

text \<open>
  What follows a successful \<open>sccs_file::get\<close>; \<open>gdir\<close> is the directory with the g-file. The
  option \<open>-G\<close> counts for the first file only, so that \<open>go_gname\<close> is \<open>None\<close> for the others. A
  \<open>get\<close> that fails removes the g-file and leaves the exit status as it was; what it has written
  to the l-file by then is not modelled. An l-file that cannot be created is a null pointer
  given to \<open>fclose\<close>.
\<close>

definition get_commentary :: "get_options \<Rightarrow> get_status \<Rightarrow> sid \<Rightarrow> sid \<Rightarrow> string res" where
  "get_commentary opts status retrieve new_delta =
     bindE (print_id_list ''Included'' (gs_included status)) (\<lambda>i.
     bindE (print_id_list ''Excluded'' (gs_excluded status)) (\<lambda>x.
     bindE (sid_print retrieve) (\<lambda>r.
     bindE (if go_edit opts then bindE (sid_print new_delta) (\<lambda>n. Inr (''new delta '' @ n @ [newline])) else Inr []) (\<lambda>n.
       Inr (i @ x @ r @ [newline] @ n)))))"

definition get_lock ::
  "string \<Rightarrow> sccs_date \<Rightarrow> get_options \<Rightarrow> sccs_name \<Rightarrow> sccs_pfile \<Rightarrow> sid \<Rightarrow> sid \<Rightarrow> string option \<Rightarrow> directory \<Rightarrow> bool \<times> directory" where
  "get_lock myself now opts nm p retrieve new_delta gfile gdir =
     (if go_edit opts then
        (case add_lock myself now (sub_file (CHR ''q'') nm) (sub_file (CHR ''p'') nm) retrieve new_delta
                (go_include opts) (go_exclude opts) p gdir of
           (Inr _, dir) \<Rightarrow> (False, dir)
         | (Inl _, dir) \<Rightarrow> (True, case gfile of Some g \<Rightarrow> dir(g := None) | None \<Rightarrow> dir))
      else (False, gdir))"

definition get_file ::
  "string \<Rightarrow> (int \<Rightarrow> bool) \<Rightarrow> sccs_date \<Rightarrow> (string \<Rightarrow> string option) \<Rightarrow> (string \<Rightarrow> bool) \<Rightarrow> get_options \<Rightarrow>
   sccs_file \<Rightarrow> directory \<Rightarrow> get_result res" where
  "get_file myself group_member now canonify creatable opts f dir =
     (let nm = sf_name f;
          gfile = (if \<not> go_stdout opts \<and> \<not> go_no_output opts
                   then Some (case go_gname opts of Some g \<Rightarrow> g | None \<Rightarrow> gname nm) else None);
          outname = (case gfile of Some g \<Rightarrow> g | None \<Rightarrow> if go_no_output opts then ''null'' else ''standard output'');
          failed = \<lparr>gr_failed = True, gr_output = [], gr_commentary = [], gr_dir = dir\<rparr>
      in
      bindE (if go_edit opts then open_pfile dir (sub_file (CHR ''p'') nm) PFILE_APPEND
             else Inr \<lparr>pmode = PFILE_APPEND, edit_locks = []\<rparr>) (\<lambda>p.
      bindE (get_choose opts f) (\<lambda>choice.
      case choice of
        None \<Rightarrow> Inr failed
      | Some (rid, retrieve) \<Rightarrow>
          bindE (if go_edit opts then get_new_sid myself group_member opts f p rid retrieve else Inr (Some null_sid)) (\<lambda>new_delta.
          if new_delta = None then Inr failed
          else if (case gfile of Some g \<Rightarrow> \<not> creatable g | None \<Rightarrow> False) then Inr failed
          else
            (case sfile_get now canonify f outname (go_summary opts \<and> (go_lfile opts \<longrightarrow> creatable (lfile nm))) retrieve (go_cutoff opts) (go_include opts)
                    (go_exclude opts) (\<not> go_suppress_keywords opts) (go_wstring opts) (go_show_sid opts)
                    (go_show_module opts) (go_edit opts) of
               Inl (Failed e) \<Rightarrow>
                 Inr \<lparr>gr_failed = False, gr_output = [], gr_commentary = [],
                      gr_dir = (case gfile of Some g \<Rightarrow> dir(g := None) | None \<Rightarrow> dir)\<rparr>
             | Inl e \<Rightarrow> Inl e
             | Inr (status, body, summary) \<Rightarrow>
                 let gdir = (case gfile of Some g \<Rightarrow> dir(g \<mapsto> body) | None \<Rightarrow> dir);
                     ldir = (if go_lfile opts then gdir(lfile nm \<mapsto> summary) else gdir)
                 in
                 if go_lfile opts \<and> \<not> creatable (lfile nm) then Inl (Fatal (Message ''null'')) else
                 bindE (get_commentary opts status retrieve (the new_delta)) (\<lambda>c.
                   case get_lock myself now opts nm p retrieve (the new_delta) gfile ldir of
                     (lock_failed, dir') \<Rightarrow>
                       Inr \<lparr>gr_failed = lock_failed,
                            gr_output = (if go_summary opts \<and> \<not> go_lfile opts then summary else [])
                              @ (if go_stdout opts \<and> \<not> go_no_output opts then body else []),
                            gr_commentary =
                              (if go_silent opts then []
                               else c @ (if go_no_output opts then [] else show_nat (gs_lines status) @ '' lines'' @ [newline])),
                            gr_dir = dir'\<rparr>))))))"

end
