(* ===== verification/Sfile_Format.thy ===== *)
theory Sfile_Format
  imports Sccs_File Body_Scanner
begin

text \<open>
  The format of s-files: the parser of the header (parser.h, parser.cc), the constructor of
  \<open>sccs_file\<close> that uses it (sccsfile.cc), the writer of the header and the update of the
  s-file through the x-file (sf-write.cc, sf-add.cc, cap.cc).

  The parser works on the lines that \<open>read_line\<close> delivers; only the magic number and the
  checksum are taken from the characters of the file. Warnings are not modelled. The
  constructor opens the file for reading whatever its own mode is, so the parser's reaction
  to unknown features is always a warning. Where the program splits a line into seven
  arguments without looking how many there were, fewer than seven are undefined behaviour; the
  model then fails. A file without any delta leaves a null pointer as the delta table, on which
  every later operation fails its assertion; the model fails at once.
\<close>

section \<open>Parsing a delta\<close>

definition next_line :: "string list \<Rightarrow> (string \<times> string list) res" where
  "next_line ls = (case ls of [] \<Rightarrow> Inl (Corrupt Unexpected_eof) | l # r \<Rightarrow> Inr (l, r))"

text \<open>\<open>strtoul\<close> on a string that does not start with a minus sign; the value is clamped to the
  range of \<open>unsigned long\<close>.\<close>

definition strtoul :: "string \<Rightarrow> nat \<times> string" where
  "strtoul s =
     (let t = dropWhile isspace s;
          u = (if t \<noteq> [] \<and> hd t = CHR ''+'' then tl t else t);
          ds = takeWhile isdigit u
      in if ds = [] then (0, s) else (min 18446744073709551615 (dec_val 0 ds), dropWhile isdigit u))"

definition strict_atoul_idu :: "string \<Rightarrow> nat res" where
  "strict_atoul_idu s =
     (let t = dropWhile (\<lambda>c. c = CHR '' '') s in
      if char_at t 0 = CHR ''-'' then Inl (Corrupt (Message ''Line counts should be positive''))
      else case strtoul t of (n, e) \<Rightarrow>
        if char_at e 0 \<noteq> NUL \<and> char_at e 0 \<noteq> CHR '' ''
        then Inl (Corrupt (Message ''Unexpected suffix on line number count'')) else Inr n)"

text \<open>The sequence numbers of an \<open>i\<close>, \<open>x\<close> or \<open>g\<close> line.\<close>

function seq_numbers :: "string \<Rightarrow> nat list res" where
  "seq_numbers start =
     (case split_at (CHR '' '') start of
        (a, None) \<Rightarrow> bindE (strict_atous a) (\<lambda>n. Inr [n])
      | (a, Some r) \<Rightarrow> bindE (strict_atous a) (\<lambda>n. bindE (seq_numbers r) (\<lambda>ns. Inr (n # ns))))"
  by pat_completeness auto
termination
  by (relation "measure length") (auto dest: split_at_Some_length [OF sym])

declare seq_numbers.simps [simp del]

definition set_has :: "char \<Rightarrow> delta \<Rightarrow> delta res" where
  "set_has c d =
     (if c = CHR ''i'' then set_has_includes True d
      else if c = CHR ''x'' then set_has_excludes True d
      else set_has_ignores True d)"

definition add_seq :: "char \<Rightarrow> nat \<Rightarrow> delta \<Rightarrow> delta" where
  "add_seq c n d =
     (if c = CHR ''i'' then add_include n d else if c = CHR ''x'' then add_exclude n d else add_ignore n d)"

text \<open>One turn of the loop over the letters i, x and g: the current line, the rest and the delta.\<close>

definition seq_line :: "string \<times> string list \<times> delta \<Rightarrow> char \<Rightarrow> (string \<times> string list \<times> delta) res" where
  "seq_line cur c =
     (case cur of (l, r, d) \<Rightarrow>
        if line_type l = c then
          bindE (set_has c d) (\<lambda>d.
          bindE (if char_at l 2 \<noteq> CHR '' '' then Inr d
                 else bindE (check_arg l) (\<lambda>_.
                      bindE (seq_numbers (drop 3 l)) (\<lambda>ns. Inr (foldl (\<lambda>d n. add_seq c n d) d ns)))) (\<lambda>d.
          bindE (next_line r) (\<lambda>(l, r). Inr (l, r, d))))
        else Inr cur)"

text \<open>The loop over MR and comment lines.\<close>

definition note_line :: "string \<Rightarrow> delta \<Rightarrow> delta" where
  "note_line l d =
     (if line_type l = CHR ''m'' then (if char_at l 2 = CHR '' '' then add_mr (drop 3 l) d else d)
      else add_comment (drop 3 l) d)"

fun notes_loop :: "string \<Rightarrow> string list \<Rightarrow> delta \<Rightarrow> (string \<times> string list \<times> delta) res" where
  "notes_loop l r d =
     (if line_type l = CHR ''m'' \<or> line_type l = CHR ''c'' then
        (case r of [] \<Rightarrow> Inl (Corrupt Unexpected_eof) | l' # r' \<Rightarrow> notes_loop l' r' (note_line l d))
      else Inr (l, r, d))"

declare notes_loop.simps [simp del]

definition parse_d_line :: "string \<Rightarrow> delta \<Rightarrow> delta res" where
  "parse_d_line l d =
     bindE (check_arg l) (\<lambda>_.
     let args = linebuf_split (drop 3 l) 7 (CHR '' '') in
     if length args < 7 then Inl (Fatal (Message ''undefined''))
     else if is_valid_delta_type (char_at (args ! 0) 0) \<and> char_at (args ! 0) 1 = NUL then
       bindE (set_type (char_at (args ! 0) 0) d) (\<lambda>d.
       let newid = sid_of_string (args ! 1) in
       if \<not> sid_valid newid then Inl (Corrupt (Message ''Bad SID''))
       else
         bindE (date_of_strings (args ! 2) (args ! 3)) (\<lambda>newdate.
         if \<not> date_valid newdate then Inl (Corrupt Bad_date)
         else
           bindE (strict_atous (args ! 5)) (\<lambda>sq.
           bindE (strict_atous (args ! 6)) (\<lambda>prev.
             Inr (d\<lparr>delta_id := newid, delta_date := newdate, user := args ! 4, seq := sq, prev_seq := prev\<rparr>)))))
     else Inl (Corrupt (Message ''Bad delta type'')))"

definition read_delta :: "string \<Rightarrow> string list \<Rightarrow> (delta \<times> string list) res" where
  "read_delta l r =
     bindE (ASSERT (char_at l 1 = CHR ''s'')) (\<lambda>_.
     bindE (check_arg l) (\<lambda>_.
     let args = linebuf_split (drop 3 l) 3 (CHR ''/'') in
     if length args \<noteq> 3 then Inl (Corrupt (Message ''Two slashes expected''))
     else
       bindE (strict_atoul_idu (args ! 0)) (\<lambda>i.
       bindE (strict_atoul_idu (args ! 1)) (\<lambda>dd.
       bindE (strict_atoul_idu (args ! 2)) (\<lambda>u.
       bindE (next_line r) (\<lambda>(l, r).
       if line_type l \<noteq> CHR ''d'' then Inl (Corrupt (Message ''Expected d''))
       else
         bindE (parse_d_line l (set_idu i dd u delta_default)) (\<lambda>d.
         bindE (next_line r) (\<lambda>(l, r).
         bindE (foldE seq_line (l, r, d) [CHR ''i'', CHR ''x'', CHR ''g'']) (\<lambda>(l, r, d).
         bindE (notes_loop l r d) (\<lambda>(l, r, d).
         if line_type l \<noteq> CHR ''e'' then Inl (Corrupt (Message ''Expected e''))
         else bindE (check_noarg l) (\<lambda>_. Inr (d, r))))))))))))"

section \<open>Parsing the header\<close>

lemma next_line_Inr: "next_line r = Inr (l, r') \<longleftrightarrow> r = l # r'"
  by (auto simp: next_line_def split: list.splits)

lemma seq_line_length: "seq_line (l, r, d) c = Inr (l', r', d') \<Longrightarrow> length r' \<le> length r"
  by (auto simp: seq_line_def bindE_eq_Inr next_line_Inr split: if_splits)

lemma foldE_seq_line_length:
  "foldE seq_line (l, r, d) cs = Inr (l', r', d') \<Longrightarrow> length r' \<le> length r"
  by (induction cs arbitrary: l r d) (auto simp: bindE_eq_Inr dest!: seq_line_length, force)

lemma notes_loop_step:
  "line_type l = CHR ''m'' \<or> line_type l = CHR ''c'' \<Longrightarrow> notes_loop l (a # r) d = notes_loop a r (note_line l d)"
  "line_type l \<noteq> CHR ''m'' \<Longrightarrow> line_type l \<noteq> CHR ''c'' \<Longrightarrow> notes_loop l r d = Inr (l, r, d)"
  by (subst notes_loop.simps, simp)+

lemma notes_loop_length: "notes_loop l r d = Inr (l', r', d') \<Longrightarrow> length r' \<le> length r"
proof (induction r arbitrary: l d)
  case Nil
  then show ?case by (subst (asm) notes_loop.simps) (auto split: if_splits)
next
  case (Cons a r)
  show ?case
  proof (cases "line_type l = CHR ''m'' \<or> line_type l = CHR ''c''")
    case True
    then show ?thesis using Cons.IH [of a "note_line l d"] Cons.prems by (simp add: notes_loop_step)
  next
    case False
    then show ?thesis using Cons.prems by (simp add: notes_loop_step)
  qed
qed

lemma read_delta_length: "read_delta l r = Inr (d, r') \<Longrightarrow> length r' < length r"
  by (auto simp: read_delta_def bindE_eq_Inr next_line_Inr Let_def split: if_splits simp del: foldE.simps
      dest!: foldE_seq_line_length notes_loop_length)

text \<open>The loop over the deltas; the table is made when the first delta is found.\<close>

function read_deltas :: "string \<Rightarrow> string list \<Rightarrow> delta_table option \<Rightarrow> (string \<times> string list \<times> delta_table option) res" where
  "read_deltas l r t =
     (if line_type l = CHR ''s'' then
        (case read_delta l r of
           Inl e \<Rightarrow> Inl e
         | Inr (d, []) \<Rightarrow> Inl (Corrupt Unexpected_eof)
         | Inr (d, l' # r') \<Rightarrow>
             read_deltas l' r' (Some (table_add d (case t of None \<Rightarrow> table_empty | Some u \<Rightarrow> u))))
      else Inr (l, r, t))"
  by pat_completeness auto
termination
  by (relation "measure (\<lambda>(l, r, t). length r)") (auto dest: read_delta_length)

declare read_deltas.simps [simp del]

fun users_loop :: "string \<Rightarrow> string list \<Rightarrow> string list \<Rightarrow> (string list \<times> string list) res" where
  "users_loop l r us =
     (if line_type l = CHR ''U'' then Inr (r, us)
      else if line_type l \<noteq> NUL then Inl (Corrupt (Message ''User name expected.''))
      else (case r of [] \<Rightarrow> Inl (Corrupt Unexpected_eof) | l' # r' \<Rightarrow> users_loop l' r' (us @ [l])))"

definition flag_of_line :: "string \<Rightarrow> (char \<times> string option) res" where
  "flag_of_line l =
     bindE (check_arg l) (\<lambda>_.
       if char_at l 3 = NUL \<or> (char_at l 4 \<noteq> NUL \<and> char_at l 4 \<noteq> CHR '' '')
       then Inl (Corrupt (Message ''Bad flag arg''))
       else Inr (char_at l 3, if char_at l 4 = CHR '' '' then Some (drop 5 l) else None))"

fun flags_loop ::
  "string \<Rightarrow> string list \<Rightarrow> (char \<times> string option) list \<Rightarrow> (string \<times> string list \<times> (char \<times> string option) list) res" where
  "flags_loop l r fs =
     (if line_type l = CHR ''f'' then
        bindE (flag_of_line l) (\<lambda>fl.
          case r of [] \<Rightarrow> Inl (Corrupt Unexpected_eof) | l' # r' \<Rightarrow> flags_loop l' r' (fs @ [fl]))
      else Inr (l, r, fs))"

fun comments_loop :: "string \<Rightarrow> string list \<Rightarrow> string list \<Rightarrow> (string \<times> string list \<times> string list) res" where
  "comments_loop l r cs =
     (if line_type l = NUL then
        (case r of [] \<Rightarrow> Inl (Corrupt Unexpected_eof) | l' # r' \<Rightarrow> comments_loop l' r' (cs @ [l]))
      else Inr (l, r, cs))"

declare users_loop.simps [simp del] flags_loop.simps [simp del] comments_loop.simps [simp del]

definition checksum :: "string \<Rightarrow> int" where
  "checksum s = sum_list (map char_int s) mod 65536"

record open_result =
  computed_sum :: int
  stored_sum :: int
  or_checksum_valid :: bool
  is_bk :: bool
  is_executable :: bool
  or_table :: "delta_table option"
  or_users :: "string list"
  or_flags :: "(char \<times> string option) list"
  or_comments :: "string list"
  or_body :: "string list"

text \<open>The checksum line: the stored sum and whether it is the computed one.\<close>

definition parse_checksum :: "bool \<Rightarrow> int \<Rightarrow> string \<Rightarrow> (int \<times> bool) res" where
  "parse_checksum silent computed l =
     (case strtol (drop 2 l) of (n, range_error, e) \<Rightarrow>
        if n = long_max \<and> range_error then
          (if silent then Inr (2147483647, False) else Inl (Corrupt (Message ''checksum value too large'')))
        else if n = long_min \<and> range_error then
          (if silent then Inr (- 2147483648, False) else Inl (Corrupt (Message ''checksum value too small'')))
        else
          let stored = (if n > 2147483647 then 2147483647 else if n < - 2147483648 then - 2147483648 else n)
          in if e \<noteq> [] \<and> \<not> silent then Inl (Corrupt (Message ''trailing junk after checksum''))
             else Inr (stored, stored = computed))"

text \<open>
  The magic number: whether the file is a BitKeeper file, and what follows the first line.
\<close>

definition parse_magic :: "sccs_file_open_mode \<Rightarrow> string \<Rightarrow> (bool \<times> string) res" where
  "parse_magic mode s =
     (if char_at s 0 \<noteq> ctrl_A then Inl (Corrupt (Message ''No SCCS-file magic number''))
      else if char_at s 1 = CHR ''H'' \<and> mode \<noteq> READ then Inl (Failed Bitkeeper_file)
      else if char_at s 1 \<noteq> CHR ''H'' \<and> char_at s 1 \<noteq> CHR ''h''
      then Inl (Corrupt (Message ''No SCCS-file magic number''))
      else case split_at newline (drop 2 s) of
             (a, None) \<Rightarrow> Inl (Corrupt Unexpected_eof)
           | (a, Some r) \<Rightarrow> Inr (char_at s 1 = CHR ''H'', r))"

definition parse_header :: "sccs_file_open_mode \<Rightarrow> bool \<Rightarrow> bool \<Rightarrow> string \<Rightarrow> open_result res" where
  "parse_header mode silent xbits s =
     bindE (parse_magic mode s) (\<lambda>(bk, after_first).
     let computed = checksum after_first in
     bindE (next_line (read_all CHUNK s)) (\<lambda>(l, r).
     bindE (ASSERT (line_type l = (if bk then CHR ''H'' else CHR ''h''))) (\<lambda>_.
     bindE (parse_checksum silent computed l) (\<lambda>(stored, valid).
     bindE (next_line r) (\<lambda>(l, r).
     bindE (read_deltas l r None) (\<lambda>(l, r, t).
     if line_type l \<noteq> CHR ''u'' then Inl (Corrupt (Message ''Expected u''))
     else
       bindE (check_noarg l) (\<lambda>_.
       bindE (next_line r) (\<lambda>(l, r).
       bindE (users_loop l r []) (\<lambda>(r, us).
       bindE (next_line r) (\<lambda>(l, r).
       bindE (flags_loop l r []) (\<lambda>(l, r, fs).
       if line_type l \<noteq> CHR ''t'' then Inl (Corrupt (Message ''Expected t''))
       else
         bindE (next_line r) (\<lambda>(l, r).
         bindE (comments_loop l r []) (\<lambda>(l, r, cs).
         if line_type l \<noteq> CHR ''T'' then Inl (Corrupt (Message ''Expected T''))
         else
           Inr \<lparr>computed_sum = computed, stored_sum = stored, or_checksum_valid = valid, is_bk = bk,
                is_executable = xbits, or_table = t, or_users = us, or_flags = fs,
                or_comments = cs, or_body = r\<rparr>)))))))))))))"

section \<open>The constructor\<close>

text \<open>
  The constructor of \<open>sccs_file\<close>, on the contents of the s-file. \<open>lock_ok\<close> says whether the lock
  file could be created, \<open>xbits\<close> whether the s-file is executable.
\<close>

definition sccs_file_ctor ::
  "sccs_name \<Rightarrow> sccs_file_open_mode \<Rightarrow> bool \<Rightarrow> bool \<Rightarrow> bool \<Rightarrow> string \<Rightarrow> sccs_file res" where
  "sccs_file_ctor n m silent lock_ok xbits content =
     (if \<not> name_valid n then Inl (Fatal (Message ''Not an SCCS file''))
      else if m \<noteq> READ \<and> \<not> lock_ok then Inl (Fatal (Message ''SCCS file is locked''))
      else if m = CREATE then Inr (file_start n m)
      else
        bindE (parse_header READ (silent \<or> m = FIX_CHECKSUM) xbits content) (\<lambda>opened.
        let f = (file_start n m)\<lparr>edit_mode_ok := \<not> is_bk opened, sfile_executable := is_executable opened,
                                 sf_body := or_body opened\<rparr> in
        if m \<noteq> READ \<and> is_bk opened then Inl (Fatal Bitkeeper_file)
        else
          bindE (ASSERT (or_table opened \<noteq> None)) (\<lambda>_.
          bindE (apply_flags (sf_flags f) (or_flags opened)) (\<lambda>fl.
            Inr (f\<lparr>checksum_valid := (m = FIX_CHECKSUM \<or> or_checksum_valid opened),
                   sf_table := the (or_table opened), users := or_users opened,
                   sf_flags := fl, sf_comments := or_comments opened\<rparr>)))))"

section \<open>Writing\<close>

definition cap5 :: "nat \<Rightarrow> nat" where
  "cap5 n = (if n < 99999 then n else 99999)"

definition idu_text :: "delta \<Rightarrow> string" where
  "idu_text d = show_pad 5 (cap5 (inserted d)) @ ''/'' @ show_pad 5 (cap5 (deleted d)) @ ''/'' @ show_pad 5 (cap5 (unchanged d))"

definition print_seqs :: "char \<Rightarrow> seq_no list \<Rightarrow> string" where
  "print_seqs control seqs =
     (if seqs = [] then []
      else ctrl_A # control # concat (map (\<lambda>n. CHR '' '' # show_nat n) seqs) @ [newline])"

definition write_delta :: "delta \<Rightarrow> string res" where
  "write_delta d =
     bindE (sid_print (delta_id d)) (\<lambda>i.
     bindE (date_print (delta_date d)) (\<lambda>dt.
       Inr ((ctrl_A # ''s '') @ idu_text d @ [newline]
            @ (ctrl_A # ''d '') @ [delta_type d] @ '' '' @ i @ '' '' @ dt
            @ '' '' @ user d @ '' '' @ show_nat (seq d) @ '' '' @ show_nat (prev_seq d) @ [newline]
            @ print_seqs (CHR ''i'') (included_seqs d) @ print_seqs (CHR ''x'') (excluded_seqs d)
            @ print_seqs (CHR ''g'') (ignored_seqs d)
            @ concat (map (\<lambda>m. (ctrl_A # ''m '') @ m @ [newline]) (mrs d))
            @ concat (map (\<lambda>c. (ctrl_A # ''c '') @ c @ [newline]) (comments d))
            @ (ctrl_A # ''e'') @ [newline])))"

definition put_delta :: "string \<Rightarrow> delta \<Rightarrow> string res" where
  "put_delta out d = bindE (write_delta d) (\<lambda>t. Inr (out @ t))"

definition put_name_line :: "string \<Rightarrow> string \<Rightarrow> string res" where
  "put_name_line out u = bindE (ASSERT (char_at u 0 \<noteq> ctrl_A)) (\<lambda>_. Inr (out @ u @ [newline]))"

text \<open>A flag line without an argument, and one with its text.\<close>

definition flag_set :: "bool \<Rightarrow> char \<Rightarrow> string" where
  "flag_set b c = (if b then (ctrl_A # ''f '') @ [c, newline] else [])"

definition flag_arg :: "char \<Rightarrow> string \<Rightarrow> string" where
  "flag_arg c a = (ctrl_A # ''f '') @ c # '' '' @ a @ [newline]"

definition flag_opt :: "char \<Rightarrow> string option \<Rightarrow> string" where
  "flag_opt c a = (case a of None \<Rightarrow> [] | Some s \<Rightarrow> flag_arg c s)"

definition write_flags :: "sccs_file \<Rightarrow> string res" where
  "write_flags f =
     (let fl = sf_flags f in
      bindE (if sid_valid (default_sid fl)
             then bindE (sid_print (default_sid fl)) (\<lambda>t. Inr (flag_arg (CHR ''d'') t)) else Inr []) (\<lambda>d.
        Inr (flag_set (fl_branch fl) (CHR ''b'')
             @ (if release_valid (fl_ceiling fl) then flag_arg (CHR ''c'') (release_print (fl_ceiling fl)) else [])
             @ d
             @ (if release_valid (fl_floor fl) then flag_arg (CHR ''f'') (release_print (fl_floor fl)) else [])
             @ flag_set (no_id_keywords_is_fatal fl) (CHR ''i'')
             @ flag_set (joint_edit fl) (CHR ''j'')
             @ (if all_locked fl then flag_arg (CHR ''l'') ''a''
                else if locked fl \<noteq> [] then flag_arg (CHR ''l'') (rel_print (locked fl)) else [])
             @ flag_opt (CHR ''m'') (fl_module fl)
             @ flag_set (null_deltas fl) (CHR ''n'')
             @ flag_opt (CHR ''q'') (user_def fl)
             @ flag_opt (CHR ''t'') (fl_type fl)
             @ flag_opt (CHR ''v'') (mr_checker fl)
             @ flag_arg (CHR ''e'') (if fl_encoded fl then ''1'' else ''0'')
             @ flag_set (executable fl) (CHR ''x'')
             @ (if flag_letters fl \<noteq> [] then flag_arg (CHR ''y'') (print_substituted_flags_list f '' '') else [])
             @ flag_opt (CHR ''z'') (reserved fl))))"

text \<open>\<open>sccs_file::write\<close>: everything up to the body.\<close>

definition write_header :: "sccs_file \<Rightarrow> string res" where
  "write_header f =
     bindE (foldE put_delta [] (selected All (sf_table f))) (\<lambda>ds.
     bindE (foldE put_name_line [] (users f)) (\<lambda>us.
     bindE (write_flags f) (\<lambda>fl.
     bindE (foldE put_name_line [] (sf_comments f)) (\<lambda>cs.
       Inr (ds @ (ctrl_A # ''u'') @ [newline] @ us @ (ctrl_A # ''U'') @ [newline] @ fl
            @ (ctrl_A # ''t'') @ [newline] @ cs @ (ctrl_A # ''T'') @ [newline])))))"

section \<open>Updating the s-file\<close>

text \<open>The dummy checksum line of the x-file.\<close>

definition dummy_line :: string where
  "dummy_line = (ctrl_A # ''h-----'') @ [newline]"

definition encoded_mark :: string where
  "encoded_mark = ctrl_A # ''f e ''"

fun matched :: "string \<Rightarrow> string \<Rightarrow> nat" where
  "matched (m # ms) (c # cs) = (if m = c then Suc (matched ms cs) else 0)"
| "matched ms cs = 0"

text \<open>
  The search of \<open>rehack_encoded_flag\<close>: the text up to and including the mark, and the rest. A
  match that fails leaves the file position after the first character that differs.
\<close>

function find_mark :: "char \<Rightarrow> string \<Rightarrow> string \<Rightarrow> (string \<times> string) option" where
  "find_mark lastc pre s =
     (if s = [] then None
      else if lastc = newline then
        let k = matched encoded_mark s in
        if k = length encoded_mark then Some (pre @ take k s, drop k s)
        else if k \<ge> length s then None
        else find_mark (s ! k) (pre @ take (Suc k) s) (drop (Suc k) s)
      else find_mark (hd s) (pre @ [hd s]) (tl s))"
  by pat_completeness auto
termination
  by (relation "measure (\<lambda>(lastc, pre, s). length s)") auto

declare find_mark.simps [simp del]

definition rehack_encoded_flag :: "string \<Rightarrow> int \<Rightarrow> (string \<times> int) res" where
  "rehack_encoded_flag file csum =
     (case find_mark newline [] file of
        None \<Rightarrow> Inl (Failed (Message ''no encoded flag found''))
      | Some (a, b) \<Rightarrow>
          if char_at b 0 = CHR ''0'' then Inr (write_at (length a) file ''1'', (csum + 1) mod 65536)
          else Inr (file, csum))"

text \<open>\<open>end_update\<close>: the contents of the x-file when it is renamed to be the s-file.\<close>

definition end_update :: "sccs_file \<Rightarrow> string \<Rightarrow> string res" where
  "end_update f file =
     bindE (parse_header READ True (sfile_executable f) file) (\<lambda>opened.
     bindE (if fl_encoded (sf_flags f) then rehack_encoded_flag file (computed_sum opened)
            else Inr (file, computed_sum opened)) (\<lambda>(file, csum).
       Inr (write_at 0 file ((ctrl_A # ''h'') @ show_pad 5 (nat csum)))))"

text \<open>
  \<open>update\<close> (sf-write.cc) with its \<open>copy_to\<close>: the new header is followed by the bytes of the old body. The body of an
  \<open>sccs_file\<close> here is the list of its lines, so that the bytes are those of the file when the body has no NUL and
  ends in a newline, which holds for every file that the commands write.
\<close>

definition sfile_update :: "sccs_file \<Rightarrow> string res" where
  "sfile_update f =
     bindE (ASSERT (sf_mode f \<noteq> CREATE)) (\<lambda>_.
     bindE (ASSERT (sf_mode f \<noteq> READ)) (\<lambda>_.
     bindE (write_header f) (\<lambda>h. end_update f (dummy_line @ h @ unlines (sf_body f)))))"

text \<open>
  The update that prepends a delta (sf-add.cc): the line counts of the new delta are written
  over the placeholder at the end.
\<close>

definition start_update_delta :: "sccs_file \<Rightarrow> delta \<Rightarrow> string res" where
  "start_update_delta f d =
     bindE (ASSERT (sf_mode f \<noteq> READ)) (\<lambda>_.
     bindE (write_delta d) (\<lambda>t. bindE (write_header f) (\<lambda>h. Inr (dummy_line @ t @ h))))"

definition end_update_delta :: "sccs_file \<Rightarrow> string \<Rightarrow> delta \<Rightarrow> (string \<times> sccs_file) res" where
  "end_update_delta f file d =
     bindE (end_update f (write_at 0 file (dummy_line @ (ctrl_A # ''s '') @ idu_text d))) (\<lambda>new.
       Inr (new, f\<lparr>sf_table := table_prepend d (sf_table f)\<rparr>))"

end
