(* ===== verification/Sfile_Roundtrip.thy ===== *)
theory Sfile_Roundtrip
  imports Sfile_Format
begin

text \<open>
  What the writer of the s-file header writes is read back by the parser and the constructor of
  \<open>sccs_file\<close>: the deltas, the users, the flags, the comments and the body are the same, and the
  checksum is the one that the parser computes.
\<close>

section \<open>The lines of a delta\<close>

lemma dec_val_zeros [simp]: "dec_val 0 (replicate k (CHR ''0'')) = 0"
  by (induction k) (simp_all add: digit_val_def)

lemma show_pad_digits: "list_all isdigit (show_pad w n)"
  by (auto simp: show_pad_def list_all_iff isdigit_def dest: show_nat_digits)

lemma show_pad_Nil [simp]: "show_pad w n \<noteq> []"
  by (simp add: show_pad_def)

lemma dec_val_show_pad [simp]: "dec_val 0 (show_pad w n) = n"
  by (simp add: show_pad_def)

lemma show_pad_chars: "\<not> isdigit c \<Longrightarrow> c \<notin> set (show_pad w n)"
  using show_pad_digits [of w n] by (auto simp: list_all_iff)

lemma takeWhile_all: "list_all P s \<Longrightarrow> takeWhile P s = s" "list_all P s \<Longrightarrow> dropWhile P s = []"
  by (simp_all add: list_all_iff)

lemma strtoul_digits:
  assumes "list_all isdigit s" and "s \<noteq> []" and "dec_val 0 s \<le> 18446744073709551615"
  shows "strtoul s = (dec_val 0 s, [])"
proof -
  obtain c t where s: "s = c # t" using assms(2) by (cases s) auto
  then have "\<not> isspace c" "c \<noteq> CHR ''+''" using assms(1) isdigit_not_isspace [of c] by auto
  then have "dropWhile isspace s = s" "hd s \<noteq> CHR ''+''" using s by simp_all
  then show ?thesis using assms(2,3) unfolding strtoul_def Let_def by (simp add: takeWhile_all [OF assms(1)])
qed

lemma strict_atoul_idu_show:
  assumes "n \<le> 99999"
  shows "strict_atoul_idu (show_pad 5 n) = Inr n"
proof -
  obtain c t where s: "show_pad 5 n = c # t" using show_pad_Nil by (metis neq_Nil_conv)
  then have c: "isdigit c" using show_pad_digits [of 5 n] by simp
  then have "c \<noteq> CHR '' ''" "c \<noteq> CHR ''-''" by auto
  then have "dropWhile (\<lambda>c. c = CHR '' '') (show_pad 5 n) = show_pad 5 n" "char_at (show_pad 5 n) 0 \<noteq> CHR ''-''"
    using s by simp_all
  then show ?thesis
    using strtoul_digits [OF show_pad_digits show_pad_Nil, of 5 n] assms
    by (simp add: strict_atoul_idu_def Let_def)
qed

text \<open>A delta that the format can hold.\<close>

definition delta_storable :: "delta \<Rightarrow> bool" where
  "delta_storable d \<longleftrightarrow>
     is_valid_delta_type (delta_type d) \<and> sid_wf (delta_id d) \<and> date_sfile (delta_date d)
     \<and> plain_word (user d) \<and> seq d \<le> 65535 \<and> prev_seq d \<le> 65535
     \<and> have_includes d = (included_seqs d \<noteq> []) \<and> have_excludes d = (excluded_seqs d \<noteq> [])
     \<and> have_ignores d = (ignored_seqs d \<noteq> [])
     \<and> (\<forall>n \<in> set (included_seqs d) \<union> set (excluded_seqs d) \<union> set (ignored_seqs d). n \<le> 65535)
     \<and> (\<forall>l \<in> set (mrs d) \<union> set (comments d). plain_line l)
     \<and> inserted d \<le> 99999 \<and> deleted d \<le> 99999 \<and> unchanged d \<le> 99999"

definition s_line :: "delta \<Rightarrow> string" where
  "s_line d = (ctrl_A # ''s '') @ idu_text d"

definition d_words :: "delta \<Rightarrow> string list" where
  "d_words d = [[delta_type d], sid_as_string (delta_id d), date_word (delta_date d), time_word (delta_date d),
                user d, show_nat (seq d), show_nat (prev_seq d)]"

definition d_line :: "delta \<Rightarrow> string" where
  "d_line d = (ctrl_A # ''d '') @ words_text (d_words d)"

definition seqs_line :: "char \<Rightarrow> seq_no list \<Rightarrow> string list" where
  "seqs_line c ns = (if ns = [] then [] else [(ctrl_A # c # '' '') @ words_text (map show_nat ns)])"

definition notes_lines :: "delta \<Rightarrow> string list" where
  "notes_lines d = map (\<lambda>m. (ctrl_A # ''m '') @ m) (mrs d) @ map (\<lambda>c. (ctrl_A # ''c '') @ c) (comments d)"

definition delta_lines :: "delta \<Rightarrow> string list" where
  "delta_lines d =
     s_line d # d_line d # seqs_line (CHR ''i'') (included_seqs d) @ seqs_line (CHR ''x'') (excluded_seqs d)
     @ seqs_line (CHR ''g'') (ignored_seqs d) @ notes_lines d @ [ctrl_A # ''e'']"

lemma concat_words: "ns \<noteq> [] \<Longrightarrow> concat (map (\<lambda>n. CHR '' '' # f n) ns) = CHR '' '' # words_text (map f ns)"
proof (induction ns)
  case (Cons n ns)
  then show ?case by (cases ns) auto
qed simp

lemma print_seqs_lines: "print_seqs c ns = unlines (seqs_line c ns)"
  by (simp add: print_seqs_def seqs_line_def concat_words)

lemma write_delta_lines:
  assumes "delta_storable d"
  shows "write_delta d = Inr (unlines (delta_lines d))"
proof -
  have n: "unlines (notes_lines d) =
      concat (map (\<lambda>m. (ctrl_A # ''m '') @ m @ [newline]) (mrs d)) @ concat (map (\<lambda>c. (ctrl_A # ''c '') @ c @ [newline]) (comments d))"
    by (simp add: notes_lines_def unlines_def o_def)
  have "sid_print (delta_id d) = Inr (sid_as_string (delta_id d))"
    "date_print (delta_date d) = Inr (date_word (delta_date d) @ '' '' @ time_word (delta_date d))"
    using assms by (simp_all add: delta_storable_def sid_print_text date_words(1))
  then show ?thesis
    unfolding write_delta_def delta_lines_def print_seqs_lines
    by (simp add: n s_line_def d_line_def d_words_def)
qed

lemma line_type_ctl [simp]: "line_type (ctrl_A # c # s) = c"
  by (simp add: line_type_def)

lemma check_arg_ctl [simp]: "check_arg (a # c # CHR '' '' # s) = Inr ()"
  by (simp add: check_arg_def numeral_2_eq_2)

lemma drop_3 [simp]: "drop 3 (a # b # c # s) = s" and char_at_2 [simp]: "char_at (a # b # c # s) 2 = c"
  by (simp_all add: numeral_3_eq_3 numeral_2_eq_2)

lemma split_idu:
  "linebuf_split (idu_text d) 3 (CHR ''/'') =
     [show_pad 5 (cap5 (inserted d)), show_pad 5 (cap5 (deleted d)), show_pad 5 (cap5 (unchanged d))]"
  by (simp add: idu_text_def numeral_3_eq_3 show_pad_chars)

lemma split_d_words:
  assumes "delta_storable d"
  shows "linebuf_split (words_text (d_words d)) 7 (CHR '' '') = d_words d"
proof -
  have sf: "date_sfile (delta_date d)" and sw: "sid_wf (delta_id d)" and u: "plain_word (user d)"
    and ty: "delta_type d = CHR ''D'' \<or> delta_type d = CHR ''R''"
    using assms by (auto simp: delta_storable_def is_valid_delta_type_def)
  have "\<forall>w \<in> set (d_words d). CHR '' '' \<notin> set w"
    using sid_text_chars [OF sw] date_words(5,6) [OF sf] u ty by (auto simp: d_words_def plain_word_def)
  then show ?thesis by (intro linebuf_split_words) (simp_all add: d_words_def)
qed

lemma parse_d_line_text:
  assumes "delta_storable d" and "d0 = set_idu (inserted d) (deleted d) (unchanged d) delta_default"
  shows "parse_d_line (d_line d) d0 =
     Inr (d0\<lparr>delta_type := delta_type d, delta_id := delta_id d, delta_date := delta_date d, user := user d,
             seq := seq d, prev_seq := prev_seq d\<rparr>)"
proof -
  have sf: "date_sfile (delta_date d)" and sw: "sid_wf (delta_id d)" and ty: "is_valid_delta_type (delta_type d)"
    using assms by (auto simp: delta_storable_def)
  have valid: "sid_valid (delta_id d)" "date_valid (delta_date d)"
    using sw sf by (simp_all add: sid_valid_def sid_wf_def date_sfile_def date_ok_def)
  have args: "linebuf_split (words_text (d_words d)) 7 (CHR '' '') = d_words d"
    by (rule split_d_words [OF assms(1)])
  have st: "set_type (delta_type d) d0 = Inr (d0\<lparr>delta_type := delta_type d\<rparr>)"
    using ty by (simp add: set_type_def)
  show ?thesis
    using assms(1) ty valid st date_words(4) [OF sf] sid_of_string_as_string [OF sw]
    by (simp add: parse_d_line_def d_line_def args Let_def) (simp add: d_words_def delta_storable_def)
qed


section \<open>Reading a delta\<close>

lemma seq_numbers_words:
  assumes "ns \<noteq> []" and "\<forall>n \<in> set ns. n \<le> 65535"
  shows "seq_numbers (words_text (map show_nat ns)) = Inr ns"
  using assms
proof (induction ns)
  case (Cons n ns)
  show ?case
  proof (cases ns)
    case Nil
    then show ?thesis using Cons.prems by (subst seq_numbers.simps) simp
  next
    case (Cons m ms)
    then have "words_text (map show_nat (n # ns)) = show_nat n @ CHR '' '' # words_text (map show_nat ns)" by simp
    then show ?thesis using Cons.IH Cons.prems Cons by (subst seq_numbers.simps) simp
  qed
qed simp

lemma foldl_add_seq:
  "foldl (\<lambda>d n. add_seq (CHR ''i'') n d) d ns =
     d\<lparr>included_seqs := included_seqs d @ ns, have_includes := have_includes d \<or> ns \<noteq> []\<rparr>"
  "foldl (\<lambda>d n. add_seq (CHR ''x'') n d) d ns =
     d\<lparr>excluded_seqs := excluded_seqs d @ ns, have_excludes := have_excludes d \<or> ns \<noteq> []\<rparr>"
  "foldl (\<lambda>d n. add_seq (CHR ''g'') n d) d ns =
     d\<lparr>ignored_seqs := ignored_seqs d @ ns, have_ignores := have_ignores d \<or> ns \<noteq> []\<rparr>"
  by (induction ns arbitrary: d) (simp_all add: add_seq_def add_include_def add_exclude_def add_ignore_def)

text \<open>One turn of the loop over i, x and g, whether its line is there or not.\<close>

lemma seq_line_written:
  assumes "\<forall>n \<in> set ns. n \<le> 65535" and "L = seqs_line c ns @ l # r" and "line_type l \<noteq> c"
    and "set_has c d = Inr d'"
  shows "seq_line (hd L, tl L, d) c = Inr (l, r, if ns = [] then d else foldl (\<lambda>d n. add_seq c n d) d' ns)"
  using assms seq_numbers_words [of ns]
  by (cases "ns = []") (simp_all add: seq_line_def seqs_line_def next_line_def)

lemma seq_lines_written:
  assumes "\<forall>n \<in> set is \<union> set xs \<union> set gs. n \<le> 65535"
    and "L = seqs_line (CHR ''i'') is @ seqs_line (CHR ''x'') xs @ seqs_line (CHR ''g'') gs @ l # r"
    and "line_type l \<notin> {CHR ''i'', CHR ''x'', CHR ''g''}"
    and "included_seqs d = []" "excluded_seqs d = []" "ignored_seqs d = []"
    and "\<not> have_includes d" "\<not> have_excludes d" "\<not> have_ignores d"
  shows "foldE seq_line (hd L, tl L, d) [CHR ''i'', CHR ''x'', CHR ''g''] =
     Inr (l, r, d\<lparr>included_seqs := is, excluded_seqs := xs, ignored_seqs := gs,
                   have_includes := is \<noteq> [], have_excludes := xs \<noteq> [], have_ignores := gs \<noteq> []\<rparr>)"
proof -
  obtain lg rg where g: "seqs_line (CHR ''g'') gs @ l # r = lg # rg" and tg: "line_type lg \<notin> {CHR ''i'', CHR ''x''}"
    using assms(3) by (cases "gs = []") (auto simp: seqs_line_def)
  obtain lx rx where x: "seqs_line (CHR ''x'') xs @ lg # rg = lx # rx" and tx: "line_type lx \<noteq> CHR ''i''"
    using tg by (cases "xs = []") (auto simp: seqs_line_def)
  have L: "L = seqs_line (CHR ''i'') is @ lx # rx" using assms(2) g x by simp
  have i: "seq_line (hd L, tl L, d) (CHR ''i'') = Inr (lx, rx, d\<lparr>included_seqs := is, have_includes := is \<noteq> []\<rparr>)"
    using seq_line_written [OF _ L tx] assms by (simp add: set_has_def set_has_includes_def foldl_add_seq)
  have x2: "seq_line (lx, rx, d\<lparr>included_seqs := is, have_includes := is \<noteq> []\<rparr>) (CHR ''x'') =
      Inr (lg, rg, d\<lparr>included_seqs := is, have_includes := is \<noteq> [], excluded_seqs := xs, have_excludes := xs \<noteq> []\<rparr>)"
    using seq_line_written [OF _ x [symmetric]] tg assms by (simp add: set_has_def set_has_excludes_def foldl_add_seq)
  have g2: "seq_line (lg, rg, d\<lparr>included_seqs := is, have_includes := is \<noteq> [], excluded_seqs := xs, have_excludes := xs \<noteq> []\<rparr>) (CHR ''g'') =
      Inr (l, r, d\<lparr>included_seqs := is, have_includes := is \<noteq> [], excluded_seqs := xs, have_excludes := xs \<noteq> [],
                   ignored_seqs := gs, have_ignores := gs \<noteq> []\<rparr>)"
    using seq_line_written [OF _ g [symmetric]] assms by (simp add: set_has_def set_has_ignores_def foldl_add_seq)
  show ?thesis using i x2 g2 by simp
qed

lemma notes_loop_written:
  assumes "line_type e \<noteq> CHR ''m''" and "line_type e \<noteq> CHR ''c''"
    and "L = map (\<lambda>m. (ctrl_A # ''m '') @ m) ms @ map (\<lambda>c. (ctrl_A # ''c '') @ c) cs @ e # r"
  shows "notes_loop (hd L) (tl L) d = Inr (e, r, d\<lparr>mrs := mrs d @ ms, comments := comments d @ cs\<rparr>)"
proof -
  have c: "notes_loop (hd L) (tl L) d = Inr (e, r, d\<lparr>comments := comments d @ cs\<rparr>)"
    if "L = map (\<lambda>c. (ctrl_A # ''c '') @ c) cs @ e # r" for L d
    using that
  proof (induction cs arbitrary: L d)
    case Nil
    then show ?case using assms by (simp add: notes_loop_step)
  next
    case (Cons x cs)
    then show ?case
      by (cases cs) (simp_all add: notes_loop_step note_line_def add_comment_def assms)
  qed
  show ?thesis using assms(3)
  proof (induction ms arbitrary: L d)
    case Nil
    then show ?case using c by simp
  next
    case (Cons m ms)
    define L' where "L' = map (\<lambda>m. (ctrl_A # ''m '') @ m) ms @ map (\<lambda>c. (ctrl_A # ''c '') @ c) cs @ e # r"
    have "L' \<noteq> []" by (simp add: L'_def)
    then have "L = ((ctrl_A # ''m '') @ m) # hd L' # tl L'" using Cons.prems by (simp add: L'_def)
    then show ?case using Cons.IH [OF L'_def, of "d\<lparr>mrs := mrs d @ [m]\<rparr>"]
      by (simp add: notes_loop_step note_line_def add_mr_def)
  qed
qed

lemma cap5_id [simp]: "n \<le> 99999 \<Longrightarrow> cap5 n = n"
  by (simp add: cap5_def)

lemma read_delta_written:
  assumes "delta_storable d"
  shows "read_delta (s_line d) (tl (delta_lines d) @ r) = Inr (d, r)"
proof -
  have caps: "cap5 (inserted d) = inserted d" "cap5 (deleted d) = deleted d" "cap5 (unchanged d) = unchanged d"
    and idu: "inserted d \<le> 99999" "deleted d \<le> 99999" "unchanged d \<le> 99999"
    and seqs: "\<forall>n \<in> set (included_seqs d) \<union> set (excluded_seqs d) \<union> set (ignored_seqs d). n \<le> 65535"
    using assms by (simp_all add: delta_storable_def)
  define d0 where "d0 = set_idu (inserted d) (deleted d) (unchanged d) delta_default"
  define d1 where "d1 = d0\<lparr>delta_type := delta_type d, delta_id := delta_id d, delta_date := delta_date d, user := user d,
             seq := seq d, prev_seq := prev_seq d\<rparr>"
  define N where "N = notes_lines d @ (ctrl_A # ''e'') # r"
  define L where "L = seqs_line (CHR ''i'') (included_seqs d) @ seqs_line (CHR ''x'') (excluded_seqs d)
     @ seqs_line (CHR ''g'') (ignored_seqs d) @ N"
  have N: "N \<noteq> []" "line_type (hd N) \<notin> {CHR ''i'', CHR ''x'', CHR ''g''}"
    by (cases "mrs d"; cases "comments d"; simp add: N_def notes_lines_def)+
  have L: "L = seqs_line (CHR ''i'') (included_seqs d) @ seqs_line (CHR ''x'') (excluded_seqs d)
     @ seqs_line (CHR ''g'') (ignored_seqs d) @ hd N # tl N" and L0: "L \<noteq> []"
    using N(1) by (simp_all add: L_def)
  have tl: "tl (delta_lines d) @ r = d_line d # hd L # tl L"
    using N(1) by (simp add: delta_lines_def L_def N_def notes_lines_def)
  have d: "parse_d_line (d_line d) d0 = Inr d1" using parse_d_line_text [OF assms d0_def] by (simp add: d1_def)
  define d2 where "d2 = d1\<lparr>included_seqs := included_seqs d, excluded_seqs := excluded_seqs d, ignored_seqs := ignored_seqs d,
       have_includes := included_seqs d \<noteq> [], have_excludes := excluded_seqs d \<noteq> [], have_ignores := ignored_seqs d \<noteq> []\<rparr>"
  have q: "foldE seq_line (hd L, tl L, d1) [CHR ''i'', CHR ''x'', CHR ''g''] = Inr (hd N, tl N, d2)"
    unfolding d2_def by (rule seq_lines_written [OF seqs L N(2)])
      (simp_all add: d1_def d0_def set_idu_def delta_default_def)
  have n: "notes_loop (hd N) (tl N) d2 = Inr (ctrl_A # ''e'', r, d2\<lparr>mrs := mrs d2 @ mrs d, comments := comments d2 @ comments d\<rparr>)"
    by (rule notes_loop_written) (simp_all add: N_def notes_lines_def)
  have "d2\<lparr>mrs := mrs d2 @ mrs d, comments := comments d2 @ comments d\<rparr> = d"
    using assms by (simp add: d2_def d1_def d0_def set_idu_def delta_default_def delta_storable_def)
  with n have n: "notes_loop (hd N) (tl N) d2 = Inr (ctrl_A # ''e'', r, d)" by simp
  have ld: "line_type (d_line d) = CHR ''d''" by (simp add: d_line_def)
  have e: "check_noarg (ctrl_A # ''e'') = Inr ()" by (simp add: check_noarg_def numeral_2_eq_2)
  show ?thesis
    unfolding tl read_delta_def s_line_def
    using idu d q n ld e
    by (simp add: split_idu caps strict_atoul_idu_show next_line_def d0_def [symmetric] del: foldE.simps)
qed

lemma read_deltas_stop: "line_type l \<noteq> CHR ''s'' \<Longrightarrow> read_deltas l r t = Inr (l, r, t)"
  by (subst read_deltas.simps) simp

lemma read_deltas_written:
  assumes "\<forall>d \<in> set ds. delta_storable d" and "line_type u \<noteq> CHR ''s''"
    and "L = concat (map delta_lines ds) @ u # r"
  shows "read_deltas (hd L) (tl L) (Some t) = Inr (u, r, Some (foldl (\<lambda>t d. table_add d t) t ds))"
  using assms
proof (induction ds arbitrary: t L)
  case Nil
  then show ?case by (simp add: read_deltas_stop)
next
  case (Cons d ds)
  define L' where "L' = concat (map delta_lines ds) @ u # r"
  have L': "L' = hd L' # tl L'" by (simp add: L'_def)
  have L: "hd L = s_line d" "tl L = tl (delta_lines d) @ L'"
    using Cons.prems(3) by (simp_all add: L'_def delta_lines_def [of d])
  have rd: "read_delta (s_line d) (tl (delta_lines d) @ L') = Inr (d, L')"
    using Cons.prems(1) by (simp add: read_delta_written)
  have "read_deltas (hd L) (tl L) (Some t) = read_deltas (hd L') (tl L') (Some (table_add d t))"
    unfolding L by (subst read_deltas.simps, subst rd, subst L') (simp add: s_line_def)
  then show ?case using Cons.IH [OF _ _ L'_def] Cons.prems by simp
qed

lemma read_deltas_first:
  assumes "ds \<noteq> []" and "\<forall>d \<in> set ds. delta_storable d" and "line_type u \<noteq> CHR ''s''"
    and "L = concat (map delta_lines ds) @ u # r"
  shows "read_deltas (hd L) (tl L) None = Inr (u, r, Some (foldl (\<lambda>t d. table_add d t) table_empty ds))"
proof -
  have "read_deltas (hd L) (tl L) None = read_deltas (hd L) (tl L) (Some table_empty)"
  proof -
    have "line_type (hd L) = CHR ''s''" using assms by (cases ds) (simp_all add: delta_lines_def s_line_def)
    then show ?thesis
      by (subst read_deltas.simps, subst (2) read_deltas.simps) (simp split: sum.split list.split)
  qed
  then show ?thesis using read_deltas_written [OF assms(2-4)] by simp
qed

end
