(* ===== verification/Flag_Lines.thy ===== *)
theory Flag_Lines
  imports Sfile_Format
begin

text \<open>
  The flags of an s-file as the writer writes them and as the parser and the constructor of
  \<open>sccs_file\<close> read them back.
\<close>

section \<open>Releases and release lists\<close>

lemma release_print_read:
  assumes "0 < rel_no r" and "rel_no r \<le> 32767"
  shows "release_of_string (Some (release_print r)) = r"
  using assms by (cases r) (simp add: release_of_string_def release_print_def get_id_comp_last)

lemma strtol_space:
  assumes "isspace c" and "snd (snd (strtol s)) \<noteq> s"
  shows "strtol (c # s) = strtol s"
proof -
  have d: "dropWhile isspace (c # s) = dropWhile isspace s" using assms(1) by simp
  show ?thesis using assms(2) unfolding strtol_def Let_def d by (auto split: if_split_asm)
qed

lemma strtol_release:
  assumes "0 \<le> rel_no r" and "rel_no r \<le> 32767" and "rest = [] \<or> \<not> isdigit (hd rest)"
  shows "strtol (release_print r @ rest) = (rel_no r, False, rest)"
    and "strtol (CHR '' '' # release_print r @ rest) = (rel_no r, False, rest)"
proof -
  have p: "release_print r = show_nat (nat (rel_no r))" using assms(1) by (simp add: release_print_def show_int_def)
  show a: "strtol (release_print r @ rest) = (rel_no r, False, rest)"
    unfolding p using strtol_show_nat [OF assms(3), of "nat (rel_no r)"] assms(1,2) by (simp add: long_max_def)
  have "rest \<noteq> release_print r @ rest" by (simp add: p)
  then show "strtol (CHR '' '' # release_print r @ rest) = (rel_no r, False, rest)"
    using a by (subst strtol_space) (simp_all add: isspace_def)
qed

lemma rel_print_Cons: "rel_print (r # rs) = release_print r @ (if rs = [] then [] else CHR '' '' # rel_print rs)"
  by (cases rs) simp_all

lemma release_list_loop_print:
  assumes "\<forall>r \<in> set rs. 0 \<le> rel_no r \<and> rel_no r \<le> 32767" and "distinct (acc @ rs)"
  shows "release_list_loop (rel_print rs) acc = Inr (acc @ rs)"
    and "rs \<noteq> [] \<Longrightarrow> release_list_loop (CHR '' '' # rel_print rs) acc = Inr (acc @ rs)"
proof -
  have "release_list_loop (pre @ rel_print rs) acc = Inr (acc @ rs)"
    if "pre = [] \<or> pre = '' '' \<and> rs \<noteq> []" for pre
    using assms that
  proof (induction rs arbitrary: acc pre)
    case Nil
    then show ?case by (simp add: release_list_loop.simps)
  next
    case (Cons r rs)
    define rest where "rest = (if rs = [] then [] else CHR '' '' # rel_print rs)"
    have rest: "rest = [] \<or> \<not> isdigit (hd rest)" by (simp add: rest_def)
    have st: "strtol (pre @ rel_print (r # rs)) = (rel_no r, False, rest)"
      using strtol_release [OF _ _ rest, of r] Cons.prems by (auto simp: rel_print_Cons rest_def [symmetric])
    have ne: "pre @ rel_print (r # rs) \<noteq> []" "pre @ rel_print (r # rs) \<noteq> rest"
      by (auto simp: rel_print_Cons rest_def [symmetric] release_print_def show_int_def Cons_eq_append_conv
          dest: arg_cong [where f = length])
    have push: "rel_push (Release (short_of (rel_no r))) acc = acc @ [r]"
      using Cons.prems by (cases r) (simp add: rel_push_def rel_member_def)
    have step: "release_list_loop X acc = release_list_loop rest (acc @ [r])"
      if "X \<noteq> []" "X \<noteq> rest" "strtol X = (rel_no r, False, rest)" for X
      using that Cons.prems(1) push by (subst release_list_loop.simps) (auto simp: rest_def)
    have "release_list_loop (pre @ rel_print (r # rs)) acc = release_list_loop rest (acc @ [r])"
      by (rule step [OF ne st])
    also have "\<dots> = Inr (acc @ r # rs)"
      using Cons.IH [of "acc @ [r]" "if rs = [] then [] else '' ''"] Cons.prems by (cases "rs = []") (auto simp: rest_def)
    finally show ?case .
  qed
  from this [of "[]"] this [of "'' ''"]
  show "release_list_loop (rel_print rs) acc = Inr (acc @ rs)"
    and "rs \<noteq> [] \<Longrightarrow> release_list_loop (CHR '' '' # rel_print rs) acc = Inr (acc @ rs)" by auto
qed

lemma release_list_print_read:
  assumes "\<forall>r \<in> set rs. 0 \<le> rel_no r \<and> rel_no r \<le> 32767" and "distinct rs"
  shows "release_list_of_string (rel_print rs) = Inr rs"
  using release_list_loop_print(1) [OF assms(1), of "[]"] assms(2) by (simp add: release_list_of_string_def)

section \<open>The settings that the flags are written as\<close>

definition bool_setting :: "char \<Rightarrow> bool \<Rightarrow> (char \<times> string option) list" where
  "bool_setting c b = (if b then [(c, None)] else [])"

definition text_setting :: "char \<Rightarrow> string option \<Rightarrow> (char \<times> string option) list" where
  "text_setting c a = (case a of None \<Rightarrow> [] | Some s \<Rightarrow> [(c, Some s)])"

definition locked_text :: "sccs_file_flags \<Rightarrow> string option" where
  "locked_text fl = (if all_locked fl then Some ''a'' else if locked fl \<noteq> [] then Some (rel_print (locked fl)) else None)"

definition settings_before :: "sccs_file_flags \<Rightarrow> (char \<times> string option) list" where
  "settings_before fl =
     bool_setting (CHR ''b'') (fl_branch fl)
     @ text_setting (CHR ''c'') (if release_valid (fl_ceiling fl) then Some (release_print (fl_ceiling fl)) else None)
     @ text_setting (CHR ''d'') (if sid_valid (default_sid fl) then Some (sid_as_string (default_sid fl)) else None)
     @ text_setting (CHR ''f'') (if release_valid (fl_floor fl) then Some (release_print (fl_floor fl)) else None)
     @ bool_setting (CHR ''i'') (no_id_keywords_is_fatal fl)
     @ bool_setting (CHR ''j'') (joint_edit fl)
     @ text_setting (CHR ''l'') (locked_text fl)
     @ text_setting (CHR ''m'') (fl_module fl)
     @ bool_setting (CHR ''n'') (null_deltas fl)
     @ text_setting (CHR ''q'') (user_def fl)
     @ text_setting (CHR ''t'') (fl_type fl)
     @ text_setting (CHR ''v'') (mr_checker fl)"

definition settings_after :: "sccs_file_flags \<Rightarrow> (char \<times> string option) list" where
  "settings_after fl =
     bool_setting (CHR ''x'') (executable fl)
     @ text_setting (CHR ''y'') (if flag_letters fl \<noteq> [] then Some (flag_letters fl) else None)
     @ text_setting (CHR ''z'') (reserved fl)"

definition flag_settings :: "sccs_file_flags \<Rightarrow> (char \<times> string option) list" where
  "flag_settings fl =
     settings_before fl @ text_setting (CHR ''e'') (Some (if fl_encoded fl then ''1'' else ''0'')) @ settings_after fl"

lemmas flag_settings_defs = flag_settings_def settings_before_def settings_after_def

text \<open>
  Flags that the format can hold. A list of more than one letter of the y flag is written with
  blanks in between, which are read back as letters, so it is not among them.
\<close>

definition release_storable :: "release \<Rightarrow> bool" where
  "release_storable r \<longleftrightarrow> r = release_default \<or> 0 < rel_no r \<and> rel_no r \<le> 32767"

definition text_storable :: "string option \<Rightarrow> bool" where
  "text_storable a \<longleftrightarrow> (case a of None \<Rightarrow> True | Some s \<Rightarrow> plain_line s)"

definition flags_storable :: "sccs_file_flags \<Rightarrow> bool" where
  "flags_storable fl \<longleftrightarrow>
     release_storable (fl_ceiling fl) \<and> release_storable (fl_floor fl)
     \<and> (default_sid fl = null_sid \<or> sid_wf (default_sid fl))
     \<and> distinct (locked fl) \<and> (\<forall>r \<in> set (locked fl). 0 \<le> rel_no r \<and> rel_no r \<le> 32767)
     \<and> (all_locked fl \<longrightarrow> locked fl = [])
     \<and> list_all text_storable [fl_type fl, mr_checker fl, fl_module fl, user_def fl, reserved fl]
     \<and> length (flag_letters fl) \<le> 1 \<and> plain_line (flag_letters fl)"

section \<open>Applying the settings\<close>

lemma apply_bool [simp]:
  "foldE apply_flag fl (bool_setting (CHR ''b'') v) = Inr (fl\<lparr>fl_branch := v \<or> fl_branch fl\<rparr>)"
  "foldE apply_flag fl (bool_setting (CHR ''i'') v) = Inr (fl\<lparr>no_id_keywords_is_fatal := v \<or> no_id_keywords_is_fatal fl\<rparr>)"
  "foldE apply_flag fl (bool_setting (CHR ''j'') v) = Inr (fl\<lparr>joint_edit := v \<or> joint_edit fl\<rparr>)"
  "foldE apply_flag fl (bool_setting (CHR ''n'') v) = Inr (fl\<lparr>null_deltas := v \<or> null_deltas fl\<rparr>)"
  "foldE apply_flag fl (bool_setting (CHR ''x'') v) = Inr (fl\<lparr>executable := v \<or> executable fl\<rparr>)"
  by (cases v; simp add: bool_setting_def apply_flag_def)+

definition given :: "string option \<Rightarrow> string option \<Rightarrow> string option" where
  "given a b = (case a of None \<Rightarrow> b | Some s \<Rightarrow> Some s)"

lemma given_None [simp]: "given a None = a"
  by (simp add: given_def split: option.split)

lemma apply_text [simp]:
  "foldE apply_flag fl (text_setting (CHR ''m'') a) = Inr (fl\<lparr>fl_module := given a (fl_module fl)\<rparr>)"
  "foldE apply_flag fl (text_setting (CHR ''q'') a) = Inr (fl\<lparr>user_def := given a (user_def fl)\<rparr>)"
  "foldE apply_flag fl (text_setting (CHR ''t'') a) = Inr (fl\<lparr>fl_type := given a (fl_type fl)\<rparr>)"
  "foldE apply_flag fl (text_setting (CHR ''v'') a) = Inr (fl\<lparr>mr_checker := given a (mr_checker fl)\<rparr>)"
  "foldE apply_flag fl (text_setting (CHR ''z'') a) = Inr (fl\<lparr>reserved := given a (reserved fl)\<rparr>)"
  by (cases a; simp add: text_setting_def given_def apply_flag_def need_arg_def set_module_flag_def
      set_user_flag_def set_type_flag_def set_mr_checker_flag_def set_reserved_flag_def)+

lemma apply_encoded [simp]:
  "foldE apply_flag fl (text_setting (CHR ''e'') (Some (if b then ''1'' else ''0''))) = Inr (fl\<lparr>fl_encoded := b\<rparr>)"
  by (cases b) (simp_all add: text_setting_def apply_flag_def)

lemma apply_releases:
  assumes "release_storable r"
  shows "fl_ceiling fl = release_default \<Longrightarrow>
       foldE apply_flag fl (text_setting (CHR ''c'') (if release_valid r then Some (release_print r) else None)) = Inr (fl\<lparr>fl_ceiling := r\<rparr>)"
    and "fl_floor fl = release_default \<Longrightarrow>
       foldE apply_flag fl (text_setting (CHR ''f'') (if release_valid r then Some (release_print r) else None)) = Inr (fl\<lparr>fl_floor := r\<rparr>)"
  using assms release_print_read [of r]
  by (auto simp: release_storable_def release_valid_def text_setting_def apply_flag_def release_default_def Let_def)

lemma apply_default_sid:
  assumes "s = null_sid \<or> sid_wf s" and "default_sid fl = null_sid"
  shows "foldE apply_flag fl (text_setting (CHR ''d'') (if sid_valid s then Some (sid_as_string s) else None)) = Inr (fl\<lparr>default_sid := s\<rparr>)"
proof (cases "s = null_sid")
  case True
  then show ?thesis using assms by (simp add: null_sid_def sid_valid_def text_setting_def)
next
  case False
  then have "sid_wf s" "sid_valid s" using assms by (auto simp: sid_wf_def sid_valid_def)
  then show ?thesis by (simp add: text_setting_def apply_flag_def sid_of_string_as_string)
qed

lemma apply_letters:
  assumes "length ls \<le> 1" and "flag_letters fl = []"
  shows "foldE apply_flag fl (text_setting (CHR ''y'') (if ls \<noteq> [] then Some ls else None)) = Inr (fl\<lparr>flag_letters := ls\<rparr>)"
  using assms by (cases ls) (auto simp: text_setting_def apply_flag_def need_arg_def set_expanded_keyword_flag_def letters_of_def)

lemma rel_print_a: "rel_print rs \<noteq> ''a''"
proof (cases rs)
  case (Cons r rs')
  have "hd (rel_print rs) = CHR ''-'' \<or> isdigit (hd (rel_print rs))"
    using Cons by (simp add: rel_print_Cons release_print_def show_int_def)
  then show ?thesis by auto
qed simp

lemma apply_locked:
  assumes "flags_storable fl0" and "locked fl = []" and "\<not> all_locked fl"
  shows "foldE apply_flag fl (text_setting (CHR ''l'') (locked_text fl0)) = Inr (fl\<lparr>locked := locked fl0, all_locked := all_locked fl0\<rparr>)"
  using assms release_list_print_read [of "locked fl0"] rel_print_a [of "locked fl0"]
  by (auto simp: flags_storable_def locked_text_def text_setting_def apply_flag_def)

lemma apply_flag_settings:
  assumes "flags_storable fl"
  shows "apply_flags flags_default (flag_settings fl) = Inr fl"
  using assms apply_locked [OF assms]
  by (simp add: apply_flags_def flag_settings_defs foldE_append apply_releases apply_default_sid apply_letters
      flags_default_def flags_storable_def)

section \<open>The lines of the flags\<close>

fun flag_line :: "char \<times> string option \<Rightarrow> string" where
  "flag_line (c, None) = (ctrl_A # ''f '') @ [c]"
| "flag_line (c, Some a) = (ctrl_A # ''f '') @ c # '' '' @ a"

lemma flag_pieces:
  "flag_set b c = unlines (map flag_line (bool_setting c b))"
  "flag_arg c s = unlines (map flag_line (text_setting c (Some s)))"
  "flag_opt c a = unlines (map flag_line (text_setting c a))"
  by (simp_all add: flag_set_def bool_setting_def flag_arg_def text_setting_def flag_opt_def split: option.split)

lemma text_setting_None [simp]: "text_setting c None = []"
  by (simp add: text_setting_def)

lemma print_one_letter: "length ls \<le> 1 \<Longrightarrow> print_letters sep True ls = ls"
  by (cases ls) auto

lemma write_flags_lines:
  assumes "flags_storable (sf_flags f)"
  shows "write_flags f = Inr (unlines (map flag_line (flag_settings (sf_flags f))))"
proof -
  have "sid_valid (default_sid (sf_flags f)) \<Longrightarrow>
      sid_print (default_sid (sf_flags f)) = Inr (sid_as_string (default_sid (sf_flags f)))"
    using assms by (auto simp: flags_storable_def sid_print_text null_sid_def sid_valid_def)
  then have d: "(if sid_valid (default_sid (sf_flags f))
      then bindE (sid_print (default_sid (sf_flags f))) (\<lambda>t. Inr (flag_arg (CHR ''d'') t)) else Inr []) =
    Inr (unlines (map flag_line (text_setting (CHR ''d'') (if sid_valid (default_sid (sf_flags f)) then Some (sid_as_string (default_sid (sf_flags f))) else None))))"
    by (simp add: flag_pieces)
  have y: "print_substituted_flags_list f '' '' = flag_letters (sf_flags f)"
    using assms by (simp add: print_substituted_flags_list_def flags_storable_def print_one_letter)
  show ?thesis
    unfolding write_flags_def Let_def d y flag_settings_defs locked_text_def
    by (simp add: flag_pieces)
qed

lemma flag_of_line_written:
  assumes "c \<noteq> NUL"
  shows "flag_of_line (flag_line (c, a)) = Inr (c, a)"
proof (cases a)
  case None
  then show ?thesis
    using assms by (simp add: flag_of_line_def check_arg_def numeral_eq_Suc)
next
  case (Some s)
  then show ?thesis
    using assms by (simp add: flag_of_line_def check_arg_def numeral_eq_Suc)
qed

lemma flags_loop_written:
  assumes "\<forall>x \<in> set ss. fst x \<noteq> NUL" and "line_type t \<noteq> CHR ''f''" and "L = map flag_line ss @ t # r"
  shows "flags_loop (hd L) (tl L) acc = Inr (t, r, acc @ ss)"
  using assms
proof (induction ss arbitrary: L acc)
  case Nil
  then show ?case by (simp add: flags_loop.simps)
next
  case (Cons x ss)
  define L' where "L' = map flag_line ss @ t # r"
  have L': "L' = hd L' # tl L'" by (simp add: L'_def)
  have ty: "line_type (flag_line x) = CHR ''f''" by (cases x; cases "snd x") (auto simp: line_type_def)
  have fl: "flag_of_line (flag_line x) = Inr x" using Cons.prems flag_of_line_written by (cases x) simp
  have "L = flag_line x # hd L' # tl L'" using Cons.prems(3) L' by (simp add: L'_def)
  then have "flags_loop (hd L) (tl L) acc = flags_loop (hd L') (tl L') (acc @ [x])"
    using ty fl by (simp add: flags_loop.simps [of "flag_line x"])
  then show ?case using Cons.IH [OF _ _ L'_def] Cons.prems by simp
qed

lemma setting_name:
  "x \<in> set (bool_setting c b) \<Longrightarrow> fst x = c" "x \<in> set (text_setting c a) \<Longrightarrow> fst x = c"
  by (auto simp: bool_setting_def text_setting_def split: if_splits option.splits)

lemma settings_before_name:
  assumes "x \<in> set (settings_before fl)"
  shows "fst x \<noteq> CHR ''e''"
  using assms unfolding settings_before_def set_append Un_iff
  by (elim disjE) (drule setting_name, simp)+

lemma flag_settings_names:
  assumes "x \<in> set (flag_settings fl)"
  shows "fst x \<noteq> NUL"
  using assms unfolding flag_settings_defs set_append Un_iff
  by (elim disjE) (drule setting_name, simp)+

end
