(* ===== verification/Sfile_Update.thy ===== *)
theory Sfile_Update
  imports Sfile_Roundtrip Flag_Lines
begin

text \<open>
  Whole s-files: what \<open>update\<close> and \<open>end_update\<close> leave behind is read back by the constructor of
  \<open>sccs_file\<close> as the object that was written, with a valid checksum.
\<close>

section \<open>The lines of a header\<close>

definition name_line :: "string \<Rightarrow> bool" where
  "name_line l \<longleftrightarrow> plain_line l \<and> char_at l 0 \<noteq> ctrl_A"

definition header_lines :: "delta list \<Rightarrow> string list \<Rightarrow> (char \<times> string option) list \<Rightarrow> string list \<Rightarrow> string list" where
  "header_lines ds us ss cs =
     concat (map delta_lines ds) @ (ctrl_A # ''u'') # us @ (ctrl_A # ''U'') # map flag_line ss
     @ (ctrl_A # ''t'') # cs @ [ctrl_A # ''T'']"

text \<open>An s-file object that the format can hold.\<close>

definition file_storable :: "sccs_file \<Rightarrow> bool" where
  "file_storable f \<longleftrightarrow>
     items (sf_table f) \<noteq> [] \<and> sf_table f = foldl (\<lambda>t d. table_add d t) table_empty (items (sf_table f))
     \<and> (\<forall>d \<in> set (items (sf_table f)). delta_storable d)
     \<and> (\<forall>l \<in> set (users f) \<union> set (sf_comments f). name_line l)
     \<and> flags_storable (sf_flags f) \<and> name_valid (sf_name f)"

definition file_header_lines :: "sccs_file \<Rightarrow> string list" where
  "file_header_lines f = header_lines (items (sf_table f)) (users f) (flag_settings (sf_flags f)) (sf_comments f)"

lemma foldE_put_delta:
  "\<forall>d \<in> set ds. delta_storable d \<Longrightarrow> foldE put_delta out ds = Inr (out @ unlines (concat (map delta_lines ds)))"
  by (induction ds arbitrary: out) (simp_all add: put_delta_def write_delta_lines)

lemma foldE_put_name_line:
  "\<forall>u \<in> set us. name_line u \<Longrightarrow> foldE put_name_line out us = Inr (out @ unlines us)"
  by (induction us arbitrary: out) (simp_all add: put_name_line_def name_line_def)

text \<open>The same for an object that may have no deltas yet, like one that is being created.\<close>

definition parts_storable :: "sccs_file \<Rightarrow> bool" where
  "parts_storable f \<longleftrightarrow>
     sf_table f = foldl (\<lambda>t d. table_add d t) table_empty (items (sf_table f))
     \<and> (\<forall>d \<in> set (items (sf_table f)). delta_storable d)
     \<and> (\<forall>l \<in> set (users f) \<union> set (sf_comments f). name_line l)
     \<and> flags_storable (sf_flags f) \<and> name_valid (sf_name f)"

lemma file_storable_parts: "file_storable f \<longleftrightarrow> items (sf_table f) \<noteq> [] \<and> parts_storable f"
  by (simp add: file_storable_def parts_storable_def)

lemma write_header_parts:
  assumes "parts_storable f"
  shows "write_header f = Inr (unlines (file_header_lines f))"
  using assms
  by (simp add: write_header_def parts_storable_def foldE_put_delta foldE_put_name_line write_flags_lines
      file_header_lines_def header_lines_def selected_def)

lemma write_header_lines: "file_storable f \<Longrightarrow> write_header f = Inr (unlines (file_header_lines f))"
  by (simp add: file_storable_parts write_header_parts)

section \<open>Reading the header\<close>

lemma line_type_name: "name_line l \<Longrightarrow> line_type l = NUL"
  by (simp add: name_line_def line_type_def)

lemma users_loop_written:
  assumes "\<forall>u \<in> set us. name_line u" and "L = us @ (ctrl_A # ''U'') # r"
  shows "users_loop (hd L) (tl L) acc = Inr (r, acc @ us)"
  using assms
proof (induction us arbitrary: L acc)
  case Nil
  then show ?case by (simp add: users_loop.simps)
next
  case (Cons u us)
  define L' where "L' = us @ (ctrl_A # ''U'') # r"
  have "L' = hd L' # tl L'" by (simp add: L'_def)
  then have "L = u # hd L' # tl L'" using Cons.prems(2) by (simp add: L'_def)
  then have "users_loop (hd L) (tl L) acc = users_loop (hd L') (tl L') (acc @ [u])"
    using Cons.prems(1) by (simp add: users_loop.simps [of u] line_type_name)
  then show ?case using Cons.IH [OF _ L'_def] Cons.prems by simp
qed

lemma comments_loop_written:
  assumes "\<forall>c \<in> set cs. name_line c" and "L = cs @ (ctrl_A # ''T'') # r"
  shows "comments_loop (hd L) (tl L) acc = Inr (ctrl_A # ''T'', r, acc @ cs)"
  using assms
proof (induction cs arbitrary: L acc)
  case Nil
  then show ?case by (simp add: comments_loop.simps)
next
  case (Cons c cs)
  define L' where "L' = cs @ (ctrl_A # ''T'') # r"
  have "L' = hd L' # tl L'" by (simp add: L'_def)
  then have "L = c # hd L' # tl L'" using Cons.prems(2) by (simp add: L'_def)
  then have "comments_loop (hd L) (tl L) acc = comments_loop (hd L') (tl L') (acc @ [c])"
    using Cons.prems(1) by (simp add: comments_loop.simps [of c] line_type_name)
  then show ?case using Cons.IH [OF _ L'_def] Cons.prems by simp
qed

lemma plain_line_simps [simp]:
  "plain_line []" "plain_line (c # s) \<longleftrightarrow> c \<noteq> newline \<and> c \<noteq> NUL \<and> plain_line s"
  "plain_line (s @ t) \<longleftrightarrow> plain_line s \<and> plain_line t"
  by (auto simp: plain_line_def)

lemma plain_show [simp]: "plain_line (show_nat n)" "plain_line (show_pad w n)"
  by (simp_all add: plain_line_def show_pad_chars)

lemma plain_words: "\<forall>w \<in> set ws. plain_line w \<Longrightarrow> plain_line (words_text ws)"
  by (induction ws rule: words_text.induct) simp_all

lemma seqs_line_plain: "l \<in> set (seqs_line c ns) \<Longrightarrow> c \<noteq> newline \<Longrightarrow> c \<noteq> NUL \<Longrightarrow> plain_line l"
  by (auto simp: seqs_line_def plain_words split: if_splits)

lemma delta_lines_plain:
  assumes "delta_storable d" and "l \<in> set (delta_lines d)"
  shows "plain_line l"
proof -
  have sf: "date_sfile (delta_date d)" and sw: "sid_wf (delta_id d)"
    and ty: "delta_type d = CHR ''D'' \<or> delta_type d = CHR ''R''"
    and u: "plain_word (user d)" and n: "\<forall>l \<in> set (mrs d) \<union> set (comments d). plain_line l"
    using assms(1) by (auto simp: delta_storable_def is_valid_delta_type_def)
  have "\<forall>w \<in> set (d_words d). plain_line w"
    using sid_text_chars [OF sw] date_words(5,6) [OF sf] u ty
    by (auto simp: d_words_def plain_word_def plain_line_def)
  then have "plain_line (d_line d)" by (simp add: d_line_def plain_words)
  moreover have "plain_line (s_line d)" by (simp add: s_line_def idu_text_def)
  moreover have "\<forall>l \<in> set (notes_lines d). plain_line l" using n by (auto simp: notes_lines_def)
  ultimately show ?thesis using assms(2) by (auto simp: delta_lines_def dest: seqs_line_plain)
qed


lemma setting_line_plain:
  "x \<in> set (bool_setting c b) \<Longrightarrow> plain_line [c] \<Longrightarrow> plain_line (flag_line x)"
  "x \<in> set (text_setting c a) \<Longrightarrow> plain_line [c] \<Longrightarrow> text_storable a \<Longrightarrow> plain_line (flag_line x)"
  by (auto simp: bool_setting_def text_setting_def text_storable_def split: if_splits option.splits)

lemma release_print_plain: "plain_line (release_print r)"
  by (simp add: release_print_def show_int_def)

lemma rel_print_plain: "plain_line (rel_print rs)"
  by (induction rs rule: rel_print.induct) (simp_all add: release_print_plain)

lemma flag_lines_plain:
  assumes "flags_storable fl" and "x \<in> set (flag_settings fl)"
  shows "plain_line (flag_line x)"
proof -
  have sid: "sid_valid (default_sid fl) \<Longrightarrow> plain_line (sid_as_string (default_sid fl))"
    using assms(1) sid_text_chars [of "default_sid fl"]
    by (auto simp: flags_storable_def plain_line_def null_sid_def sid_valid_def)
  have st: "text_storable (if release_valid (fl_ceiling fl) then Some (release_print (fl_ceiling fl)) else None)"
    "text_storable (if sid_valid (default_sid fl) then Some (sid_as_string (default_sid fl)) else None)"
    "text_storable (if release_valid (fl_floor fl) then Some (release_print (fl_floor fl)) else None)"
    "text_storable (locked_text fl)" "text_storable (Some (if fl_encoded fl then ''1'' else ''0''))"
    "text_storable (if flag_letters fl \<noteq> [] then Some (flag_letters fl) else None)"
    using assms(1) sid by (simp_all add: text_storable_def release_print_plain rel_print_plain locked_text_def flags_storable_def)
  have more: "text_storable (fl_module fl)" "text_storable (user_def fl)" "text_storable (fl_type fl)"
    "text_storable (mr_checker fl)" "text_storable (reserved fl)"
    using assms(1) by (simp_all add: flags_storable_def)
  show ?thesis
    using assms(2) st more unfolding flag_settings_defs set_append Un_iff
    by (elim disjE) (erule setting_line_plain; simp)+
qed

lemma header_lines_plain:
  assumes "\<forall>d \<in> set ds. delta_storable d" and "\<forall>l \<in> set us \<union> set cs. name_line l"
    and "\<forall>x \<in> set ss. plain_line (flag_line x)" and "l \<in> set (header_lines ds us ss cs)"
  shows "plain_line l"
  using assms delta_lines_plain by (auto simp: header_lines_def name_line_def)

text \<open>The parser on a written header, whatever the checksum line says.\<close>

lemma parse_header_lines:
  assumes "ds \<noteq> []" and "\<forall>d \<in> set ds. delta_storable d" and "\<forall>l \<in> set us \<union> set cs. name_line l"
    and "\<forall>x \<in> set ss. plain_line (flag_line x) \<and> fst x \<noteq> NUL" and "\<forall>l \<in> set body. plain_line l"
    and "plain_line sm"
    and "parse_checksum silent (checksum (unlines (header_lines ds us ss cs @ body))) ((ctrl_A # ''h'') @ sm) = Inr (stored, valid)"
  shows "parse_header READ silent xbits (unlines (((ctrl_A # ''h'') @ sm) # header_lines ds us ss cs @ body)) =
     Inr \<lparr>computed_sum = checksum (unlines (header_lines ds us ss cs @ body)), stored_sum = stored,
          or_checksum_valid = valid, is_bk = False, is_executable = xbits,
          or_table = Some (foldl (\<lambda>t d. table_add d t) table_empty ds), or_users = us, or_flags = ss,
          or_comments = cs, or_body = body\<rparr>"
proof -
  define H where "H = header_lines ds us ss cs @ body"
  define T where "T = cs @ (ctrl_A # ''T'') # body"
  define F where "F = map flag_line ss @ (ctrl_A # ''t'') # T"
  define U where "U = us @ (ctrl_A # ''U'') # F"
  have H: "H = concat (map delta_lines ds) @ (ctrl_A # ''u'') # U"
    by (simp add: H_def header_lines_def U_def F_def T_def)
  have ne: "H = hd H # tl H" "U = hd U # tl U" "F = hd F # tl F" "T = hd T # tl T"
    by (simp_all add: H U_def F_def T_def)
  have plain: "\<forall>l \<in> set (((ctrl_A # ''h'') @ sm) # H). plain_line l"
    using header_lines_plain [OF assms(2,3)] assms(4,5,6) by (auto simp: H_def)
  have all: "read_all CHUNK (unlines (((ctrl_A # ''h'') @ sm) # H)) = ((ctrl_A # ''h'') @ sm) # H"
    by (rule read_all_unlines [OF plain]) (simp add: CHUNK_def)
  have mg: "parse_magic READ (unlines (((ctrl_A # ''h'') @ sm) # H)) = Inr (False, unlines H)"
    using assms(6) by (simp add: parse_magic_def plain_line_def numeral_2_eq_2)
  have rd: "read_deltas (hd H) (tl H) None = Inr (ctrl_A # ''u'', U, Some (foldl (\<lambda>t d. table_add d t) table_empty ds))"
    by (rule read_deltas_first [OF assms(1,2) _ H]) simp
  have us: "users_loop (hd U) (tl U) [] = Inr (F, us)"
    using users_loop_written [of us U F "[]"] assms(3) by (simp add: U_def)
  have fs: "flags_loop (hd F) (tl F) [] = Inr (ctrl_A # ''t'', T, ss)"
    using flags_loop_written [of ss "ctrl_A # ''t''" F T "[]"] assms(4) by (simp add: F_def)
  have cm: "comments_loop (hd T) (tl T) [] = Inr (ctrl_A # ''T'', body, cs)"
    using comments_loop_written [of cs T body "[]"] assms(3) by (simp add: T_def)
  have nx: "next_line H = Inr (hd H, tl H)" "next_line U = Inr (hd U, tl U)" "next_line F = Inr (hd F, tl F)"
    "next_line T = Inr (hd T, tl T)" "next_line (((ctrl_A # ''h'') @ sm) # H) = Inr ((ctrl_A # ''h'') @ sm, H)"
    using ne by (simp_all add: next_line_Inr)
  have noarg: "check_noarg (ctrl_A # ''u'') = Inr ()" by (simp add: check_noarg_def numeral_2_eq_2)
  show ?thesis
    unfolding H_def [symmetric] parse_header_def mg all
    using assms(7) rd us fs cm nx noarg
    by (simp add: H_def [symmetric])
qed

section \<open>Checksums\<close>

lemma checksum_range: "0 \<le> checksum s" "checksum s < 65536"
  by (simp_all add: checksum_def)

lemma checksum_succ:
  assumes "char_int d = char_int c + 1"
  shows "checksum (a @ d # b) = (checksum (a @ c # b) + 1) mod 65536"
proof -
  have "sum_list (map char_int (a @ d # b)) = sum_list (map char_int (a @ c # b)) + 1"
    using assms by simp
  then show ?thesis unfolding checksum_def by (metis mod_add_left_eq)
qed

lemma length_show_pad: "n < 100000 \<Longrightarrow> length (show_pad 5 n) = 5"
  using length_show_nat [of n 4] by (simp add: show_pad_def)

lemma strtol_digits:
  assumes "list_all isdigit s" and "s \<noteq> []" and "int (dec_val 0 s) \<le> long_max"
  shows "strtol s = (int (dec_val 0 s), False, [])"
proof -
  obtain c t where s: "s = c # t" using assms(2) by (cases s) auto
  then have c: "\<not> isspace c" "c \<noteq> CHR ''+''" "c \<noteq> CHR ''-''" using assms(1) isdigit_not_isspace [of c] by auto
  then have "dropWhile isspace s = s" "hd s \<noteq> CHR ''+''" "hd s \<noteq> CHR ''-''" using s by simp_all
  then show ?thesis using assms(2,3) unfolding strtol_def Let_def
    by (simp add: takeWhile_all [OF assms(1)] long_min_def)
qed

lemma parse_checksum_pad:
  assumes "0 \<le> n" and "n < 65536"
  shows "parse_checksum silent c ((ctrl_A # ''h'') @ show_pad 5 (nat n)) = Inr (n, n = c)"
  using assms strtol_digits [OF show_pad_digits show_pad_Nil, of 5 "nat n"]
  by (simp add: parse_checksum_def numeral_2_eq_2 long_max_def long_min_def)

lemma parse_checksum_dummy: "parse_checksum True c (ctrl_A # ''h-----'') = Inr (0, 0 = c)"
  by (simp add: parse_checksum_def numeral_2_eq_2 strtol_def isspace_def long_max_def long_min_def)

section \<open>The encoded flag\<close>

lemma newline_mark [simp]: "newline \<notin> set encoded_mark" and length_mark [simp]: "length encoded_mark = 5"
  by (simp_all add: encoded_mark_def)

lemma matched_line: "newline \<notin> set ms \<Longrightarrow> matched ms (l @ newline # r) \<le> length l"
proof (induction ms arbitrary: l)
  case (Cons m ms)
  then show ?case by (cases l) auto
qed simp

lemma matched_line_less:
  "newline \<notin> set ms \<Longrightarrow> take (length ms) l \<noteq> ms \<Longrightarrow> matched ms (l @ newline # r) < length ms"
proof (induction ms arbitrary: l)
  case (Cons m ms)
  then show ?case by (cases l) auto
qed simp

lemma matched_self: "matched ms (ms @ r) = length ms"
  by (induction ms) simp_all

lemma find_mark_rest:
  assumes "newline \<notin> set l" and "c \<noteq> newline"
  shows "find_mark c pre (l @ newline # r) = find_mark newline (pre @ l @ [newline]) r"
  using assms
proof (induction l arbitrary: c pre)
  case Nil
  then show ?case by (subst find_mark.simps) simp
next
  case (Cons x l)
  then have "find_mark x (pre @ [x]) (l @ newline # r) = find_mark newline ((pre @ [x]) @ l @ [newline]) r"
    by (intro Cons.IH) auto
  then show ?case using Cons.prems by (subst find_mark.simps) simp
qed

lemma find_mark_line:
  assumes "newline \<notin> set l" and "take 5 l \<noteq> encoded_mark"
  shows "find_mark newline pre (l @ newline # r) = find_mark newline (pre @ l @ [newline]) r"
proof -
  define k where "k = matched encoded_mark (l @ newline # r)"
  have k: "k \<le> length l" "k < length encoded_mark"
    using matched_line [OF newline_mark] matched_line_less [OF newline_mark, of l] assms(2)
    by (simp_all add: k_def)
  have "find_mark newline pre (l @ newline # r) =
      find_mark ((l @ newline # r) ! k) (pre @ take (Suc k) (l @ newline # r)) (drop (Suc k) (l @ newline # r))"
    using k by (subst find_mark.simps) (simp add: k_def [symmetric] Let_def)
  also have "\<dots> = find_mark newline (pre @ l @ [newline]) r"
  proof (cases "k < length l")
    case True
    have "l ! k \<noteq> newline" using assms(1) True by (metis nth_mem)
    moreover have "newline \<notin> set (drop (Suc k) l)" using assms(1) by (auto dest: in_set_dropD)
    ultimately show ?thesis using True find_mark_rest [of "drop (Suc k) l" "l ! k"]
      by (simp add: nth_append) (simp flip: append_assoc)
  next
    case False
    then show ?thesis using k(1) by (simp add: nth_append)
  qed
  finally show ?thesis .
qed

lemma find_mark_lines:
  assumes "\<forall>l \<in> set ls. newline \<notin> set l \<and> take 5 l \<noteq> encoded_mark"
  shows "find_mark newline pre (unlines ls @ encoded_mark @ r) = Some (pre @ unlines ls @ encoded_mark, r)"
  using assms
proof (induction ls arbitrary: pre)
  case Nil
  then show ?case by (subst find_mark.simps) (simp add: matched_self Let_def, simp add: encoded_mark_def)
next
  case (Cons l ls)
  then show ?case by (simp add: find_mark_line)
qed

lemma no_mark_delta: "l \<in> set (delta_lines d) \<Longrightarrow> take 5 l \<noteq> encoded_mark"
  by (auto simp: delta_lines_def s_line_def d_line_def seqs_line_def notes_lines_def encoded_mark_def
      numeral_eq_Suc split: if_splits)

lemma no_mark_name: "name_line l \<Longrightarrow> take 5 l \<noteq> encoded_mark"
  by (cases l) (auto simp: name_line_def encoded_mark_def)

lemma no_mark_flag: "fst x \<noteq> CHR ''e'' \<Longrightarrow> take 5 (flag_line x) \<noteq> encoded_mark"
  by (cases x; cases "snd x") (auto simp: encoded_mark_def numeral_eq_Suc)

section \<open>Ending an update\<close>

definition encoded_setting :: "char \<Rightarrow> char \<times> string option" where
  "encoded_setting x = (CHR ''e'', Some [x])"

lemma flag_line_encoded: "flag_line (encoded_setting x) = encoded_mark @ [x]"
  by (simp add: encoded_setting_def encoded_mark_def)

definition before_mark :: "delta list \<Rightarrow> string list \<Rightarrow> (char \<times> string option) list \<Rightarrow> string list" where
  "before_mark ds us A = concat (map delta_lines ds) @ (ctrl_A # ''u'') # us @ (ctrl_A # ''U'') # map flag_line A"

definition after_mark :: "(char \<times> string option) list \<Rightarrow> string list \<Rightarrow> string list" where
  "after_mark B cs = map flag_line B @ (ctrl_A # ''t'') # cs @ [ctrl_A # ''T'']"

lemma header_lines_mark:
  "unlines (header_lines ds us (A @ encoded_setting x # B) cs) =
     unlines (before_mark ds us A) @ encoded_mark @ x # newline # unlines (after_mark B cs)"
  by (simp add: header_lines_def before_mark_def after_mark_def flag_line_encoded)

text \<open>
  The x-file as it is when \<open>end_update\<close> is called, with the encoded flag written as \<open>x\<close>: the
  checksum line is filled in, and the flag becomes 1 when the object says that the body is
  encoded.
\<close>

lemma end_update_lines:
  assumes "ds \<noteq> []" and "\<forall>d \<in> set ds. delta_storable d" and "\<forall>l \<in> set us \<union> set cs. name_line l"
    and "\<forall>y \<in> set (A @ encoded_setting x # B). plain_line (flag_line y) \<and> fst y \<noteq> NUL"
    and "\<forall>l \<in> set body. plain_line l"
    and "\<forall>a \<in> set A. fst a \<noteq> CHR ''e''" and "x = CHR ''0'' \<or> x = CHR ''1''"
    and "x' = (if fl_encoded (sf_flags f) then CHR ''1'' else x)"
    and "H' = header_lines ds us (A @ encoded_setting x' # B) cs @ body"
  shows "end_update f (dummy_line @ unlines (header_lines ds us (A @ encoded_setting x # B) cs @ body)) =
     Inr (unlines (((ctrl_A # ''h'') @ show_pad 5 (nat (checksum (unlines H')))) # H'))"
proof -
  define H where "H = header_lines ds us (A @ encoded_setting x # B) cs @ body"
  have dum: "dummy_line @ unlines H = unlines (((ctrl_A # ''h'') @ ''-----'') # H)" by (simp add: dummy_line_def)
  obtain opened where opened: "parse_header READ True (sfile_executable f) (dummy_line @ unlines H) = Inr opened"
    "computed_sum opened = checksum (unlines H)"
    using parse_header_lines [OF assms(1-5), of "''-----''" True 0 "0 = checksum (unlines H)" "sfile_executable f"]
      parse_checksum_dummy
    unfolding dum by (simp add: H_def [symmetric])
  have pre: "\<forall>l \<in> set ((ctrl_A # ''h-----'') # before_mark ds us A). newline \<notin> set l \<and> take 5 l \<noteq> encoded_mark"
    using assms(2,3,4,6) no_mark_delta no_mark_name no_mark_flag delta_lines_plain
    by (auto simp: before_mark_def plain_line_def name_line_def encoded_mark_def)
  define a where "a = dummy_line @ unlines (before_mark ds us A) @ encoded_mark"
  define b where "b = newline # unlines (after_mark B cs @ body)"
  have fw: "dummy_line @ unlines H = a @ x # b" by (simp add: H_def header_lines_mark a_def b_def)
  have fw': "dummy_line @ unlines H' = a @ x' # b" by (simp add: assms(9) header_lines_mark a_def b_def)
  have mark: "find_mark newline [] (a @ x # b) = Some (a, x # b)"
    using find_mark_lines [OF pre, of "[]" "x # b"] by (simp add: a_def dummy_line_def)
  have sums: "fl_encoded (sf_flags f) \<Longrightarrow> x = CHR ''0'' \<Longrightarrow> checksum (unlines H') = (checksum (unlines H) + 1) mod 65536"
    using checksum_succ [of "CHR ''1''" "CHR ''0''" "unlines (before_mark ds us A) @ encoded_mark" b] assms(8)
    by (simp add: assms(9) H_def header_lines_mark char_int_def b_def)
  have hacked: "(if fl_encoded (sf_flags f) then rehack_encoded_flag (a @ x # b) (computed_sum opened)
       else Inr (a @ x # b, computed_sum opened)) = Inr (a @ x' # b, checksum (unlines H'))"
    using assms(7,8,9) sums mark opened(2) by (auto simp: rehack_encoded_flag_def write_at_def H_def)
  have len: "length (show_pad 5 (nat (checksum (unlines H')))) = 5"
    using checksum_range [of "unlines H'"] by (intro length_show_pad) simp
  have "write_at 0 (dummy_line @ unlines H') ((ctrl_A # ''h'') @ show_pad 5 (nat (checksum (unlines H')))) =
     unlines (((ctrl_A # ''h'') @ show_pad 5 (nat (checksum (unlines H')))) # H')"
    by (simp add: write_at_def len dummy_line_def)
  then show ?thesis
    unfolding end_update_def H_def [symmetric] fw using opened hacked
    by (simp add: fw fw' split del: if_split)
qed

section \<open>Reading the result\<close>

lemma flag_settings_split:
  "flag_settings fl = settings_before fl @ encoded_setting (if fl_encoded fl then CHR ''1'' else CHR ''0'') # settings_after fl"
  by (simp add: flag_settings_def encoded_setting_def text_setting_def)

lemma settings_encoded [simp]:
  "settings_before (fl\<lparr>fl_encoded := b\<rparr>) = settings_before fl" "settings_after (fl\<lparr>fl_encoded := b\<rparr>) = settings_after fl"
  by (simp_all add: settings_before_def settings_after_def locked_text_def)

lemma flags_storable_encoded [simp]: "flags_storable (fl\<lparr>fl_encoded := b\<rparr>) = flags_storable fl"
  by (simp add: flags_storable_def)

text \<open>What the constructor makes of a file written by \<open>end_update\<close>.\<close>

lemma ctor_reads:
  assumes "file_storable f" and "\<forall>l \<in> set (sf_body f). plain_line l" and "m = READ \<or> m = UPDATE"
    and "H = file_header_lines f @ sf_body f"
  shows "sccs_file_ctor (sf_name f) m silent True (sfile_executable f)
      (unlines (((ctrl_A # ''h'') @ show_pad 5 (nat (checksum (unlines H)))) # H)) =
     Inr (f\<lparr>sf_mode := m, checksum_valid := True, xfile_created := False, edit_mode_ok := True\<rparr>)"
proof -
  have st: "items (sf_table f) \<noteq> []" "\<forall>d \<in> set (items (sf_table f)). delta_storable d"
    "\<forall>l \<in> set (users f) \<union> set (sf_comments f). name_line l" and fl: "flags_storable (sf_flags f)"
    and nm: "name_valid (sf_name f)" and tab: "sf_table f = foldl (\<lambda>t d. table_add d t) table_empty (items (sf_table f))"
    using assms(1) unfolding file_storable_def by auto
  have ss: "\<forall>x \<in> set (flag_settings (sf_flags f)). plain_line (flag_line x) \<and> fst x \<noteq> NUL"
    using flag_lines_plain [OF fl] flag_settings_names by blast
  have H: "H = header_lines (items (sf_table f)) (users f) (flag_settings (sf_flags f)) (sf_comments f) @ sf_body f"
    by (simp add: assms(4) file_header_lines_def)
  note ph = parse_header_lines [OF st ss assms(2), of "show_pad 5 (nat (checksum (unlines H)))" "silent \<or> m = FIX_CHECKSUM",
      folded H, OF plain_show(2) parse_checksum_pad [OF checksum_range], of "sfile_executable f"]
  show ?thesis
    using assms(3) nm tab [symmetric] apply_flag_settings [OF fl]
    unfolding sccs_file_ctor_def ph by (auto simp: file_start_def Let_def)
qed

text \<open>\<open>end_update\<close> on the written header of one object and a body, for an object with its encoded flag.\<close>

lemma end_update_reads:
  assumes "file_storable f" and "\<forall>l \<in> set body. plain_line l" and "m = READ \<or> m = UPDATE"
    and "fl_encoded (sf_flags f) \<longrightarrow> b"
    and "f' = f\<lparr>sf_flags := (sf_flags f)\<lparr>fl_encoded := b\<rparr>, sf_body := body\<rparr>"
    and "fl_encoded (sf_flags g) = b"
  shows "\<exists>new. end_update g (dummy_line @ unlines (file_header_lines f) @ unlines body) = Inr new
     \<and> sccs_file_ctor (sf_name f) m silent True (sfile_executable f) new =
         Inr (f'\<lparr>sf_mode := m, checksum_valid := True, xfile_created := False, edit_mode_ok := True\<rparr>)"
proof -
  have st: "items (sf_table f) \<noteq> []" "\<forall>d \<in> set (items (sf_table f)). delta_storable d"
    "\<forall>l \<in> set (users f) \<union> set (sf_comments f). name_line l" and fl: "flags_storable (sf_flags f)"
    using assms(1) unfolding file_storable_def by auto
  have ss: "\<forall>x \<in> set (flag_settings (sf_flags f)). plain_line (flag_line x) \<and> fst x \<noteq> NUL"
    using flag_lines_plain [OF fl] flag_settings_names by blast
  have storable: "file_storable f'" using assms(1) unfolding assms(5) file_storable_def by simp
  define H' where "H' = file_header_lines f' @ sf_body f'"
  have H': "H' = header_lines (items (sf_table f)) (users f)
      (settings_before (sf_flags f) @ encoded_setting (if b then CHR ''1'' else CHR ''0'') # settings_after (sf_flags f)) (sf_comments f) @ body"
    unfolding H'_def assms(5) file_header_lines_def by (simp add: flag_settings_split)
  have "end_update g (dummy_line @ unlines (file_header_lines f @ body)) =
     Inr (unlines (((ctrl_A # ''h'') @ show_pad 5 (nat (checksum (unlines H')))) # H'))"
    unfolding file_header_lines_def flag_settings_split
    by (rule end_update_lines [OF st ss [unfolded flag_settings_split] assms(2) _ _ _ H'])
      (use settings_before_name assms(4,6) in auto)
  moreover have "sccs_file_ctor (sf_name f) m silent True (sfile_executable f)
      (unlines (((ctrl_A # ''h'') @ show_pad 5 (nat (checksum (unlines H')))) # H')) =
     Inr (f'\<lparr>sf_mode := m, checksum_valid := True, xfile_created := False, edit_mode_ok := True\<rparr>)"
    using ctor_reads [OF storable _ assms(3) H'_def, of silent] assms(2,5) by simp
  ultimately show ?thesis by simp
qed

section \<open>Adding a delta\<close>

definition capped :: "delta \<Rightarrow> delta" where
  "capped d = set_idu (cap5 (inserted d)) (cap5 (deleted d)) (cap5 (unchanged d)) d"

lemma idu_text_capped: "idu_text (capped d) = idu_text d" and length_idu_text: "length (idu_text d) = 17"
proof -
  have "cap5 (cap5 n) = cap5 n" "cap5 n < 100000" for n by (simp_all add: cap5_def)
  then show "idu_text (capped d) = idu_text d" "length (idu_text d) = 17"
    by (simp_all add: capped_def set_idu_def idu_text_def length_show_pad)
qed

lemma delta_lines_idu: "tl (delta_lines (set_idu i j k d)) = tl (delta_lines d)"
  by (simp add: delta_lines_def d_line_def d_words_def notes_lines_def set_idu_def)

lemma capped_storable: "delta_storable d \<Longrightarrow> delta_storable (capped (set_idu i j k d))"
  by (simp add: delta_storable_def capped_def set_idu_def cap5_def)

lemma write_over_counts:
  assumes "d' = set_idu i j k d"
  shows "write_at 0 (dummy_line @ unlines (delta_lines d) @ r) (dummy_line @ (ctrl_A # ''s '') @ idu_text d') =
     dummy_line @ unlines (delta_lines (capped d')) @ r"
proof -
  have "delta_lines (capped d') = s_line (capped d') # tl (delta_lines d)"
    using delta_lines_idu assms unfolding capped_def by (metis delta_lines_def list.sel(3))
  moreover have "delta_lines d = s_line d # tl (delta_lines d)" by (simp add: delta_lines_def)
  ultimately have "unlines (delta_lines (capped d')) = (ctrl_A # ''s '') @ idu_text d' @ newline # unlines (tl (delta_lines d))"
    "unlines (delta_lines d) = (ctrl_A # ''s '') @ idu_text d @ newline # unlines (tl (delta_lines d))"
    by (metis unlines_simps(2) s_line_def idu_text_capped append_assoc)+
  then show ?thesis by (simp add: write_at_def length_idu_text)
qed

section \<open>A small s-file\<close>

text \<open>An s-file with one delta and a body of one line, at which the properties are applied.\<close>

definition sample_delta :: delta where
  "sample_delta = delta_default\<lparr>delta_id := mk_sid 1 1 0 0, delta_date := date_ctor6 2000 2 29 23 59 58, user := ''joe'',
     seq := 1, mrs := [''mr1''], comments := [''first version''], inserted := 1\<rparr>"

definition sample_file :: sccs_file where
  "sample_file = (file_start (new_name\<lparr>sname := ''s.x''\<rparr>) UPDATE)\<lparr>sf_table := table_add sample_delta table_empty,
     sf_flags := flags_default\<lparr>fl_floor := Release 1, locked := [Release 3, Release 4], fl_module := Some ''m''\<rparr>,
     users := [''joe'', ''!eve''], sf_comments := [''a file''],
     sf_body := [ctrl_A # ''I 1'', ''hello'', ctrl_A # ''E 1'']\<rparr>"

lemma sample_date: "date_sfile (date_ctor6 2000 2 29 23 59 58)"
  unfolding date_sfile_def by code_simp

lemma sample_delta_storable: "delta_storable sample_delta"
  using sample_date
  by (simp add: delta_storable_def sample_delta_def delta_default_def is_valid_delta_type_def sid_wf_def plain_word_def)

lemma sample_file_storable: "file_storable sample_file"
proof -
  have "flags_storable (sf_flags sample_file)"
    by (simp add: sample_file_def file_start_def flags_storable_def flags_default_def release_storable_def text_storable_def)
  then show ?thesis
    using sample_delta_storable
    by (simp add: file_storable_def sample_file_def file_start_def name_line_def name_valid_def)
qed

lemma sample_body: "\<forall>l \<in> set (sf_body sample_file). plain_line l"
  by (simp add: sample_file_def)

section \<open>Properties\<close>

lemma sfile_update_reads:
  assumes "file_storable f" and "\<forall>l \<in> set (sf_body f). plain_line l"
    and "sf_mode f = UPDATE \<or> sf_mode f = FIX_CHECKSUM" and "m = READ \<or> m = UPDATE"
  shows "\<exists>new. sfile_update f = Inr new
     \<and> sccs_file_ctor (sf_name f) m silent True (sfile_executable f) new =
         Inr (f\<lparr>sf_mode := m, checksum_valid := True, xfile_created := False, edit_mode_ok := True\<rparr>)"
proof -
  have "f = f\<lparr>sf_flags := (sf_flags f)\<lparr>fl_encoded := fl_encoded (sf_flags f)\<rparr>, sf_body := sf_body f\<rparr>" by simp
  from end_update_reads [OF assms(1,2,4) _ this, of f silent] show ?thesis
    using assms(3) by (auto simp: sfile_update_def write_header_lines [OF assms(1)])
qed

text \<open>
  C29. \<open>update\<close> writes an s-file that the constructor reads back as the object that was written,
  deltas, users, flags, comments and body alike, with a checksum that it finds valid; an update
  of a storable object never fails.
\<close>

theorem sfile_update_read:
  assumes "file_storable f" and "\<forall>l \<in> set (sf_body f). plain_line l"
    and "sf_mode f = UPDATE \<or> sf_mode f = FIX_CHECKSUM" and "m = READ \<or> m = UPDATE"
  shows "\<exists>new. sfile_update f = Inr new
     \<and> sccs_file_ctor (sf_name f) m silent True (sfile_executable f) new =
         Inr (f\<lparr>sf_mode := m, checksum_valid := True, xfile_created := False, edit_mode_ok := True\<rparr>)"
  using assms by (rule sfile_update_reads)

theorem sfile_update_read_witness:
  "\<exists>new. sfile_update sample_file = Inr new
     \<and> sccs_file_ctor (sf_name sample_file) READ False True (sfile_executable sample_file) new =
         Inr (sample_file\<lparr>sf_mode := READ, checksum_valid := True, xfile_created := False, edit_mode_ok := True\<rparr>)"
  by (rule sfile_update_read [OF sample_file_storable sample_body]) (simp_all add: sample_file_def file_start_def)

text \<open>
  C31. When the body turns out to be binary only after the header was written, \<open>end_update\<close>
  corrects the encoded flag in the file and the checksum with it: the constructor reads the new
  file with the flag set and the checksum valid.
\<close>

theorem encoded_flag_corrected:
  assumes "file_storable f" and "\<not> fl_encoded (sf_flags f)" and "\<forall>l \<in> set body. plain_line l"
    and "f' = f\<lparr>sf_flags := (sf_flags f)\<lparr>fl_encoded := True\<rparr>, sf_body := body\<rparr>"
  shows "\<exists>header new. write_header f = Inr header
     \<and> end_update f' (dummy_line @ header @ unlines body) = Inr new
     \<and> sccs_file_ctor (sf_name f) READ silent True (sfile_executable f) new =
         Inr (f'\<lparr>sf_mode := READ, checksum_valid := True, xfile_created := False, edit_mode_ok := True\<rparr>)"
  using end_update_reads [OF assms(1,3) _ _ assms(4), of READ f' silent] write_header_lines [OF assms(1)] assms(4)
  by simp

theorem encoded_flag_corrected_witness:
  "\<exists>header new. write_header sample_file = Inr header
     \<and> end_update (sample_file\<lparr>sf_flags := (sf_flags sample_file)\<lparr>fl_encoded := True\<rparr>, sf_body := [''x'']\<rparr>)
         (dummy_line @ header @ unlines [''x'']) = Inr new"
  using encoded_flag_corrected [OF sample_file_storable _ _ refl, of "[''x'']" False]
  by (auto simp: sample_file_def file_start_def flags_default_def)

text \<open>
  The header is written with the encoded flag of \<open>f\<close>; when the update is ended the flag of the
  object may have become \<open>b\<close>.
\<close>

lemma delta_update_flag_reads:
  assumes "parts_storable f" and "\<forall>l \<in> set body. plain_line l" and "sf_mode f \<noteq> READ"
    and "delta_storable d" and "d' = set_idu i j k d" and "fl_encoded (sf_flags f) \<longrightarrow> b"
    and h: "h = f\<lparr>sf_flags := (sf_flags f)\<lparr>fl_encoded := b\<rparr>\<rparr>"
  shows "\<exists>out new. start_update_delta f d = Inr out
     \<and> end_update_delta h (out @ unlines body) d' = Inr (new, h\<lparr>sf_table := table_prepend d' (sf_table f)\<rparr>)
     \<and> sccs_file_ctor (sf_name f) READ silent True (sfile_executable f) new =
         Inr (h\<lparr>sf_mode := READ, checksum_valid := True, xfile_created := False, edit_mode_ok := True,
                sf_table := table_prepend (capped d') (sf_table f), sf_body := body\<rparr>)"
proof -
  define g where "g = f\<lparr>sf_table := table_prepend (capped d') (sf_table f)\<rparr>"
  have g: "file_storable g"
    using assms(1,4,5) unfolding file_storable_def parts_storable_def g_def
    by (simp add: table_prepend_wf capped_storable) (simp add: table_prepend_def table_append_def)
  have header: "file_header_lines g = delta_lines (capped d') @ file_header_lines f"
    by (simp add: g_def file_header_lines_def header_lines_def table_prepend_wf)
  have out: "start_update_delta f d = Inr (dummy_line @ unlines (delta_lines d) @ unlines (file_header_lines f))"
    using assms(3) by (simp add: start_update_delta_def write_delta_lines [OF assms(4)] write_header_parts [OF assms(1)])
  obtain new where new: "end_update h (dummy_line @ unlines (file_header_lines g) @ unlines body) = Inr new"
    "sccs_file_ctor (sf_name f) READ silent True (sfile_executable f) new =
       Inr (g\<lparr>sf_flags := (sf_flags g)\<lparr>fl_encoded := b\<rparr>, sf_body := body,
              sf_mode := READ, checksum_valid := True, xfile_created := False, edit_mode_ok := True\<rparr>)"
    using end_update_reads [OF g assms(2) _ _ refl, of READ b h silent] assms(6) by (auto simp: g_def h)
  then show ?thesis
    using write_over_counts [OF assms(5), of "unlines (file_header_lines f) @ unlines body"]
    by (simp add: out end_update_delta_def header) (simp add: g_def h)
qed

lemma delta_update_reads:
  assumes "file_storable f" and "\<forall>l \<in> set body. plain_line l" and "sf_mode f = UPDATE"
    and "delta_storable d" and "d' = set_idu i j k d"
  shows "\<exists>out new. start_update_delta f d = Inr out
     \<and> end_update_delta f (out @ unlines body) d' = Inr (new, f\<lparr>sf_table := table_prepend d' (sf_table f)\<rparr>)
     \<and> sccs_file_ctor (sf_name f) READ silent True (sfile_executable f) new =
         Inr (f\<lparr>sf_mode := READ, checksum_valid := True, xfile_created := False, edit_mode_ok := True,
                sf_table := table_prepend (capped d') (sf_table f), sf_body := body\<rparr>)"
proof -
  have "f = f\<lparr>sf_flags := (sf_flags f)\<lparr>fl_encoded := fl_encoded (sf_flags f)\<rparr>\<rparr>" by simp
  moreover have "parts_storable f" "sf_mode f \<noteq> READ" using assms(1,3) by (simp_all add: file_storable_parts)
  ultimately show ?thesis using delta_update_flag_reads [OF _ assms(2) _ assms(4,5)] by blast
qed

text \<open>
  C30. The update that adds a delta writes its line counts last, over a placeholder of the same
  width; the file is read back with the new delta in front of the old ones, with line counts of
  more than five digits replaced by 99999.
\<close>

theorem delta_update_read:
  assumes "file_storable f" and "\<forall>l \<in> set body. plain_line l" and "sf_mode f = UPDATE"
    and "delta_storable d" and "d' = set_idu i j k d"
  shows "\<exists>out new. start_update_delta f d = Inr out
     \<and> end_update_delta f (out @ unlines body) d' = Inr (new, f\<lparr>sf_table := table_prepend d' (sf_table f)\<rparr>)
     \<and> sccs_file_ctor (sf_name f) READ silent True (sfile_executable f) new =
         Inr (f\<lparr>sf_mode := READ, checksum_valid := True, xfile_created := False, edit_mode_ok := True,
                sf_table := table_prepend (capped d') (sf_table f), sf_body := body\<rparr>)"
  using assms by (rule delta_update_reads)

theorem delta_update_read_witness:
  "\<exists>out new. start_update_delta sample_file (sample_delta\<lparr>seq := 2\<rparr>) = Inr out
     \<and> sccs_file_ctor (sf_name sample_file) READ False True (sfile_executable sample_file) new =
         Inr (sample_file\<lparr>sf_mode := READ, checksum_valid := True, xfile_created := False, edit_mode_ok := True,
                sf_table := table_prepend (capped (set_idu 3 0 100000 (sample_delta\<lparr>seq := 2\<rparr>))) (sf_table sample_file),
                sf_body := [''x'']\<rparr>)"
proof -
  have "delta_storable (sample_delta\<lparr>seq := 2\<rparr>)" using sample_delta_storable by (simp add: delta_storable_def)
  moreover have "sf_mode sample_file = UPDATE" by (simp add: sample_file_def file_start_def)
  ultimately show ?thesis
    using delta_update_read [OF sample_file_storable, of "[''x'']" "sample_delta\<lparr>seq := 2\<rparr>" _ 3 0 100000 False] by auto
qed

end
