(* ===== verification/Sfile_Ops.thy ===== *)
theory Sfile_Ops
  imports Sfile_Update
begin

text \<open>
  Changing the commentary of a delta (sf-cdc.cc) and removing a delta (sf-rmdel.cc).

  A delta that is changed through a pointer into the delta table is changed in the list of the
  table; the index by sequence number and the highest numbers are not touched. The clock and
  the user's name are parameters of \<open>cdc\<close>. \<open>rmdel\<close> returns the new contents of the s-file and the
  object.
\<close>

section \<open>cdc\<close>

text \<open>The loop of \<open>process_mrs\<close>, with the current MRs, the comments and the flag.\<close>

fun process_mrs :: "string list \<Rightarrow> string set \<Rightarrow> string list \<Rightarrow> string list \<Rightarrow> bool \<Rightarrow> string list \<times> string list \<times> bool" where
  "process_mrs [] to_delete current cs del = (current, cs, del)"
| "process_mrs (mr # old_mrs) to_delete current cs del =
     (if mr \<in> to_delete then
        process_mrs old_mrs to_delete current
          ((if \<not> del then cs @ [''*** LIST OF DELETED MRS ***''] else cs) @ [mr]) True
      else process_mrs old_mrs to_delete (current @ [mr]) cs del)"

definition yes_mrs :: "string list \<Rightarrow> string list" where
  "yes_mrs mr_updates = filter (\<lambda>m. char_at m 0 \<noteq> CHR ''!'') mr_updates"

definition not_mrs :: "string list \<Rightarrow> string set" where
  "not_mrs mr_updates = set (map (drop 1) (filter (\<lambda>m. char_at m 0 = CHR ''!'') mr_updates))"

definition cdc :: "sccs_date \<Rightarrow> string \<Rightarrow> delta \<Rightarrow> string list \<Rightarrow> string list \<Rightarrow> delta" where
  "cdc now usr d mr_updates comment_updates =
     (case (if mr_updates \<noteq> [] then
              (case process_mrs (mrs d) (not_mrs mr_updates) (yes_mrs mr_updates) [] False of
                 (current, cs, del) \<Rightarrow> (d\<lparr>mrs := current\<rparr>, cs, del))
            else (d, [], False)) of
        (d, deletion_comment, mrs_deleted) \<Rightarrow>
          if mrs_deleted \<or> comment_updates \<noteq> [] then
            prepend_comments
              (comment_updates
               @ (if mrs_deleted then deletion_comment else [])
               @ (if comment_updates \<noteq> [] then [''*** CHANGED *** '' @ date_as_string now @ '' '' @ usr] else [])) d
          else d)"

section \<open>rmdel\<close>

text \<open>The loop over the deltas that have not been removed.\<close>

fun rm_check :: "seq_no \<Rightarrow> delta list \<Rightarrow> unit res" where
  "rm_check sq [] = Inr ()"
| "rm_check sq (x # xs) =
     (if prev_seq x = sq then Inl (Failed Delta_has_successor)
      else if sq \<in> set (included_seqs x) \<or> sq \<in> set (excluded_seqs x) \<or> sq \<in> set (ignored_seqs x)
      then Inl (Failed Delta_in_use)
      else rm_check sq xs)"

fun change_first :: "('a \<Rightarrow> bool) \<Rightarrow> ('a \<Rightarrow> 'a) \<Rightarrow> 'a list \<Rightarrow> 'a list" where
  "change_first P g [] = []"
| "change_first P g (x # xs) = (if P x then g x # xs else x # change_first P g xs)"

text \<open>\<open>d->set_type ('R')\<close> on the delta that \<open>find_delta\<close> has found.\<close>

definition mark_removed :: "sid \<Rightarrow> delta_table \<Rightarrow> delta_table" where
  "mark_removed i t =
     t\<lparr>items := change_first (\<lambda>d. \<not> removed d \<and> delta_id d = i) (\<lambda>d. d\<lparr>delta_type := CHR ''R''\<rparr>) (items t)\<rparr>"

definition rmdel :: "sccs_file \<Rightarrow> sid \<Rightarrow> (string \<times> sccs_file) res" where
  "rmdel f i =
     bindE (edit_mode_permitted f True) (\<lambda>_.
       case find_delta f i of
         None \<Rightarrow> Inl (Failed Sid_not_found)
       | Some d \<Rightarrow>
           bindE (rm_check (seq d) (selected Current (sf_table f))) (\<lambda>_.
           let f = f\<lparr>sf_table := mark_removed i (sf_table f)\<rparr> in
           bindE (ASSERT (sf_mode f \<noteq> READ)) (\<lambda>_.
           bindE (write_header f) (\<lambda>h.
           bindE (body_remove (sf_body f) (seq d)) (\<lambda>b.
           bindE (end_update f (dummy_line @ h @ b)) (\<lambda>new.
             Inr (new, f)))))))"

section \<open>Lemmas\<close>

lemma process_mrs_eq:
  "process_mrs old del cur cs b =
     (cur @ filter (\<lambda>m. m \<notin> del) old,
      cs @ (if b \<or> filter (\<lambda>m. m \<in> del) old = [] then filter (\<lambda>m. m \<in> del) old
            else ''*** LIST OF DELETED MRS ***'' # filter (\<lambda>m. m \<in> del) old),
      b \<or> filter (\<lambda>m. m \<in> del) old \<noteq> [])"
  by (induction old arbitrary: cur cs b) auto

lemma rm_check_iff:
  "rm_check sq xs = Inr () \<longleftrightarrow>
     (\<forall>x \<in> set xs. prev_seq x \<noteq> sq \<and> sq \<notin> set (included_seqs x) \<union> set (excluded_seqs x) \<union> set (ignored_seqs x))"
  by (induction xs) auto

lemma remove_body_lines:
  "remove_body ls s state out = Inr out' \<Longrightarrow> \<exists>ls'. out' = out @ unlines ls' \<and> set ls' \<subseteq> set ls"
proof (induction ls s state out rule: remove_body.induct)
  case (1 s state out)
  then show ?case by (auto split: if_splits intro!: exI [of _ "[]"])
next
  case (2 l ls s state out)
  have keep: "\<exists>ls'. out' = out @ unlines ls' \<and> set ls' \<subseteq> set (l # ls)"
    if "\<exists>ls'. out' = (out @ l @ [newline]) @ unlines ls' \<and> set ls' \<subseteq> set ls"
  proof -
    from that obtain ls' where "out' = (out @ l @ [newline]) @ unlines ls'" "set ls' \<subseteq> set ls" by blast
    then show ?thesis by (intro exI [of _ "l # ls'"]) auto
  qed
  have skip: "\<exists>ls'. out' = out @ unlines ls' \<and> set ls' \<subseteq> set (l # ls)"
    if "\<exists>ls'. out' = out @ unlines ls' \<and> set ls' \<subseteq> set ls" using that by auto
  show ?case
  proof (cases "line_type l = NUL")
    case True
    then show ?thesis using 2 keep skip by (cases "state = RM_INSERT") auto
  next
    case False
    then obtain m where m: "check_arg l = Inr ()" "strict_atous (drop 3 l) = Inr m"
      using "2.prems" by (auto simp: bindE_eq_Inr)
    show ?thesis
    proof (cases "m = s")
      case True
      then obtain state' where st: "rm_next_state state (line_type l) = Some state'"
        using "2.prems" False m by (auto split: option.splits)
      then show ?thesis using "2.IH"(1) [OF False m(1) m(2) True st] "2.prems" False m True skip by simp
    next
      case ne: False
      then have "state \<noteq> RM_INSERT" using "2.prems" False m by auto
      then show ?thesis using "2.IH"(2) [OF False m(1) m(2) ne] "2.prems" False m ne keep by simp
    qed
  qed
qed

lemma change_first_set: "x \<in> set (change_first P g xs) \<Longrightarrow> x \<in> set xs \<or> (\<exists>y \<in> set xs. P y \<and> x = g y)"
  by (induction xs) (auto split: if_splits)

lemma change_first_Nil [simp]: "change_first P g xs = [] \<longleftrightarrow> xs = []"
  by (cases xs) auto

text \<open>The writer sees the deltas of the table only.\<close>

definition rebuild :: "delta list \<Rightarrow> delta_table" where
  "rebuild ds = foldl (\<lambda>t d. table_add d t) table_empty ds"

lemma items_rebuild [simp]: "items (rebuild ds) = ds"
  by (simp add: rebuild_def foldl_table_add)

lemma write_flags_table [simp]: "write_flags (f\<lparr>sf_table := t\<rparr>) = write_flags f"
proof -
  have p: "print_substituted_flags_list (f\<lparr>sf_table := t\<rparr>) = print_substituted_flags_list f"
    by (rule ext) (simp add: print_substituted_flags_list_def)
  show ?thesis unfolding write_flags_def p by simp
qed

lemma write_header_rebuild: "write_header (f\<lparr>sf_table := rebuild (items t)\<rparr>) = write_header (f\<lparr>sf_table := t\<rparr>)"
  by (simp add: write_header_def selected_def)

lemma end_update_table: "end_update (f\<lparr>sf_table := t\<rparr>) file = end_update f file"
  by (simp add: end_update_def)

lemma mark_removed_storable:
  assumes "file_storable f"
  shows "file_storable (f\<lparr>sf_table := rebuild (items (mark_removed i (sf_table f)))\<rparr>)"
proof -
  have R: "delta_storable (x\<lparr>delta_type := CHR ''R''\<rparr>)" if "delta_storable x" for x
    using that by (simp add: delta_storable_def is_valid_delta_type_def)
  have old: "\<forall>d \<in> set (items (sf_table f)). delta_storable d" using assms by (simp add: file_storable_def)
  have "\<forall>d \<in> set (items (mark_removed i (sf_table f))). delta_storable d"
  proof
    fix d assume "d \<in> set (items (mark_removed i (sf_table f)))"
    then have "d \<in> set (items (sf_table f)) \<or> (\<exists>y \<in> set (items (sf_table f)). d = y\<lparr>delta_type := CHR ''R''\<rparr>)"
      unfolding mark_removed_def by (auto dest!: change_first_set)
    then show "delta_storable d" using old R by auto
  qed
  then show ?thesis
    using assms unfolding file_storable_def by (simp add: mark_removed_def) (simp add: rebuild_def)
qed

section \<open>Properties\<close>

text \<open>
  C39. \<open>cdc\<close> changes the MRs and the comments of a delta and nothing else: new MRs come before the
  old ones that are not struck out; the new comments, the list of the MRs struck out (when there
  are any) and a line with the date and the user (when there are new comments) come before the
  old comments.
\<close>

theorem cdc_commentary:
  "cdc now usr d mr_updates comment_updates =
     (let struck = filter (\<lambda>m. m \<in> not_mrs mr_updates) (mrs d) in
      d\<lparr>mrs := yes_mrs mr_updates @ filter (\<lambda>m. m \<notin> not_mrs mr_updates) (mrs d),
        comments := comment_updates @ (if struck = [] then [] else ''*** LIST OF DELETED MRS ***'' # struck)
          @ (if comment_updates = [] then [] else [''*** CHANGED *** '' @ date_as_string now @ '' '' @ usr])
          @ comments d\<rparr>)"
proof (cases "mr_updates = []")
  case True
  then show ?thesis
    by (simp add: cdc_def yes_mrs_def not_mrs_def prepend_comments_def Let_def)
next
  case False
  then show ?thesis
    by (simp add: cdc_def process_mrs_eq prepend_comments_def Let_def)
qed

text \<open>
  C38. \<open>rmdel\<close> removes a delta only when the file has it, no delta that is left has it as its
  predecessor and none names it in a list; then, as long as its lines in the body are not
  interleaved with those of another delta, it succeeds, and the new file is read back with the
  delta marked as removed, its lines gone from the body, and everything else as it was.
\<close>

theorem rmdel_only_leaf:
  assumes "file_storable f" and "\<forall>l \<in> set (sf_body f). plain_line l" and "sf_mode f = UPDATE" and "edit_mode_ok f"
  shows "case find_delta f i of
      None \<Rightarrow> rmdel f i = Inl (Failed Sid_not_found)
    | Some d \<Rightarrow>
        if \<forall>x \<in> set (selected Current (sf_table f)).
             prev_seq x \<noteq> seq d \<and> seq d \<notin> set (included_seqs x) \<union> set (excluded_seqs x) \<union> set (ignored_seqs x)
        then \<forall>b. body_remove (sf_body f) (seq d) = Inr b \<longrightarrow>
          (\<exists>new ls. rmdel f i = Inr (new, f\<lparr>sf_table := mark_removed i (sf_table f)\<rparr>) \<and> b = unlines ls
             \<and> sccs_file_ctor (sf_name f) READ silent True (sfile_executable f) new =
                 Inr (f\<lparr>sf_mode := READ, checksum_valid := True, xfile_created := False, edit_mode_ok := True,
                        sf_table := rebuild (items (mark_removed i (sf_table f))), sf_body := ls\<rparr>))
        else \<exists>e. rmdel f i = Inl e"
proof -
  have edit: "edit_mode_permitted f True = Inr ()" using assms(4) by (simp add: edit_mode_permitted_def)
  define g where "g = f\<lparr>sf_table := rebuild (items (mark_removed i (sf_table f)))\<rparr>"
  have g: "file_storable g" using mark_removed_storable [OF assms(1)] by (simp add: g_def)
  have header: "write_header (f\<lparr>sf_table := mark_removed i (sf_table f)\<rparr>) = Inr (unlines (file_header_lines g))"
    using write_header_lines [OF g] write_header_rebuild by (simp add: g_def)
  have result: "\<exists>new ls. rmdel f i = Inr (new, f\<lparr>sf_table := mark_removed i (sf_table f)\<rparr>) \<and> b = unlines ls
       \<and> sccs_file_ctor (sf_name f) READ silent True (sfile_executable f) new =
           Inr (f\<lparr>sf_mode := READ, checksum_valid := True, xfile_created := False, edit_mode_ok := True,
                  sf_table := rebuild (items (mark_removed i (sf_table f))), sf_body := ls\<rparr>)"
    if d: "find_delta f i = Some d" "rm_check (seq d) (selected Current (sf_table f)) = Inr ()"
      and b: "body_remove (sf_body f) (seq d) = Inr b" for d b
  proof -
    obtain ls where ls: "b = unlines ls" "set ls \<subseteq> set (sf_body f)"
      using remove_body_lines [of "sf_body f" "seq d" COPY "[]" b] b by (auto simp: body_remove_def)
    then have plain: "\<forall>l \<in> set ls. plain_line l" using assms(2) by blast
    obtain new where new: "end_update f (dummy_line @ unlines (file_header_lines g) @ unlines ls) = Inr new"
      "sccs_file_ctor (sf_name f) READ silent True (sfile_executable f) new =
         Inr (g\<lparr>sf_flags := (sf_flags g)\<lparr>fl_encoded := fl_encoded (sf_flags f)\<rparr>, sf_body := ls,
                sf_mode := READ, checksum_valid := True, xfile_created := False, edit_mode_ok := True\<rparr>)"
      using end_update_reads [OF g plain _ _ refl, of READ "fl_encoded (sf_flags f)" f silent] by (auto simp: g_def)
    show ?thesis
      using new b d edit assms(3) ls(1) header
      by (intro exI [of _ new] exI [of _ ls]) (simp add: rmdel_def Let_def end_update_table g_def)
  qed
  show ?thesis
  proof (cases "find_delta f i")
    case None
    then show ?thesis by (simp add: rmdel_def edit)
  next
    case (Some d)
    show ?thesis
    proof (cases "rm_check (seq d) (selected Current (sf_table f))")
      case (Inl e)
      then show ?thesis
        using rm_check_iff [of "seq d" "selected Current (sf_table f)"] Some
        by (auto simp: rmdel_def edit)
    next
      case (Inr u)
      then show ?thesis
        using rm_check_iff [of "seq d" "selected Current (sf_table f)"] Some result [of d] by auto
    qed
  qed
qed

theorem rmdel_only_leaf_witness:
  "\<exists>new ls. rmdel sample_file (mk_sid 1 1 0 0) =
       Inr (new, sample_file\<lparr>sf_table := mark_removed (mk_sid 1 1 0 0) (sf_table sample_file)\<rparr>) \<and> ls = []
     \<and> sccs_file_ctor (sf_name sample_file) READ True True (sfile_executable sample_file) new =
         Inr (sample_file\<lparr>sf_mode := READ, checksum_valid := True, xfile_created := False, edit_mode_ok := True,
                sf_table := rebuild (items (mark_removed (mk_sid 1 1 0 0) (sf_table sample_file))), sf_body := ls\<rparr>)"
proof -
  have t: "selected Current (sf_table sample_file) = [sample_delta]" "find_delta sample_file (mk_sid 1 1 0 0) = Some sample_delta"
    by (simp_all add: sample_file_def find_delta_def table_find_eq selected_def removed_def sample_delta_def delta_default_def)
  have d: "prev_seq sample_delta = 0" "seq sample_delta = 1" "included_seqs sample_delta = []" "excluded_seqs sample_delta = []"
    "ignored_seqs sample_delta = []" by (simp_all add: sample_delta_def delta_default_def)
  have "body_remove [ctrl_A # ''I 1'', ''hello'', ctrl_A # ''E 1''] 1 = Inr []"
    by (simp add: body_remove_def rm_next_state_def strict_atous_def digit_val_def isdigit_def line_type_def Let_def)
  then have b: "body_remove (sf_body sample_file) 1 = Inr []" by (simp add: sample_file_def)
  have m: "sf_mode sample_file = UPDATE" "edit_mode_ok sample_file" by (simp_all add: sample_file_def file_start_def)
  from rmdel_only_leaf [OF sample_file_storable sample_body m, of "mk_sid 1 1 0 0" True]
  obtain new ls where "rmdel sample_file (mk_sid 1 1 0 0) =
       Inr (new, sample_file\<lparr>sf_table := mark_removed (mk_sid 1 1 0 0) (sf_table sample_file)\<rparr>)" "[] = unlines ls"
     "sccs_file_ctor (sf_name sample_file) READ True True (sfile_executable sample_file) new =
         Inr (sample_file\<lparr>sf_mode := READ, checksum_valid := True, xfile_created := False, edit_mode_ok := True,
                sf_table := rebuild (items (mark_removed (mk_sid 1 1 0 0) (sf_table sample_file))), sf_body := ls\<rparr>)"
    by (auto simp: t d b [simplified])
  moreover from this(2) have "ls = []" by (cases ls) auto
  ultimately show ?thesis by blast
qed

end
