(* ===== verification/Add_Delta.thy ===== *)
theory Add_Delta
  imports Get Sfile_Ops
begin

text \<open>
  \<open>sccs_file::add_delta\<close> (sf-delta.cc): the whole of a check-in, from the lock in the p-file to
  the new s-file and the p-file without the lock.

  The \<open>diff\<close> program is a parameter: from the texts of two files it gives the lines of its
  output. The clock, the user's name and the limit on the length of a line are parameters too.
  The files are a map from names to contents. The u-file and the d-file are created and deleted
  again, whatever happens later; the x-file exists only during the update.
\<close>

section \<open>The lists of the new delta\<close>

text \<open>A \<open>std::set\<close> of sequence numbers as an ascending list.\<close>

definition seq_set :: "seq_no list \<Rightarrow> seq_no list" where
  "seq_set xs = sort (remdups xs)"

definition tagged_included :: "seq_state \<Rightarrow> seq_no \<Rightarrow> seq_no list" where
  "tagged_included st high = filter (\<lambda>s. is_explicitly_tagged st s \<and> is_included st s) [1..<high]"

definition tagged_excluded :: "seq_state \<Rightarrow> seq_no \<Rightarrow> seq_no list" where
  "tagged_excluded st high =
     filter (\<lambda>s. is_explicitly_tagged st s \<and> \<not> is_included st s \<and> is_excluded st s) [1..<high]"

definition member_seqs :: "delta_table \<Rightarrow> sid_list \<Rightarrow> seq_no list" where
  "member_seqs t l =
     (if rl_is_empty l then []
      else map seq (filter (\<lambda>d. rl_member sid_ops l (delta_id d)) (selected Current t)))"

section \<open>Automatic null deltas\<close>

text \<open>
  The loop that fills the gap between releases: the counter starts at 10000 and the last
  assertion of a round requires that it is still positive.
\<close>

fun null_loop ::
  "nat \<Rightarrow> sccs_date \<Rightarrow> string \<Rightarrow> string list \<Rightarrow> release \<Rightarrow> release \<Rightarrow> sid \<Rightarrow> seq_no \<Rightarrow> delta_table \<Rightarrow> (seq_no \<times> delta_table) res" where
  "null_loop 0 now usr new_mrs last_auto_rel null_rel i predecessor_seq t =
     (if null_rel < last_auto_rel then Inl Assertion else Inr (predecessor_seq, t))"
| "null_loop (Suc escape) now usr new_mrs last_auto_rel null_rel i predecessor_seq t =
     (if null_rel < last_auto_rel then
        bindE (ASSERT (sid_valid i)) (\<lambda>_.
        let new_seq = next_seqno t; i = next_level (sid_of_release null_rel) in
        bindE (delta_ctor8 (CHR ''D'') i now usr new_seq predecessor_seq new_mrs [''AUTO NULL DELTA'']) (\<lambda>null_delta.
        let t = table_prepend null_delta t in
        bindE (ASSERT (escape > 0)) (\<lambda>_.
          null_loop escape now usr new_mrs last_auto_rel (release_inc null_rel) i new_seq t)))
      else Inr (predecessor_seq, t))"

definition add_null_deltas ::
  "sccs_date \<Rightarrow> string \<Rightarrow> string list \<Rightarrow> sid \<Rightarrow> delta \<Rightarrow> sccs_file \<Rightarrow> (seq_no \<times> sccs_file) res" where
  "add_null_deltas now usr new_mrs new_sid got_delta f =
     (if null_deltas (sf_flags f) then
        bindE (ASSERT (sid_valid (delta_id got_delta))) (\<lambda>_.
        bindE (null_loop 10000 now usr new_mrs (release_of_sid new_sid) (release_inc (release_of_sid (delta_id got_delta)))
                 (delta_id got_delta) (seq got_delta) (sf_table f)) (\<lambda>(pred, t).
          Inr (pred, f\<lparr>sf_table := t\<rparr>)))
      else Inr (seq got_delta, f))"

section \<open>The steps of add_delta\<close>

text \<open>The checks at the start: the text that is given to \<open>diff\<close>.\<close>

definition add_delta_input :: "sccs_file \<Rightarrow> string \<Rightarrow> string res" where
  "add_delta_input f content =
     bindE (ASSERT (sf_mode f = UPDATE)) (\<lambda>_.
     bindE (check_keywords_in_file f content) (\<lambda>_.
       if fl_encoded (sf_flags f) then encode_file content else Inr content))"

definition add_delta_state :: "sccs_file \<Rightarrow> edit_lock \<Rightarrow> (delta \<times> seq_state) res" where
  "add_delta_state f it =
     (case find_delta f (el_got it) of
        None \<Rightarrow> Inl (Failed Sid_not_found)
      | Some got_delta \<Rightarrow>
          bindE (get_state f (seq got_delta) (el_include it) (el_exclude it) date_default) (\<lambda>st.
            Inr (got_delta, st)))"

text \<open>The d-file: the version that was gotten, not decoded.\<close>

definition add_delta_dfile :: "(string \<Rightarrow> string option) \<Rightarrow> sccs_file \<Rightarrow> seq_state \<Rightarrow> string res" where
  "add_delta_dfile canonify f st =
     bindE (do_get canonify f (copy_seq_state st)
              \<lparr>sp_outname = sub_file (CHR ''d'') (sf_name f), sp_module_name = get_module_name f, wstring = None,
               sp_out = [], sp_delta = delta_default, sp_out_lineno = 0, sp_now = date_default, found_id = False\<rparr>
              False False False True False) (\<lambda>(st', parms). Inr (sp_out parms))"

text \<open>The new delta, and the object with the null deltas in front of the others.\<close>

definition add_delta_new ::
  "sccs_date \<Rightarrow> string \<Rightarrow> string list \<Rightarrow> string list \<Rightarrow> edit_lock \<Rightarrow> delta \<Rightarrow> seq_state \<Rightarrow> sccs_file \<Rightarrow> (delta \<times> sccs_file) res" where
  "add_delta_new now usr new_mrs new_comments it got_delta st f =
     (let included = tagged_included st (highest_delta_seqno f);
          excluded = tagged_excluded st (highest_delta_seqno f) in
      bindE (add_null_deltas now usr new_mrs (el_delta it) got_delta f) (\<lambda>(predecessor_seq, f).
      bindE (delta_ctor10 (CHR ''D'') (el_delta it) now usr (next_seqno (sf_table f)) predecessor_seq
               (seq_set (included @ member_seqs (sf_table f) (el_include it)))
               (seq_set (excluded @ member_seqs (sf_table f) (el_exclude it))) new_mrs new_comments) (\<lambda>new_delta.
        Inr (new_delta, f))))"

text \<open>The update: the new contents of the s-file, the object and the counts.\<close>

definition add_delta_update ::
  "nat \<Rightarrow> (string \<Rightarrow> string \<Rightarrow> string list) \<Rightarrow> bool \<Rightarrow> string \<Rightarrow> string \<Rightarrow> seq_state \<Rightarrow> delta \<Rightarrow> sccs_file \<Rightarrow>
   (string \<times> delta \<times> sccs_file) res" where
  "add_delta_update len_max diff display dfile_text file_to_diff st new_delta f =
     bindE (start_update_delta f new_delta) (\<lambda>out.
     bindE (body_delta len_max (sf_body f) (highest_delta_seqno f) (seq new_delta) st (diff dfile_text file_to_diff) display)
       (\<lambda>(result, body).
     let new_delta = set_idu (dr_inserted result) (dr_deleted result) (dr_unchanged result) new_delta in
     bindE (end_update_delta f (out @ body) new_delta) (\<lambda>(new, f).
       Inr (new, new_delta, f))))"

record add_result =
  ar_output :: string
  ar_file :: sccs_file
  ar_pfile :: sccs_pfile

definition add_delta ::
  "nat \<Rightarrow> (string \<Rightarrow> string \<Rightarrow> string list) \<Rightarrow> sccs_date \<Rightarrow> string \<Rightarrow> (string \<Rightarrow> string option) \<Rightarrow>
   sccs_file \<Rightarrow> string \<Rightarrow> sccs_pfile \<Rightarrow> nat \<Rightarrow> string list \<Rightarrow> string list \<Rightarrow> bool \<Rightarrow> directory \<Rightarrow>
   add_result res \<times> directory" where
  "add_delta len_max diff now usr canonify f content pfile k new_mrs new_comments display dir =
     (let nm = sf_name f; it = edit_locks pfile ! k;
          udir = (if fl_encoded (sf_flags f) then dir(sub_file (CHR ''u'') nm := None) else dir);
          ddir = udir(sub_file (CHR ''d'') nm := None)
      in
      case add_delta_input f content of
        Inl e \<Rightarrow> (Inl e, dir)
      | Inr file_to_diff \<Rightarrow>
      (case add_delta_state f it of
        Inl e \<Rightarrow> (Inl e, udir)
      | Inr (got_delta, st) \<Rightarrow>
      (case bindE (add_delta_dfile canonify f st) (\<lambda>dfile_text.
           bindE (add_delta_new now usr new_mrs new_comments it got_delta st f) (\<lambda>(new_delta, f).
           bindE (sid_print (delta_id new_delta)) (\<lambda>sid_text.
           bindE (add_delta_update len_max diff display dfile_text file_to_diff st new_delta f) (\<lambda>(new, new_delta, f).
             Inr (new, f, sid_text @ [newline]
               @ show_nat (inserted new_delta) @ '' inserted'' @ [newline]
               @ show_nat (deleted new_delta) @ '' deleted'' @ [newline]
               @ show_nat (unchanged new_delta) @ '' unchanged'' @ [newline]))))) of
        Inl e \<Rightarrow> (Inl e, ddir)
      | Inr (new, f, out) \<Rightarrow>
          let p = delete_lock k pfile in
          (case pfile_update (sub_file (CHR ''q'') nm) (sub_file (CHR ''p'') nm) True (edit_locks p)
                  (ddir(sname nm \<mapsto> new)) of
             (Inr _, dir') \<Rightarrow> (Inr \<lparr>ar_output = out, ar_file = f, ar_pfile = p\<rparr>, dir')
           | (Inl e, dir') \<Rightarrow> (Inl e, dir')))))"

end
