(* ===== verification/Version_Grow.thy ===== *)
theory Version_Grow
  imports Version_Select
begin

text \<open>
  How the versions of a table change when a delta is added in front: the version of the new
  delta is the version of its predecessor with the new delta, and the other versions stay as
  they are. The equations that a version satisfies (\<open>version_eqs\<close>) have one solution on a
  consistent table, so that two selections can be compared through them.
\<close>

section \<open>The equations of a version\<close>

definition version_eqs ::
  "delta_table \<Rightarrow> seq_no \<Rightarrow> (seq_no \<Rightarrow> bool) \<Rightarrow> (seq_no \<Rightarrow> bool) \<Rightarrow> (seq_no \<Rightarrow> bool) \<Rightarrow> bool" where
  "version_eqs t sq inc1 inc2 ver \<longleftrightarrow>
     (\<forall>s. inc1 s \<longleftrightarrow> descends t sq s \<or> (\<exists>y. 0 < y \<and> y \<le> sq \<and> inc1 y \<and> names included_seqs t y s))
     \<and> (\<forall>s. inc2 s \<longleftrightarrow> inc1 s \<and> \<not> (\<exists>y. 0 < y \<and> y \<le> sq \<and> inc1 y \<and> names excluded_seqs t y s))
     \<and> (\<forall>s. ver s \<longleftrightarrow> inc2 s \<and> \<not> (\<exists>y. 0 < y \<and> y \<le> sq \<and> ver y \<and> names ignored_seqs t y s))"

lemma names_less:
  assumes "table_consistent t"
  shows "names included_seqs t y s \<Longrightarrow> s < y" and "names excluded_seqs t y s \<Longrightarrow> s < y"
    and "names ignored_seqs t y s \<Longrightarrow> s < y"
  using assms by (auto simp: table_consistent_def names_def le_neq_implies_less)

text \<open>A set that is given at \<open>s\<close> by the numbers above \<open>s\<close> is determined.\<close>

lemma downward_unique:
  fixes A B :: "nat \<Rightarrow> bool"
  assumes "\<And>s. (\<And>y. s < y \<Longrightarrow> y \<le> n \<Longrightarrow> A y = B y) \<Longrightarrow> A s = B s"
  shows "A s = B s"
proof (induction "n - s" arbitrary: s rule: less_induct)
  case less
  show ?case by (rule assms) (rule less, simp)
qed

lemma version_eqs_unique:
  assumes "table_consistent t" and "version_eqs t sq a b c" and "version_eqs t sq a' b' c'"
  shows "c = c'"
proof -
  note less = names_less [OF assms(1)]
  have e: "a s \<longleftrightarrow> descends t sq s \<or> (\<exists>y. 0 < y \<and> y \<le> sq \<and> a y \<and> names included_seqs t y s)"
      "b s \<longleftrightarrow> a s \<and> \<not> (\<exists>y. 0 < y \<and> y \<le> sq \<and> a y \<and> names excluded_seqs t y s)"
      "c s \<longleftrightarrow> b s \<and> \<not> (\<exists>y. 0 < y \<and> y \<le> sq \<and> c y \<and> names ignored_seqs t y s)"
    if "version_eqs t sq a b c" for a b c s
    using that unfolding version_eqs_def by blast+
  have "a s = a' s" for s
  proof (rule downward_unique [where n = sq])
    fix s assume "\<And>y. s < y \<Longrightarrow> y \<le> sq \<Longrightarrow> a y = a' y"
    then have *: "(0 < y \<and> y \<le> sq \<and> a y \<and> names included_seqs t y s) = (0 < y \<and> y \<le> sq \<and> a' y \<and> names included_seqs t y s)" for y
      using less(1) [of y s] by blast
    show "a s = a' s" unfolding e(1) [OF assms(2), of s] e(1) [OF assms(3), of s] * ..
  qed
  then have a: "a = a'" by blast
  then have b: "b s = b' s" for s unfolding e(2) [OF assms(2), of s] e(2) [OF assms(3), of s] by blast
  have "c s = c' s" for s
  proof (rule downward_unique [where n = sq])
    fix s assume "\<And>y. s < y \<Longrightarrow> y \<le> sq \<Longrightarrow> c y = c' y"
    then have *: "(0 < y \<and> y \<le> sq \<and> c y \<and> names ignored_seqs t y s) = (0 < y \<and> y \<le> sq \<and> c' y \<and> names ignored_seqs t y s)" for y
      using less(3) [of y s] by blast
    show "c s = c' s" unfolding e(3) [OF assms(2), of s] e(3) [OF assms(3), of s] * b ..
  qed
  then show ?thesis by blast
qed

lemma descends_le:
  assumes "table_consistent t" and "descends t sq s"
  shows "s \<le> sq"
  using assms(2)
proof (induction rule: descends.induct)
  case (descends_step y p s)
  then have "p < y" using assms(1) by (auto simp: prev_of_def table_consistent_def)
  with descends_step.IH show ?case by simp
qed simp

lemma version_le:
  assumes "table_consistent t" and "version_eqs t sq a b c"
  shows "a s \<Longrightarrow> s \<le> sq" and "b s \<Longrightarrow> s \<le> sq" and "c s \<Longrightarrow> s \<le> sq" and "c sq"
proof -
  have a: "a s \<Longrightarrow> s \<le> sq" for s
    using assms(2) descends_le [OF assms(1)] names_less(1) [OF assms(1)] unfolding version_eqs_def
    by (metis less_or_eq_imp_le order_less_le_trans)
  then show "a s \<Longrightarrow> s \<le> sq" "b s \<Longrightarrow> s \<le> sq" "c s \<Longrightarrow> s \<le> sq"
    using assms(2) unfolding version_eqs_def by blast+
  have "a sq" using assms(2) descends_refl unfolding version_eqs_def by blast
  moreover have "\<not> names excluded_seqs t y sq" "\<not> names ignored_seqs t y sq" if "y \<le> sq" for y
    using names_less(2,3) [OF assms(1), of y sq] that by auto
  ultimately show "c sq" using assms(2) unfolding version_eqs_def by blast
qed

section \<open>A table that has grown\<close>

text \<open>\<open>t'\<close> is \<open>t\<close> with the delta \<open>d\<close> at a number above all others.\<close>

definition grows :: "delta_table \<Rightarrow> delta \<Rightarrow> delta_table \<Rightarrow> bool" where
  "grows t d t' \<longleftrightarrow>
     table_wf t \<and> table_wf t' \<and> high_seqno t < seq d
     \<and> (\<forall>y x. delta_at_seq t' y = Inr x \<longleftrightarrow> (if y = seq d then x = d else delta_at_seq t y = Inr x))"

lemma names_grow:
  "grows t d t' \<Longrightarrow> names lst t' y s \<longleftrightarrow> (if y = seq d then s \<in> set (lst d) \<and> s \<noteq> y else names lst t y s)"
  by (auto simp: grows_def names_def)

lemma prev_of_grow: "grows t d t' \<Longrightarrow> prev_of t' y p \<longleftrightarrow> (if y = seq d then p = prev_seq d else prev_of t y p)"
  by (auto simp: grows_def prev_of_def)

lemma known_grow: "grows t d t' \<Longrightarrow> known t' y \<longleftrightarrow> y = seq d \<or> known t y"
  by (auto simp: grows_def known_def)

lemma descends_grow:
  assumes "grows t d t'" and "table_consistent t" and "sq \<le> high_seqno t"
  shows "descends t' sq s \<longleftrightarrow> descends t sq s"
  using assms(3)
proof (induction sq rule: less_induct)
  case (less sq)
  have "sq \<noteq> seq d" using less.prems assms(1) by (auto simp: grows_def)
  moreover have "p < sq" if "prev_of t sq p" for p
    using that assms(2) by (auto simp: prev_of_def table_consistent_def)
  ultimately show ?case
    using less descends_iff [of t' sq s] descends_iff [of t sq s] prev_of_grow [OF assms(1), of sq]
    by (metis less_imp_le order_trans)
qed

lemma consistent_grow:
  assumes "grows t d t'" and "table_consistent t" and "prev_seq d = 0 \<or> known t (prev_seq d)"
    and "included_seqs d = []" and "excluded_seqs d = []" and "ignored_seqs d = []" and "0 < seq d"
  shows "table_consistent t'"
proof -
  have "prev_seq d < seq d"
    using assms(1,3,7) known_bound [of t "prev_seq d"] by (auto simp: grows_def)
  moreover have "delta_at_seq t' y = Inr x \<longleftrightarrow> (if y = seq d then x = d else delta_at_seq t y = Inr x)" for y x
    using assms(1) by (simp add: grows_def)
  moreover have "prev_seq x < y \<and> (prev_seq x = 0 \<or> known t (prev_seq x)) \<and> (\<forall>s \<in> set (included_seqs x). s \<le> y \<and> known t s)
      \<and> (\<forall>s \<in> set (excluded_seqs x). s \<le> y) \<and> (\<forall>s \<in> set (ignored_seqs x). s \<le> y)"
    if "delta_at_seq t y = Inr x" for y x
    using assms(2) that unfolding table_consistent_def by blast
  ultimately show ?thesis
    using assms(3-6) unfolding table_consistent_def by (simp add: known_grow [OF assms(1)]) blast
qed

lemma version_eqs_old:
  assumes "grows t d t'" and "table_consistent t" and "version_eqs t sq a b c" and "sq \<le> high_seqno t"
  shows "version_eqs t' sq a b c"
proof -
  have "y \<noteq> seq d" if "y \<le> sq" for y using that assms(1,4) by (auto simp: grows_def)
  then have "names lst t' y s = names lst t y s" if "y \<le> sq" for lst y s
    using that by (simp add: names_grow [OF assms(1)])
  then have *: "(0 < y \<and> y \<le> sq \<and> P \<and> names lst t' y s) = (0 < y \<and> y \<le> sq \<and> P \<and> names lst t y s)" for y P lst s
    by blast
  show ?thesis
    using assms(3) unfolding version_eqs_def descends_grow [OF assms(1,2,4)] * .
qed

lemma version_eqs_new:
  assumes "grows t d t'" and "table_consistent t" and "version_eqs t (prev_seq d) a b c"
    and "known t (prev_seq d)" and "included_seqs d = []" and "excluded_seqs d = []" and "ignored_seqs d = []"
  shows "version_eqs t' (seq d) (\<lambda>s. s = seq d \<or> a s) (\<lambda>s. s = seq d \<or> b s) (\<lambda>s. s = seq d \<or> c s)"
proof -
  let ?p = "prev_seq d" and ?n = "seq d"
  have p: "?p \<le> high_seqno t" "high_seqno t < ?n" "0 < ?n"
    using assms(1) known_bound [OF _ assms(4)] by (auto simp: grows_def)
  note le = version_le [OF assms(2,3)]
  have desc: "descends t' ?n s \<longleftrightarrow> s = ?n \<or> descends t ?p s" for s
    using descends_prev [of t' ?n ?p s] prev_of_grow [OF assms(1), of ?n ?p] descends_grow [OF assms(1,2) p(1)] by simp
  have nm: "(0 < y \<and> y \<le> ?n \<and> (y = ?n \<or> P y) \<and> names lst t' y s) \<longleftrightarrow> (0 < y \<and> y \<le> ?p \<and> P y \<and> names lst t y s)"
    if "lst d = []" "\<And>y. P y \<Longrightarrow> y \<le> ?p" for lst P y s
    using that(1) that(2) [of y] names_grow [OF assms(1), of lst y s] p by auto
  have nn: "\<not> names included_seqs t y ?n" "\<not> names excluded_seqs t y ?n" "\<not> names ignored_seqs t y ?n" for y
    using names_less [OF assms(2), of y ?n] known_bound [of t y] assms(1) by (auto simp: grows_def names_def known_def)
  have e: "a s \<longleftrightarrow> descends t ?p s \<or> (\<exists>y. 0 < y \<and> y \<le> ?p \<and> a y \<and> names included_seqs t y s)"
      "b s \<longleftrightarrow> a s \<and> \<not> (\<exists>y. 0 < y \<and> y \<le> ?p \<and> a y \<and> names excluded_seqs t y s)"
      "c s \<longleftrightarrow> b s \<and> \<not> (\<exists>y. 0 < y \<and> y \<le> ?p \<and> c y \<and> names ignored_seqs t y s)" for s
    using assms(3) unfolding version_eqs_def by blast+
  have nm1: "(0 < y \<and> y \<le> ?n \<and> (y = ?n \<or> a y) \<and> names included_seqs t' y s) = (0 < y \<and> y \<le> ?p \<and> a y \<and> names included_seqs t y s)"
    and nm2: "(0 < y \<and> y \<le> ?n \<and> (y = ?n \<or> a y) \<and> names excluded_seqs t' y s) = (0 < y \<and> y \<le> ?p \<and> a y \<and> names excluded_seqs t y s)"
    and nm3: "(0 < y \<and> y \<le> ?n \<and> (y = ?n \<or> c y) \<and> names ignored_seqs t' y s) = (0 < y \<and> y \<le> ?p \<and> c y \<and> names ignored_seqs t y s)" for y s
    using nm assms(5-7) le(1,3) by blast+
  have "(s = ?n \<or> a s) \<longleftrightarrow>
      descends t' ?n s \<or> (\<exists>y. 0 < y \<and> y \<le> ?n \<and> (y = ?n \<or> a y) \<and> names included_seqs t' y s)" for s
    unfolding desc nm1
    using e(1) [of s] by (cases "s = ?n") simp_all
  moreover have "(s = ?n \<or> b s) \<longleftrightarrow>
      (s = ?n \<or> a s) \<and> \<not> (\<exists>y. 0 < y \<and> y \<le> ?n \<and> (y = ?n \<or> a y) \<and> names excluded_seqs t' y s)" for s
    unfolding nm2
    using e(2) [of s] nn(2) by (cases "s = ?n") simp_all
  moreover have "(s = ?n \<or> c s) \<longleftrightarrow>
      (s = ?n \<or> b s) \<and> \<not> (\<exists>y. 0 < y \<and> y \<le> ?n \<and> (y = ?n \<or> c y) \<and> names ignored_seqs t' y s)" for s
    unfolding nm3
    using e(3) [of s] nn(3) by (cases "s = ?n") simp_all
  ultimately show ?thesis unfolding version_eqs_def by blast
qed

section \<open>Selecting a version without explicit lists\<close>

lemma prepare_seqstate_2_nothing: "foldE (prepare_one rl_empty rl_empty date_default) st ds = Inr st"
proof (induction ds)
  case (Cons d ds)
  have "prepare_one rl_empty rl_empty date_default st d = Inr st"
    by (simp add: prepare_one_def rl_member_def rl_empty_def date_default_def date_valid_def)
  then show ?case using Cons by simp
qed simp

text \<open>Only the lists of the command line tag a delta explicitly.\<close>

definition untagged :: "seq_state \<Rightarrow> bool" where
  "untagged st \<longleftrightarrow> (\<forall>x \<in> set (states st). \<not> is_explicit x)"

lemma untagged_update:
  assumes "untagged st" and "\<And>x. is_explicit (f x) = is_explicit x"
  shows "untagged (update_state n f st)"
proof (cases "n < length (states st)")
  case True
  then show ?thesis
    using assms set_update_subset_insert [of "states st" n "f (states st ! n)"]
    by (auto simp: untagged_def update_state_def)
qed (use assms in \<open>simp add: update_state_def untagged_def list_update_beyond\<close>)

lemma untagged_setters:
  assumes "untagged st"
  shows "untagged (set_included n b st)" and "untagged (set_excluded n st)" and "untagged (set_ignored n st)"
  using assms untagged_update by (simp_all add: set_included_def set_excluded_def set_ignored_def)

lemma untagged_new: "untagged (cleared_state l)"
  by (simp add: untagged_def cleared_state_def initial_condition_def)

lemma untagged_mark_ancestors: "mark_ancestors t sq y st = Inr st' \<Longrightarrow> untagged st \<Longrightarrow> untagged st'"
proof (induction t sq y st rule: mark_ancestors.induct)
  case (1 t sq y st)
  from "1.prems"(1) obtain d where "delta_at_seq_exists t y = Inr True" "delta_at_seq t y = Inr d" "y \<le> sq"
    "prev_seq d < y"
    "(if prev_seq d > 0 then mark_ancestors t sq (prev_seq d) (set_included (prev_seq d) False st)
      else Inr (set_included (prev_seq d) False st)) = Inr st'"
    by (subst (asm) mark_ancestors.simps) (auto simp: bindE_eq_Inr Let_def split: if_splits)
  with 1 untagged_setters(1) show ?case by (cases "prev_seq d > 0") auto
qed

lemma untagged_mark_fold:
  assumes "\<And>n st. untagged st \<Longrightarrow> untagged (upd n st)" and "untagged st"
    and "foldE (mark_list lst upd ok t) st ys = Inr st'"
  shows "untagged st'"
proof (rule foldE_keeps [where P = untagged, OF _ assms(2,3)])
  fix st y st' assume st: "untagged st" "mark_list lst upd ok t st y = Inr st'"
  have "untagged s'" if "untagged s" "foldE (mark_one upd ok y) s ss = Inr s'" for s s' ss
    by (rule foldE_keeps [where P = untagged, OF _ that]) (auto simp: mark_one_def bindE_eq_Inr Let_def assms(1) split: if_splits)
  with st show "untagged st'" by (auto simp: mark_list_def bindE_eq_Inr split: if_splits)
qed

lemma untagged_prepare:
  assumes "prepare_seqstate_1 t st sq = Inr st'" and "untagged st"
  shows "untagged st'"
proof -
  obtain st1 st2 st3 where anc: "mark_ancestors t sq sq st = Inr st1"
      and i: "apply_inclusions t sq (set_included sq False st1) = Inr st2"
      and e: "apply_exclusions t sq st2 = Inr st3" and g: "apply_ignores t sq st3 = Inr st'"
    using assms(1) by (auto simp: prepare_seqstate_1_def bindE_eq_Inr)
  have "untagged (set_included sq False st1)"
    using untagged_mark_ancestors [OF anc assms(2)] by (rule untagged_setters(1))
  from untagged_mark_fold [OF untagged_setters(1) this i [unfolded apply_inclusions_def]] have "untagged st2" .
  from untagged_mark_fold [OF untagged_setters(2) this apply_exclusions_fold [OF e]] have "untagged st3" .
  from untagged_mark_fold [OF untagged_setters(3) this g [unfolded apply_ignores_def]] show ?thesis .
qed

lemma prepare_plain:
  assumes "table_wf t" and "table_consistent t" and "known t sq" and "high_seqno t < 65535"
  obtains st a b where "bindE (new_seq_state (high_seqno t)) (\<lambda>st. prepare_seqstate t st sq rl_empty rl_empty date_default) = Inr st"
    and "version_eqs t sq a b (in_version st)" and "seq_wf st" and "last_seq st = high_seqno t"
    and "open_blocks st = Map.empty" and "\<not> is_excluded st sq" and "untagged st"
proof -
  let ?new = "cleared_state (high_seqno t)"
  have sq: "sq \<le> high_seqno t" using known_bound [OF assms(1,3)] by simp
  then have "counter_ends sq" using assms(4) by (simp add: counter_ends_def)
  then obtain st where st: "prepare_seqstate_1 t ?new sq = Inr st"
    using prepare_seqstate_1_total [OF assms(1-3)] by blast
  obtain a b where v: "version_eqs t sq a b (in_version st)" and
    fr: "states_wf st" "last_seq st = high_seqno t" "open_blocks st = Map.empty" "inserting st = inserting ?new"
    using prepare_seqstate_1_selects [OF st] sq unfolding version_eqs_def by auto
  have "\<not> inserting ?new" using cleared_state_wf [of "high_seqno t"] by (simp add: seq_wf_def visible_def)
  then have "seq_wf st" using fr by (intro seq_wf_no_blocks) auto
  moreover have "\<not> is_excluded st sq"
    using version_le(4) [OF assms(2) v] fr(1,2) sq
    by (auto simp: in_version_def is_included_def is_excluded_def states_wf_def)
  ultimately show thesis
    using that [OF _ v] st fr assms(4) untagged_prepare [OF st untagged_new] by (simp add: new_seq_state_def counter_ends_def prepare_seqstate_def prepare_seqstate_2_def prepare_seqstate_2_nothing)
qed

end
