(* ===== verification/Weave.thy ===== *)
theory Weave
  imports Body_Scanner
begin

text \<open>
  What the body of an s-file means, and that the body scanner agrees with it. A body is an
  interleaving of text lines and control lines; a version is the list of the text lines that
  are visible in it (\<open>vis_lines\<close>). The locale \<open>line_selector\<close> states what the scanner relies on
  from \<open>seq_state\<close>. The main results: \<open>get\<close> writes exactly the visible lines of a well-formed
  body and refuses any other; after \<open>delta\<close>, \<open>get\<close> of the new version gives the new file and
  \<open>get\<close> of every older version gives what it gave before; \<open>remove\<close> undoes \<open>delta\<close> for all other
  versions.
\<close>

section \<open>The meaning of a body\<close>

text \<open>The command and the sequence number of a control line; \<open>None\<close> when it is malformed.\<close>

definition control_of :: "string \<Rightarrow> (char \<times> seq_no) option" where
  "control_of l =
     (case check_arg l of Inl _ \<Rightarrow> None
      | Inr _ \<Rightarrow> (case strict_atous (drop 3 l) of Inl _ \<Rightarrow> None | Inr n \<Rightarrow> Some (line_type l, n)))"

definition upd :: "char \<Rightarrow> nat \<Rightarrow> (nat \<rightharpoonup> char) \<Rightarrow> (nat \<rightharpoonup> char)" where
  "upd c n op = (if c = CHR ''E'' then op(n := None) else op(n \<mapsto> c))"

definition ctl_ok :: "nat \<Rightarrow> (nat \<rightharpoonup> char) \<Rightarrow> char \<Rightarrow> nat \<Rightarrow> bool" where
  "ctl_ok lim op c n \<longleftrightarrow>
     1 \<le> n \<and> n \<le> lim \<and> (if c = CHR ''E'' then op n \<noteq> None else c \<in> {CHR ''I'', CHR ''D''} \<and> op n = None)"

fun vis_lines :: "(nat \<Rightarrow> bool) \<Rightarrow> (nat \<rightharpoonup> char) \<Rightarrow> string list \<Rightarrow> string list" where
  "vis_lines inc op [] = []"
| "vis_lines inc op (l # ls) =
     (if line_type l = NUL then (if visible inc op then [l] else []) @ vis_lines inc op ls
      else (case control_of l of None \<Rightarrow> vis_lines inc op ls | Some (c, n) \<Rightarrow> vis_lines inc (upd c n op) ls))"

fun body_ok :: "nat \<Rightarrow> (nat \<rightharpoonup> char) \<Rightarrow> string list \<Rightarrow> bool" where
  "body_ok lim op [] = True"
| "body_ok lim op (l # ls) =
     (if line_type l = NUL then body_ok lim op ls
      else (case control_of l of None \<Rightarrow> False
            | Some (c, n) \<Rightarrow> ctl_ok lim op c n \<and> body_ok lim (upd c n op) ls))"

fun final_open :: "(nat \<rightharpoonup> char) \<Rightarrow> string list \<Rightarrow> (nat \<rightharpoonup> char)" where
  "final_open op [] = op"
| "final_open op (l # ls) =
     (if line_type l = NUL then final_open op ls
      else (case control_of l of None \<Rightarrow> final_open op ls | Some (c, n) \<Rightarrow> final_open (upd c n op) ls))"

section \<open>What the scanner relies on\<close>

locale line_selector =
  fixes inv :: "'s \<Rightarrow> bool"
    and ver :: "'s \<Rightarrow> nat \<Rightarrow> bool"
    and opn :: "'s \<Rightarrow> (nat \<rightharpoonup> char)"
    and lim :: "'s \<Rightarrow> nat"
    and start :: "nat \<Rightarrow> char \<Rightarrow> 's \<Rightarrow> string + 's"
    and stop :: "nat \<Rightarrow> 's \<Rightarrow> string + 's"
    and shows_line :: "'s \<Rightarrow> bool"
  assumes start_iff: "inv st \<Longrightarrow> (\<exists>st'. start s c st = Inr st') \<longleftrightarrow>
        c \<in> {CHR ''I'', CHR ''D''} \<and> s \<le> lim st \<and> opn st s = None"
    and start_effect: "inv st \<Longrightarrow> start s c st = Inr st' \<Longrightarrow>
        inv st' \<and> opn st' = (opn st)(s \<mapsto> c) \<and> ver st' = ver st \<and> lim st' = lim st"
    and stop_iff: "inv st \<Longrightarrow> (\<exists>st'. stop s st = Inr st') \<longleftrightarrow> opn st s \<noteq> None"
    and stop_effect: "inv st \<Longrightarrow> stop s st = Inr st' \<Longrightarrow>
        inv st' \<and> opn st' = (opn st)(s := None) \<and> ver st' = ver st \<and> lim st' = lim st"
    and shows_iff: "inv st \<Longrightarrow> shows_line st \<longleftrightarrow> visible (ver st) (opn st)"
begin

definition control :: "char \<Rightarrow> nat \<Rightarrow> 's \<Rightarrow> 's res" where
  "control c s st =
     (if c = CHR ''E'' then badstate (stop s st)
      else if c = CHR ''D'' \<or> c = CHR ''I'' then badstate (start s c st)
      else Inl (Corrupt Unexpected_control_line))"

lemma control_effect:
  assumes "inv st" and "control c s st = Inr st'"
  shows "inv st' \<and> opn st' = upd c s (opn st) \<and> ver st' = ver st \<and> lim st' = lim st"
  using assms start_effect [OF assms(1), of s c] stop_effect [OF assms(1), of s]
  by (auto simp: control_def badstate_def upd_def split: if_splits sum.splits)

lemma control_iff:
  assumes "inv st" and "1 \<le> s" and "s \<le> lim st"
  shows "(\<exists>st'. control c s st = Inr st') \<longleftrightarrow> ctl_ok (lim st) (opn st) c s"
  using start_iff [OF assms(1), of s c] stop_iff [OF assms(1), of s] assms(2,3)
  by (auto simp: control_def badstate_def ctl_ok_def split: sum.splits)

text \<open>The loop that the operations of the scanner share: what is shown of a body.\<close>

fun shown :: "'s \<Rightarrow> string list \<Rightarrow> string list option" where
  "shown st [] = Some []"
| "shown st (l # ls) =
     (if line_type l = NUL then map_option (\<lambda>r. (if shows_line st then [l] else []) @ r) (shown st ls)
      else (case control_of l of None \<Rightarrow> None
            | Some (c, s) \<Rightarrow>
                if s < 1 \<or> s > lim st then None
                else (case control c s st of Inl _ \<Rightarrow> None | Inr st' \<Rightarrow> shown st' ls)))"

lemma shown_vis_lines:
  "inv st \<Longrightarrow> shown st ls = (if body_ok (lim st) (opn st) ls then Some (vis_lines (ver st) (opn st) ls) else None)"
proof (induction ls arbitrary: st)
  case (Cons l ls)
  show ?case
  proof (cases "line_type l = NUL \<or> control_of l = None")
    case True
    then show ?thesis using Cons shows_iff [OF Cons.prems] by auto
  next
    case False
    then obtain c s where cs: "control_of l = Some (c, s)" by auto
    show ?thesis
    proof (cases "1 \<le> s \<and> s \<le> lim st \<and> ctl_ok (lim st) (opn st) c s")
      case True
      then obtain st' where st': "control c s st = Inr st'"
        using control_iff [OF Cons.prems, of s c] by auto
      then show ?thesis
        using True False cs control_effect [OF Cons.prems st'] Cons.IH [of st'] by auto
    next
      case no: False
      then have "\<not> (\<exists>st'. control c s st = Inr st') \<or> s < 1 \<or> s > lim st" "\<not> ctl_ok (lim st) (opn st) c s"
        using control_iff [OF Cons.prems, of s c] by (auto simp: ctl_ok_def)
      then show ?thesis using cs False by (auto split: sum.splits)
    qed
  qed
qed simp

end

interpretation sq: line_selector seq_wf in_version open_blocks last_seq seq_start seq_end include_line
proof
  fix st :: seq_state and s c st'
  assume wf: "seq_wf st"
  then have swf: "states_wf st" by (simp add: seq_wf_def)
  show "(\<exists>st'. seq_start s c st = Inr st') \<longleftrightarrow>
        c \<in> {CHR ''I'', CHR ''D''} \<and> s \<le> last_seq st \<and> open_blocks st s = None"
    by (rule seq_start_correct(2) [OF swf])
  show "seq_start s c st = Inr st' \<Longrightarrow>
        seq_wf st' \<and> open_blocks st' = (open_blocks st)(s \<mapsto> c) \<and> in_version st' = in_version st \<and> last_seq st' = last_seq st"
    using seq_start_correct(1) [OF swf] by simp
  show "(\<exists>st'. seq_end s st = Inr st') \<longleftrightarrow> open_blocks st s \<noteq> None"
    by (rule seq_end_correct(2) [OF swf])
  show "seq_end s st = Inr st' \<Longrightarrow>
        seq_wf st' \<and> open_blocks st' = (open_blocks st)(s := None) \<and> in_version st' = in_version st \<and> last_seq st' = last_seq st"
    using seq_end_correct(1) [OF swf] by simp
  show "include_line st \<longleftrightarrow> visible (in_version st) (open_blocks st)"
    using wf by (simp add: include_line_def seq_wf_def)
qed

lemma apply_control_sq: "apply_control c s st = sq.control c s st"
  by (simp add: apply_control_def sq.control_def)

section \<open>get writes the visible lines\<close>

text \<open>The options of \<open>get\<close> under which a line is written as it is.\<close>

definition text_env :: "get_env \<Rightarrow> bool" where
  "text_env g \<longleftrightarrow> ge_outputfn g = output_body_line_text \<and> \<not> ge_do_kw_subst g \<and> \<not> ge_show_module g \<and> \<not> ge_show_sid g"

lemma output_text_plain: "plain_line l \<Longrightarrow> output_body_line_text l = l @ [newline]"
  by (auto simp: output_body_line_text_def linebuf_write_def c_str_def plain_line_def takeWhile_eq_all_conv)

text \<open>
  The options under which a line is written by the output function alone: the body is encoded or
  there is no keyword substitution.
\<close>

definition raw_env :: "get_env \<Rightarrow> bool" where
  "raw_env g \<longleftrightarrow> (ge_do_kw_subst g \<longrightarrow> ge_encoded g) \<and> \<not> ge_show_module g \<and> \<not> ge_show_sid g"

lemma raw_text_env: "text_env g \<Longrightarrow> raw_env g"
  by (simp add: text_env_def raw_env_def)

lemma get_text_line_raw:
  assumes "raw_env g"
  shows "\<exists>p'. get_text_line g st l p = Inr p' \<and> sp_out p' = sp_out p @ ge_outputfn g l"
  using assms by (auto simp: get_text_line_def raw_env_def Let_def write_out_def)

lemma vis_lines_subset: "set (vis_lines inc op ls) \<subseteq> set ls \<and> length (vis_lines inc op ls) \<le> length ls"
proof (induction ls arbitrary: op)
  case (Cons l ls)
  have "set (vis_lines inc op' ls) \<subseteq> insert l (set ls) \<and> length (vis_lines inc op' ls) \<le> Suc (length ls)" for op'
    using Cons [of op'] by auto
  then show ?case using Cons [of op] by (auto split: option.splits)
qed simp

lemma output_text_lines:
  assumes "text_env g" and "\<forall>l \<in> set ls. plain_line l"
  shows "concat (map (ge_outputfn g) (vis_lines inc op ls)) = unlines (vis_lines inc op ls)"
proof -
  have "map (ge_outputfn g) (vis_lines inc op ls) = map (\<lambda>l. l @ [newline]) (vis_lines inc op ls)"
    using assms vis_lines_subset [of inc op ls] output_text_plain by (auto simp: text_env_def)
  then show ?thesis unfolding unlines_def by (simp only:)
qed

lemma control_of_Some:
  "control_of l = Some (c, n) \<longleftrightarrow> check_arg l = Inr () \<and> strict_atous (drop 3 l) = Inr n \<and> c = line_type l"
  by (auto simp: control_of_def split: sum.splits)

lemma get_loop_control:
  assumes "line_type l \<noteq> NUL"
  shows "get_loop g (l # ls) st p =
     (case control_of l of
        Some (c, s) \<Rightarrow> if s < 1 \<or> s > high_seqno (ge_table g) then Inl (Corrupt Invalid_serial_number)
                       else bindE (sq.control c s st) (\<lambda>st. get_loop g ls st p)
      | None \<Rightarrow> get_loop g (l # ls) st p)
   \<and> (control_of l = None \<longrightarrow> (\<exists>e. get_loop g (l # ls) st p = Inl e))"
  using assms
  by (auto simp: control_of_def apply_control_sq bindE_def split: sum.splits option.splits)

lemma get_loop_shown:
  assumes "raw_env g" and "seq_wf st" and "last_seq st = high_seqno (ge_table g)"
  shows "case sq.shown st ls of
           Some out \<Rightarrow> \<exists>st' p'. get_loop g ls st p = Inr (st', p') \<and> sp_out p' = sp_out p @ concat (map (ge_outputfn g) out)
         | None \<Rightarrow> \<exists>e. get_loop g ls st p = Inl e"
  using assms(2,3)
proof (induction ls arbitrary: st p)
  case (Cons l ls)
  show ?case
  proof (cases "line_type l = NUL")
    case True
    show ?thesis
    proof (cases "include_line st")
      case True
      obtain p' where p': "get_text_line g st l p = Inr p'" "sp_out p' = sp_out p @ ge_outputfn g l"
        using get_text_line_raw [OF assms(1), of st l p] by auto
      then show ?thesis
        using \<open>line_type l = NUL\<close> True Cons.IH [of st p'] Cons.prems by (auto split: option.splits)
    next
      case False
      then show ?thesis using True Cons.IH [of st p] Cons.prems by (auto split: option.splits)
    qed
  next
    case False
    note gl = get_loop_control [OF False, of g ls st p]
    show ?thesis
    proof (cases "control_of l")
      case None
      then show ?thesis using gl False by simp
    next
      case (Some a)
      then obtain c s where cs: "control_of l = Some (c, s)" by (cases a) auto
      show ?thesis
      proof (cases "s < 1 \<or> s > last_seq st")
        case True
        then show ?thesis using gl cs False Cons.prems by simp
      next
        case bounds: False
        show ?thesis
        proof (cases "sq.control c s st")
          case (Inl e)
          then show ?thesis using gl cs False bounds Cons.prems by simp
        next
          case (Inr st')
          then have "seq_wf st'" "last_seq st' = last_seq st"
            using sq.control_effect [OF Cons.prems(1)] by auto
          then show ?thesis
            using gl cs False bounds Inr Cons.prems Cons.IH [of st' p] by (auto split: option.splits)
        qed
      qed
    qed
  qed
qed simp

lemma body_get_visible_raw:
  assumes "raw_env g" and "seq_wf st" and "last_seq st = high_seqno (ge_table g)"
    and "open_blocks st = Map.empty"
    and "control_of l = Some (CHR ''I'', m)" and "1 \<le> m" and "m \<le> high_seqno (ge_table g)"
  shows "if body_ok (high_seqno (ge_table g)) Map.empty (l # ls)
         then \<exists>st' p'. body_get g (l # ls) st p = Inr (st', p')
                \<and> sp_out p' = sp_out p @ concat (map (ge_outputfn g) (vis_lines (in_version st) Map.empty (l # ls)))
         else \<exists>e. body_get g (l # ls) st p = Inl e"
proof -
  have lt: "line_type l = CHR ''I''" "check_arg l = Inr ()" "strict_atous (drop 3 l) = Inr m"
    using assms(5) by (auto simp: control_of_Some)
  obtain st1 where st1: "seq_start m (CHR ''I'') st = Inr st1"
    using sq.start_iff [OF assms(2), of m "CHR ''I''"] assms by auto
  note eff = sq.start_effect [OF assms(2) st1]
  have bg: "body_get g (l # ls) st p = get_loop g ls st1 p"
    using lt st1 by (simp add: body_get_def)
  have ok: "body_ok (high_seqno (ge_table g)) Map.empty (l # ls) = body_ok (last_seq st1) (open_blocks st1) ls"
    and vis: "vis_lines (in_version st) Map.empty (l # ls) = vis_lines (in_version st1) (open_blocks st1) ls"
    using lt assms(3-7) eff by (auto simp: ctl_ok_def upd_def)
  have "case sq.shown st1 ls of
           Some out \<Rightarrow> \<exists>st' p'. get_loop g ls st1 p = Inr (st', p') \<and> sp_out p' = sp_out p @ concat (map (ge_outputfn g) out)
         | None \<Rightarrow> \<exists>e. get_loop g ls st1 p = Inl e"
    by (rule get_loop_shown) (use assms eff in auto)
  then show ?thesis
    using sq.shown_vis_lines [of st1 ls] eff unfolding bg ok vis by (auto split: if_splits)
qed

lemma body_get_visible:
  assumes "text_env g" and "seq_wf st" and "last_seq st = high_seqno (ge_table g)"
    and "open_blocks st = Map.empty" and "\<forall>x \<in> set (l # ls). plain_line x"
    and "control_of l = Some (CHR ''I'', m)" and "1 \<le> m" and "m \<le> high_seqno (ge_table g)"
  shows "if body_ok (high_seqno (ge_table g)) Map.empty (l # ls)
         then \<exists>st' p'. body_get g (l # ls) st p = Inr (st', p')
                \<and> sp_out p' = sp_out p @ unlines (vis_lines (in_version st) Map.empty (l # ls))
         else \<exists>e. body_get g (l # ls) st p = Inl e"
  using body_get_visible_raw [OF raw_text_env [OF assms(1)] assms(2-4,6-8), of ls p]
  unfolding output_text_lines [OF assms(1,5)] .

section \<open>What delta writes\<close>

definition ctl_line :: "char \<Rightarrow> nat \<Rightarrow> string" where
  "ctl_line c n = ctrl_A # c # CHR '' '' # show_nat n"

definition ctl_lines :: "diffstate \<Rightarrow> diffstate \<Rightarrow> nat \<Rightarrow> string list" where
  "ctl_lines p q n =
     (if p = q then []
      else (if p = DELETE \<or> p = INSERT then [ctl_line (CHR ''E'') n] else [])
           @ (if q = INSERT then [ctl_line (CHR ''I'') n]
              else if q = DELETE then [ctl_line (CHR ''D'') n] else []))"

lemma ctl_unlines: "ctl p q n = unlines (ctl_lines p q n)"
  by (simp add: ctl_def ctl_lines_def control_text_def ctl_line_def)

text \<open>The insertions at the front of a script, and the lines they write.\<close>

fun ins_run :: "nat \<Rightarrow> diffstate \<Rightarrow> act list \<Rightarrow> string list \<times> diffstate \<times> act list" where
  "ins_run n p (Ins x # as) =
     (case ins_run n INSERT as of (pre, p', as') \<Rightarrow> (ctl_lines p INSERT n @ x # pre, p', as'))"
| "ins_run n p as = ([], p, as)"

text \<open>The new body, from the old one and the script.\<close>

fun weave_out :: "nat \<Rightarrow> (nat \<Rightarrow> bool) \<Rightarrow> (nat \<rightharpoonup> char) \<Rightarrow> diffstate \<Rightarrow> act list \<Rightarrow> string list \<Rightarrow> string list" where
  "weave_out n inc op p acts [] =
     (case ins_run n p acts of (pre, p', acts') \<Rightarrow> pre @ ctl_lines p' (fst (script_step acts')) n)"
| "weave_out n inc op p acts (l # ls) =
     (if line_type l \<noteq> NUL then
        l # (case control_of l of None \<Rightarrow> weave_out n inc op p acts ls
             | Some (c, m) \<Rightarrow> weave_out n inc (upd c m op) p acts ls)
      else if visible inc op then
        (case ins_run n p acts of (pre, p', acts') \<Rightarrow>
          (case script_step acts' of (q, acts'') \<Rightarrow>
             pre @ ctl_lines p' q n @ l # weave_out n inc op q acts'' ls))
      else l # weave_out n inc op p acts ls)"

definition is_ins :: "act \<Rightarrow> bool" where
  "is_ins a \<longleftrightarrow> (case a of Ins x \<Rightarrow> True | _ \<Rightarrow> False)"

definition ins_count :: "act list \<Rightarrow> nat" where
  "ins_count acts = length (filter is_ins acts)"

definition del_count :: "act list \<Rightarrow> nat" where
  "del_count acts = length (filter (\<lambda>a. a = Del) acts)"

lemma act_count_simps [simp]:
  "ins_count [] = 0" "ins_count (Ins x # as) = Suc (ins_count as)" "ins_count (Keep # as) = ins_count as"
  "ins_count (Del # as) = ins_count as" "del_count [] = 0" "del_count (Ins x # as) = del_count as"
  "del_count (Keep # as) = del_count as" "del_count (Del # as) = Suc (del_count as)"
  by (simp_all add: ins_count_def del_count_def is_ins_def)

lemma ins_run_counts:
  assumes "ins_run n p acts = (pre, p', acts')"
  shows "ins_count acts = length (takeWhile is_ins acts) + ins_count acts'"
    and "del_count acts = del_count acts'" and "old_count acts = old_count acts'"
    and "acts' = dropWhile is_ins acts" and "acts' = [] \<or> \<not> is_ins (hd acts')"
  using assms
  by (induction n p acts arbitrary: pre rule: ins_run.induct) (auto simp: is_ins_def split: prod.splits)

lemma script_step_counts:
  assumes "acts = [] \<or> \<not> is_ins (hd acts)" and "script_step acts = (q, acts')"
  shows "old_count acts' = old_count acts - 1 \<and> ins_count acts' = ins_count acts
         \<and> del_count acts = (if q = DELETE then Suc (del_count acts') else del_count acts')"
proof (cases acts)
  case (Cons a as)
  then show ?thesis using assms by (cases a) (auto simp: is_ins_def)
qed (use assms in simp)

definition script_plain :: "nat \<Rightarrow> act list \<Rightarrow> bool" where
  "script_plain lm acts \<longleftrightarrow> (\<forall>x. Ins x \<in> set acts \<longrightarrow> plain_line x \<and> (lm = 0 \<or> length x < lm))"

lemma script_plain_tl: "script_plain lm acts \<Longrightarrow> script_plain lm (snd (script_step acts))"
  by (cases acts) (auto simp: script_plain_def)

lemma script_plain_drop: "script_plain lm acts \<Longrightarrow> script_plain lm (dropWhile P acts)"
  by (auto simp: script_plain_def dest: set_dropWhileD)

definition add_ins :: "nat \<Rightarrow> delta_result \<Rightarrow> delta_result" where
  "add_ins k r = r\<lparr>dr_inserted := dr_inserted r + k\<rparr>"

definition count_old :: "diffstate \<Rightarrow> delta_result \<Rightarrow> delta_result" where
  "count_old q r = (if q = DELETE then r\<lparr>dr_deleted := dr_deleted r + 1\<rparr>
                    else r\<lparr>dr_unchanged := dr_unchanged r + 1\<rparr>)"

lemma line_loop_script:
  assumes "sim ds acts" and "script_plain lm acts" and "ins_run n (ds_state ds) acts = (pre, p', acts')"
  shows "\<exists>ds'. line_loop lm n ds r out =
             Inr (ds', count_old (fst (script_step acts')) (add_ins (length (takeWhile is_ins acts)) r),
                  out @ unlines (pre @ ctl_lines p' (fst (script_step acts')) n))
           \<and> sim ds' (snd (script_step acts')) \<and> ds_state ds' = fst (script_step acts')"
  using assms
proof (induction acts arbitrary: ds r out pre)
  case Nil
  obtain ds' where "process out n ds = Inr (END, ds', out @ ctl (ds_state ds) END n)" "sim ds' []" "ds_state ds' = END"
    using process_step [OF Nil.prems(1), of out n] by auto
  then show ?case
    using Nil.prems(3) by (simp add: line_loop.simps [of lm n ds] count_old_def add_ins_def ctl_unlines)
next
  case (Cons a as)
  show ?case
  proof (cases a)
    case (Ins x)
    obtain ds1 where p1: "process out n ds = Inr (INSERT, ds1, out @ ctl (ds_state ds) INSERT n)" and s1: "sim ds1 as"
        and st1: "ds_state ds1 = INSERT" and lb: "ds_linebuf ds1 = ins_line x"
      using process_step [OF Cons.prems(1), of out n] Ins by auto
    have x: "plain_line x" "line_fits lm (x @ [newline])" and as: "script_plain lm as"
      using Cons.prems(2) Ins by (auto simp: script_plain_def line_fits_def)
    obtain pre1 where run: "ins_run n INSERT as = (pre1, p', acts')" and pre: "pre = ctl_lines (ds_state ds) INSERT n @ x # pre1"
      using Cons.prems(3) Ins by (auto split: prod.splits)
    let ?r = "r\<lparr>dr_inserted := dr_inserted r + 1\<rparr>" and ?out = "(out @ ctl (ds_state ds) INSERT n) @ x @ [newline]"
    have step: "line_loop lm n ds r out = line_loop lm n ds1 ?r ?out"
      using p1 get_insert_line_ins [OF st1 lb x(1)] x(2) by (simp add: line_loop.simps [of lm n ds])
    have cnt: "add_ins (length (takeWhile is_ins as)) ?r = add_ins (length (takeWhile is_ins (a # as))) r"
      using Ins by (simp add: add_ins_def is_ins_def)
    show ?thesis
      using Cons.IH [OF s1 as, of pre1 ?r ?out] run st1 pre cnt unfolding step by (simp add: ctl_unlines)
  next
    case Keep
    obtain ds' where "process out n ds = Inr (NOCHANGE, ds', out @ ctl (ds_state ds) NOCHANGE n)" "sim ds' as" "ds_state ds' = NOCHANGE"
      using process_step [OF Cons.prems(1), of out n] Keep by auto
    then show ?thesis
      using Cons.prems(3) Keep
      by (auto simp: line_loop.simps [of lm n ds] count_old_def add_ins_def ctl_unlines is_ins_def)
  next
    case Del
    obtain ds' where "process out n ds = Inr (DELETE, ds', out @ ctl (ds_state ds) DELETE n)" "sim ds' as" "ds_state ds' = DELETE"
      using process_step [OF Cons.prems(1), of out n] Del by auto
    then show ?thesis
      using Cons.prems(3) Del
      by (auto simp: line_loop.simps [of lm n ds] count_old_def add_ins_def ctl_unlines is_ins_def)
  qed
qed

lemma tail_loop_script:
  assumes "sim ds acts" and "script_plain lm acts" and "ins_run n (ds_state ds) acts = (pre, p', acts')"
  shows "tail_loop lm n ds r out =
             Inr (add_ins (length (takeWhile is_ins acts)) r,
                  out @ unlines (pre @ ctl_lines p' (fst (script_step acts')) n))"
  using assms
proof (induction acts arbitrary: ds r out pre)
  case Nil
  obtain ds' where "process out n ds = Inr (END, ds', out @ ctl (ds_state ds) END n)"
    using process_step [OF Nil.prems(1), of out n] by auto
  then show ?case
    using Nil.prems(3) by (simp add: tail_loop.simps [of lm n ds] add_ins_def ctl_unlines)
next
  case (Cons a as)
  show ?case
  proof (cases "is_ins a")
    case True
    then obtain x where Ins: "a = Ins x" by (auto simp: is_ins_def split: act.splits)
    obtain ds1 where p1: "process out n ds = Inr (INSERT, ds1, out @ ctl (ds_state ds) INSERT n)" and s1: "sim ds1 as"
        and st1: "ds_state ds1 = INSERT" and lb: "ds_linebuf ds1 = ins_line x"
      using process_step [OF Cons.prems(1), of out n] Ins by auto
    have x: "plain_line x" "line_fits lm (x @ [newline])" and as: "script_plain lm as"
      using Cons.prems(2) Ins by (auto simp: script_plain_def line_fits_def)
    obtain pre1 where run: "ins_run n INSERT as = (pre1, p', acts')" and pre: "pre = ctl_lines (ds_state ds) INSERT n @ x # pre1"
      using Cons.prems(3) Ins by (auto split: prod.splits)
    let ?r = "r\<lparr>dr_inserted := dr_inserted r + 1\<rparr>" and ?out = "(out @ ctl (ds_state ds) INSERT n) @ x @ [newline]"
    have step: "tail_loop lm n ds r out = tail_loop lm n ds1 ?r ?out"
      using p1 get_insert_line_ins [OF st1 lb x(1)] x(2) by (simp add: tail_loop.simps [of lm n ds])
    have cnt: "add_ins (length (takeWhile is_ins as)) ?r = add_ins (length (takeWhile is_ins (a # as))) r"
      using Ins by (simp add: add_ins_def is_ins_def)
    show ?thesis
      using Cons.IH [OF s1 as, of pre1 ?r ?out] run st1 pre cnt unfolding step by (simp add: ctl_unlines)
  next
    case False
    then have k: "act_kind a \<noteq> INSERT" "ins_run n (ds_state ds) (a # as) = ([], ds_state ds, a # as)"
      by (cases a; simp add: is_ins_def)+
    obtain ds' where "process out n ds = Inr (act_kind a, ds', out @ ctl (ds_state ds) (act_kind a) n)"
      using process_step [OF Cons.prems(1), of out n] by auto
    then show ?thesis
      using Cons.prems(3) False k by (auto simp: tail_loop.simps [of lm n ds] add_ins_def ctl_unlines)
  qed
qed

definition delta_counts :: "act list \<Rightarrow> nat \<Rightarrow> delta_result \<Rightarrow> delta_result" where
  "delta_counts acts v r =
     \<lparr>dr_inserted = dr_inserted r + ins_count acts, dr_deleted = dr_deleted r + del_count acts,
      dr_unchanged = dr_unchanged r + (v - del_count acts)\<rparr>"

lemma del_count_le: "del_count acts \<le> old_count acts"
  by (induction acts) (auto split: act.splits simp: del_count_def)

lemma delta_loop_weave:
  assumes "seq_wf st" and "last_seq st = high" and "body_ok high (open_blocks st) ls"
    and "final_open (open_blocks st) ls = Map.empty"
    and "sim ds acts" and "script_plain lm acts"
    and "old_count acts \<le> length (vis_lines (in_version st) (open_blocks st) ls)"
  shows "delta_loop lm high n ls st ds r out =
           Inr (delta_counts acts (length (vis_lines (in_version st) (open_blocks st) ls)) r,
                out @ unlines (weave_out n (in_version st) (open_blocks st) (ds_state ds) acts ls))"
  using assms
proof (induction ls arbitrary: st ds acts r out)
  case Nil
  have nv: "\<not> include_line st"
    using Nil.prems(4) sq.shows_iff [OF Nil.prems(1)] by (auto simp: visible_def)
  obtain pre p' acts' where run: "ins_run n (ds_state ds) acts = (pre, p', acts')" by (metis prod_cases3)
  have "old_count acts = 0" using Nil.prems(7) by simp
  then have "takeWhile is_ins acts = acts" "del_count acts = 0"
    using del_count_le [of acts]
    by (induction acts) (auto split: act.splits simp: is_ins_def)
  moreover have "filter is_ins acts = acts"
    using \<open>takeWhile is_ins acts = acts\<close> by (metis filter_True takeWhile_eq_all_conv)
  ultimately have "add_ins (length (takeWhile is_ins acts)) r = delta_counts acts 0 r"
    unfolding delta_counts_def add_ins_def ins_count_def by (cases r) (simp only: delta_result.simps; simp)
  then show ?case
    using tail_loop_script [OF Nil.prems(5,6) run, of r out] run nv by simp
next
  case (Cons l ls)
  show ?case
  proof (cases "line_type l = NUL")
    case False
    then obtain c m where cm: "control_of l = Some (c, m)" "ctl_ok high (open_blocks st) c m"
      using Cons.prems(3) by (auto split: option.splits)
    then obtain st' where st': "sq.control c m st = Inr st'"
      using sq.control_iff [OF Cons.prems(1), of m c] Cons.prems(2) by (auto simp: ctl_ok_def)
    note eff = sq.control_effect [OF Cons.prems(1) st']
    have ih: "delta_loop lm high n ls st' ds r (out @ l @ [newline]) =
           Inr (delta_counts acts (length (vis_lines (in_version st') (open_blocks st') ls)) r,
                (out @ l @ [newline]) @ unlines (weave_out n (in_version st') (open_blocks st') (ds_state ds) acts ls))"
      by (rule Cons.IH) (use Cons.prems eff cm False in auto)
    have l: "strict_atous (drop 3 l) = Inr m" "line_type l = c" using cm(1) by (simp_all add: control_of_Some)
    show ?thesis
      using False cm l st' eff ih Cons.prems(2) by (simp add: apply_control_sq ctl_ok_def)
  next
    case txt0: True
    show ?thesis
    proof (cases "include_line st")
      case False
      then have nv: "\<not> visible (in_version st) (open_blocks st)"
        using sq.shows_iff [OF Cons.prems(1)] by simp
      have "delta_loop lm high n ls st ds r (out @ l @ [newline]) =
           Inr (delta_counts acts (length (vis_lines (in_version st) (open_blocks st) ls)) r,
                (out @ l @ [newline]) @ unlines (weave_out n (in_version st) (open_blocks st) (ds_state ds) acts ls))"
        by (rule Cons.IH) (use Cons.prems nv txt0 in auto)
      then show ?thesis using txt0 False nv by simp
    next
      case True
      then have v: "visible (in_version st) (open_blocks st)"
        using sq.shows_iff [OF Cons.prems(1)] by simp
      obtain pre p' acts' where run: "ins_run n (ds_state ds) acts = (pre, p', acts')" by (metis prod_cases3)
      obtain q acts'' where qs: "script_step acts' = (q, acts'')" by fastforce
      note cnt = ins_run_counts [OF run]
      obtain ds' where ll: "line_loop lm n ds r out =
             Inr (ds', count_old q (add_ins (length (takeWhile is_ins acts)) r), out @ unlines (pre @ ctl_lines p' q n))"
          and s': "sim ds' acts''" and k: "ds_state ds' = q"
        using line_loop_script [OF Cons.prems(5,6) run, of r out] qs by auto
      have pl: "script_plain lm acts''"
        using script_plain_tl [OF script_plain_drop [OF Cons.prems(6), of is_ins]] cnt(4) qs by simp
      have oc: "old_count acts'' = old_count acts - 1"
        "q = DELETE \<longleftrightarrow> del_count acts = Suc (del_count acts'')"
        "q \<noteq> DELETE \<longleftrightarrow> del_count acts = del_count acts''"
        "ins_count acts = length (takeWhile is_ins acts) + ins_count acts''"
        using script_step_counts [OF cnt(5) qs] cnt(1-3) by auto
      let ?r = "count_old q (add_ins (length (takeWhile is_ins acts)) r)"
      let ?v = "length (vis_lines (in_version st) (open_blocks st) ls)"
      have bound: "old_count acts'' \<le> ?v" using Cons.prems(7) txt0 v oc(1) by simp
      have "delta_loop lm high n ls st ds' ?r ((out @ unlines (pre @ ctl_lines p' q n)) @ l @ [newline]) =
           Inr (delta_counts acts'' ?v ?r,
                ((out @ unlines (pre @ ctl_lines p' q n)) @ l @ [newline])
                 @ unlines (weave_out n (in_version st) (open_blocks st) (ds_state ds') acts'' ls))"
        by (rule Cons.IH) (use Cons.prems txt0 s' pl bound in auto)
      moreover have "delta_counts acts'' ?v ?r = delta_counts acts (Suc ?v) r"
        using oc(2-4) bound del_count_le [of acts'']
        by (auto simp: delta_counts_def count_old_def add_ins_def)
      ultimately show ?thesis
        using txt0 True v ll run qs k by simp
    qed
  qed
qed

section \<open>What the new body means\<close>

definition below :: "nat \<Rightarrow> (nat \<rightharpoonup> char) \<Rightarrow> bool" where
  "below n op \<longleftrightarrow> (\<forall>j. op j \<noteq> None \<longrightarrow> j < n)"

lemma belowD: "below n op \<Longrightarrow> op n = None"
  by (auto simp: below_def)

lemma below_upd: "below n op \<Longrightarrow> m < n \<Longrightarrow> below n (upd c m op)"
  by (auto simp: below_def upd_def)

text \<open>The open blocks of the new body, when \<open>diff\<close> is in state \<open>q\<close>.\<close>

definition opq :: "diffstate \<Rightarrow> nat \<Rightarrow> (nat \<rightharpoonup> char) \<Rightarrow> (nat \<rightharpoonup> char)" where
  "opq q n op = (if q = DELETE then op(n \<mapsto> CHR ''D'') else if q = INSERT then op(n \<mapsto> CHR ''I'') else op)"

lemma opq_simps [simp]:
  "opq NOCHANGE n op = op" "opq END n op = op" "opq START n op = op"
  "opq DELETE n op = op(n \<mapsto> CHR ''D'')" "opq INSERT n op = op(n \<mapsto> CHR ''I'')"
  by (simp_all add: opq_def)

lemma upd_opq: "m \<noteq> n \<Longrightarrow> upd c m (opq p n op) = opq p n (upd c m op)"
  by (auto simp: upd_def opq_def fun_upd_twist)

lemma visible_insert_new: "0 < n \<Longrightarrow> below n op \<Longrightarrow> visible inc (op(n \<mapsto> CHR ''I'')) \<longleftrightarrow> inc n"
proof
  assume n: "0 < n" "below n op" and "visible inc (op(n \<mapsto> CHR ''I''))"
  then obtain i where i: "(op(n \<mapsto> CHR ''I'')) i = Some (CHR ''I'')" "inc i"
      "\<forall>j. (op(n \<mapsto> CHR ''I'')) j = Some (CHR ''I'') \<longrightarrow> j \<le> i"
    unfolding visible_def by blast
  then have "n \<le> i" by simp
  moreover have "i \<le> n" using i(1) n(2) by (auto simp: below_def split: if_splits intro: less_imp_le)
  ultimately show "inc n" using i(2) by simp
next
  assume n: "0 < n" "below n op" and inc: "inc n"
  have b: "op j = Some c \<Longrightarrow> j < n" for j c using n(2) by (auto simp: below_def)
  show "visible inc (op(n \<mapsto> CHR ''I''))"
    unfolding visible_def
    by (rule exI [of _ n]) (use n inc b in \<open>auto intro: less_imp_le\<close>)
qed

lemma visible_delete_new:
  assumes "below n op"
  shows "visible inc (op(n \<mapsto> CHR ''D'')) \<longleftrightarrow> \<not> inc n \<and> visible inc op"
proof -
  have I: "(op(n \<mapsto> CHR ''D'')) j = Some (CHR ''I'') \<longleftrightarrow> op j = Some (CHR ''I'')" for j
    using belowD [OF assms] by auto
  have D: "(\<forall>j. (op(n \<mapsto> CHR ''D'')) j = Some (CHR ''D'') \<and> inc j \<longrightarrow> j < i)
      \<longleftrightarrow> (inc n \<longrightarrow> n < i) \<and> (\<forall>j. op j = Some (CHR ''D'') \<and> inc j \<longrightarrow> j < i)" for i
    using belowD [OF assms] by auto
  have "op i = Some (CHR ''I'') \<Longrightarrow> i < n" for i using assms by (auto simp: below_def)
  then show ?thesis unfolding visible_def I D by (meson less_asym)
qed

lemma visible_agree:
  assumes "below n op" and "\<And>j. j \<noteq> n \<Longrightarrow> inc' j = inc j"
  shows "visible inc' op = visible inc op"
proof -
  have *: "op j = Some c \<Longrightarrow> inc' j = inc j" for j c using assms belowD [OF assms(1)] by (cases "j = n") auto
  then have "(\<forall>j. op j = Some (CHR ''D'') \<and> inc' j \<longrightarrow> j < i) \<longleftrightarrow> (\<forall>j. op j = Some (CHR ''D'') \<and> inc j \<longrightarrow> j < i)" for i
    by blast
  then show ?thesis unfolding visible_def using * by blast
qed

lemma line_type_ctl_line [simp]: "line_type (ctl_line c n) = c"
  by (simp add: line_type_def ctl_line_def)

lemma control_of_ctl_line [simp]: "n \<le> 65535 \<Longrightarrow> control_of (ctl_line c n) = Some (c, n)"
  by (simp add: control_of_Some) (simp add: ctl_line_def check_arg_def numeral_2_eq_2 numeral_3_eq_3)

lemma vis_lines_ctl_lines:
  assumes "below n op" and "n \<le> 65535"
  shows "vis_lines inc (opq p n op) (ctl_lines p q n @ rest) = vis_lines inc (opq q n op) rest"
  using assms belowD [OF assms(1)] by (cases p; cases q) (auto simp: ctl_lines_def upd_def fun_upd_idem)

text \<open>The texts that the front of a script inserts.\<close>

definition ins_texts :: "act list \<Rightarrow> string list" where
  "ins_texts acts = map (\<lambda>a. case a of Ins x \<Rightarrow> x | _ \<Rightarrow> []) (takeWhile is_ins acts)"

lemma ins_texts_simps [simp]:
  "ins_texts [] = []" "ins_texts (Ins x # as) = x # ins_texts as" "ins_texts (Keep # as) = []" "ins_texts (Del # as) = []"
  by (simp_all add: ins_texts_def is_ins_def)

definition script_text :: "act list \<Rightarrow> bool" where
  "script_text acts \<longleftrightarrow> (\<forall>x. Ins x \<in> set acts \<longrightarrow> line_type x = NUL)"

lemma vis_lines_ins_run:
  assumes "below n op" and "0 < n" and "n \<le> 65535" and "script_text acts" and "ins_run n p acts = (pre, p', acts')"
  shows "vis_lines inc (opq p n op) (pre @ rest)
         = (if inc n then ins_texts acts else []) @ vis_lines inc (opq p' n op) rest"
  using assms(4,5)
proof (induction acts arbitrary: p pre)
  case (Cons a as)
  show ?case
  proof (cases "is_ins a")
    case True
    then obtain x where a: "a = Ins x" by (auto simp: is_ins_def split: act.splits)
    obtain pre1 where run: "ins_run n INSERT as = (pre1, p', acts')" and pre: "pre = ctl_lines p INSERT n @ x # pre1"
      using Cons.prems(2) a by (auto split: prod.splits)
    have x: "line_type x = NUL" "script_text as" using Cons.prems(1) a by (auto simp: script_text_def)
    have "vis_lines inc (opq p n op) (pre @ rest) = vis_lines inc (opq INSERT n op) (x # pre1 @ rest)"
      using vis_lines_ctl_lines [OF assms(1) assms(3), of inc p INSERT] pre by simp
    also have "\<dots> = (if inc n then [x] else []) @ vis_lines inc (opq INSERT n op) (pre1 @ rest)"
      using x(1) visible_insert_new [OF assms(2,1), of inc] by simp
    finally show ?thesis
      using Cons.IH [OF x(2) run] a by (simp del: opq_simps)
  next
    case False
    then show ?thesis using Cons.prems by (cases a) (auto simp: is_ins_def)
  qed
qed simp

text \<open>The new version of a list of lines.\<close>

fun apply_script :: "act list \<Rightarrow> string list \<Rightarrow> string list" where
  "apply_script [] vs = vs"
| "apply_script (Ins x # as) vs = x # apply_script as vs"
| "apply_script (Keep # as) (v # vs) = v # apply_script as vs"
| "apply_script (Del # as) (v # vs) = apply_script as vs"
| "apply_script (a # as) [] = []"

lemma apply_script_ins:
  "ins_run n p acts = (pre, p', acts') \<Longrightarrow> apply_script acts vs = ins_texts acts @ apply_script acts' vs"
  by (induction n p acts arbitrary: pre rule: ins_run.induct) (auto split: prod.splits)

lemma ins_run_state:
  assumes "ins_run n p acts = (pre, p', acts')"
  shows "fst (script_step acts') \<noteq> INSERT" and "script_text acts \<Longrightarrow> script_text (snd (script_step acts'))"
proof -
  show "fst (script_step acts') \<noteq> INSERT"
    using ins_run_counts(5) [OF assms] by (cases acts'; cases "hd acts'") (auto simp: is_ins_def)
  assume "script_text acts"
  then have "script_text acts'"
    using ins_run_counts(4) [OF assms] by (auto simp: script_text_def dest: set_dropWhileD)
  then show "script_text (snd (script_step acts'))" by (cases acts') (auto simp: script_text_def)
qed

text \<open>
  With the new delta in the version, the new body shows the result of the script; without it,
  it shows what the old body shows.
\<close>

lemma weave_out_new:
  assumes "0 < n" and "n \<le> 65535" and "high < n" and "inc' n" and agree: "\<And>j. j \<noteq> n \<Longrightarrow> inc' j = inc j"
    and "below n op" and "body_ok high op ls" and "script_text acts" and "p \<noteq> INSERT"
    and "old_count acts \<le> length (vis_lines inc op ls)"
  shows "vis_lines inc' (opq p n op) (weave_out n inc op p acts ls) = apply_script acts (vis_lines inc op ls)"
  using assms(6-10)
proof (induction ls arbitrary: op p acts)
  case Nil
  obtain pre p' acts' where run: "ins_run n p acts = (pre, p', acts')" by (metis prod_cases3)
  have "old_count acts' = 0" using ins_run_counts(3) [OF run] Nil.prems(5) by simp
  then have "acts' = []"
    using ins_run_counts(5) [OF run] by (cases acts'; cases "hd acts'") (auto simp: is_ins_def)
  then show ?case
    using run vis_lines_ins_run [OF Nil.prems(1) assms(1,2) Nil.prems(3) run, of inc' "ctl_lines p' END n"]
      vis_lines_ctl_lines [OF Nil.prems(1) assms(2), of inc' p' END "[]"]
      apply_script_ins [OF run, of "[]"] assms(4) by simp
next
  case (Cons l ls)
  have vis_old: "visible inc' op = visible inc op"
    by (rule visible_agree [OF Cons.prems(1)]) (rule agree)
  show ?case
  proof (cases "line_type l = NUL")
    case False
    then obtain c m where cm: "control_of l = Some (c, m)" "ctl_ok high op c m" "body_ok high (upd c m op) ls"
      using Cons.prems(2) by (auto split: option.splits)
    then have m: "m < n" using assms(3) by (auto simp: ctl_ok_def)
    have "vis_lines inc' (opq p n (upd c m op)) (weave_out n inc (upd c m op) p acts ls)
          = apply_script acts (vis_lines inc (upd c m op) ls)"
      by (rule Cons.IH) (use Cons.prems cm m False in \<open>auto intro: below_upd\<close>)
    then show ?thesis using False cm m by (simp add: upd_opq)
  next
    case txt0: True
    show ?thesis
    proof (cases "visible inc op")
      case False
      have "\<not> visible inc' (opq p n op)"
        using False vis_old visible_delete_new [OF Cons.prems(1), of inc'] assms(4) Cons.prems(4)
        by (cases p) auto
      then show ?thesis using txt0 False Cons.prems Cons.IH [of op acts p] by simp
    next
      case True
      obtain pre p' acts' where run: "ins_run n p acts = (pre, p', acts')" by (metis prod_cases3)
      obtain q acts'' where qs: "script_step acts' = (q, acts'')" by fastforce
      let ?rest = "l # weave_out n inc op q acts'' ls"
      have q: "q \<noteq> INSERT" and tx: "script_text acts''"
        using ins_run_state [OF run] Cons.prems(3) qs by auto
      have oc: "old_count acts'' \<le> length (vis_lines inc op ls)"
        using script_step_counts [OF ins_run_counts(5) [OF run] qs] ins_run_counts(3) [OF run]
          Cons.prems(5) txt0 True by simp
      have ih: "vis_lines inc' (opq q n op) (weave_out n inc op q acts'' ls) = apply_script acts'' (vis_lines inc op ls)"
        by (rule Cons.IH) (use Cons.prems txt0 tx q oc in auto)
      have line: "visible inc' (opq q n op) \<longleftrightarrow> q \<noteq> DELETE"
        using True vis_old visible_delete_new [OF Cons.prems(1), of inc'] assms(4) q by (cases q) auto
      have "vis_lines inc' (opq p n op) (weave_out n inc op p acts (l # ls))
            = ins_texts acts @ vis_lines inc' (opq q n op) ?rest"
        using txt0 True run qs assms(4) vis_lines_ins_run [OF Cons.prems(1) assms(1,2) Cons.prems(3) run]
          vis_lines_ctl_lines [OF Cons.prems(1) assms(2)] by simp
      also have "\<dots> = ins_texts acts @ apply_script acts' (l # vis_lines inc op ls)"
        using txt0 line ih qs q by (cases acts'; cases "hd acts'") auto
      also have "\<dots> = apply_script acts (vis_lines inc op (l # ls))"
        using apply_script_ins [OF run] txt0 True by simp
      finally show ?thesis .
    qed
  qed
qed

lemma weave_out_old:
  assumes "0 < n" and "n \<le> 65535" and "high < n" and "\<not> inc' n"
    and "below n op" and "body_ok high op ls" and "script_text acts" and "p \<noteq> INSERT"
  shows "vis_lines inc' (opq p n op) (weave_out n inc op p acts ls) = vis_lines inc' op ls"
  using assms(5-8)
proof (induction ls arbitrary: op p acts)
  case Nil
  obtain pre p' acts' where run: "ins_run n p acts = (pre, p', acts')" by (metis prod_cases3)
  then show ?case
    using vis_lines_ins_run [OF Nil.prems(1) assms(1,2) Nil.prems(3) run, of inc']
      vis_lines_ctl_lines [OF Nil.prems(1) assms(2), of inc' p' _ "[]"] assms(4) by simp
next
  case (Cons l ls)
  have same: "q \<noteq> INSERT \<Longrightarrow> visible inc' (opq q n op) = visible inc' op" for q
    using visible_delete_new [OF Cons.prems(1), of inc'] assms(4) by (cases q) auto
  show ?case
  proof (cases "line_type l = NUL")
    case False
    then obtain c m where cm: "control_of l = Some (c, m)" "ctl_ok high op c m" "body_ok high (upd c m op) ls"
      using Cons.prems(2) by (auto split: option.splits)
    then have m: "m < n" using assms(3) by (auto simp: ctl_ok_def)
    have "vis_lines inc' (opq p n (upd c m op)) (weave_out n inc (upd c m op) p acts ls) = vis_lines inc' (upd c m op) ls"
      by (rule Cons.IH) (use Cons.prems cm m in \<open>auto intro: below_upd\<close>)
    then show ?thesis using False cm m by (simp add: upd_opq)
  next
    case txt0: True
    show ?thesis
    proof (cases "visible inc op")
      case False
      then show ?thesis using txt0 same Cons.prems Cons.IH [of op acts p] by simp
    next
      case True
      obtain pre p' acts' where run: "ins_run n p acts = (pre, p', acts')" by (metis prod_cases3)
      obtain q acts'' where qs: "script_step acts' = (q, acts'')" by fastforce
      have q: "q \<noteq> INSERT" and tx: "script_text acts''"
        using ins_run_state [OF run] Cons.prems(3) qs by auto
      have ih: "vis_lines inc' (opq q n op) (weave_out n inc op q acts'' ls) = vis_lines inc' op ls"
        by (rule Cons.IH) (use Cons.prems txt0 tx q in auto)
      show ?thesis
        using txt0 True run qs assms(4) ih same [OF q] vis_lines_ins_run [OF Cons.prems(1) assms(1,2) Cons.prems(3) run, of inc']
          vis_lines_ctl_lines [OF Cons.prems(1) assms(2), of inc' p' q] by simp
    qed
  qed
qed

section \<open>The new body is well formed\<close>

lemma body_ok_append: "body_ok lim op (xs @ ys) \<longleftrightarrow> body_ok lim op xs \<and> body_ok lim (final_open op xs) ys"
  by (induction xs arbitrary: op) (auto split: option.splits)

lemma final_open_append: "final_open op (xs @ ys) = final_open (final_open op xs) ys"
  by (induction xs arbitrary: op) (auto split: option.splits)

lemma ctl_lines_ok:
  assumes "below n op" and "1 \<le> n" and "n \<le> 65535"
  shows "body_ok n (opq p n op) (ctl_lines p q n)" and "final_open (opq p n op) (ctl_lines p q n) = opq q n op"
  using assms belowD [OF assms(1)]
  by (cases p; cases q; auto simp: ctl_lines_def upd_def ctl_ok_def fun_upd_idem)+

lemma ins_run_ok:
  assumes "below n op" and "1 \<le> n" and "n \<le> 65535" and "script_text acts" and "ins_run n p acts = (pre, p', acts')"
  shows "body_ok n (opq p n op) pre \<and> final_open (opq p n op) pre = opq p' n op"
  using assms(4,5)
proof (induction acts arbitrary: p pre)
  case (Cons a as)
  show ?case
  proof (cases "is_ins a")
    case True
    then obtain x where a: "a = Ins x" by (auto simp: is_ins_def split: act.splits)
    obtain pre1 where run: "ins_run n INSERT as = (pre1, p', acts')" and pre: "pre = ctl_lines p INSERT n @ x # pre1"
      using Cons.prems(2) a by (auto split: prod.splits)
    have x: "line_type x = NUL" "script_text as" using Cons.prems(1) a by (auto simp: script_text_def)
    show ?thesis
      using Cons.IH [OF x(2) run] x(1) ctl_lines_ok [OF assms(1-3), of p INSERT] pre
      by (simp add: body_ok_append final_open_append del: opq_simps)
  next
    case False
    then show ?thesis using Cons.prems by (cases a) (auto simp: is_ins_def)
  qed
qed simp

lemma ctl_ok_opq: "ctl_ok high op c m \<Longrightarrow> high < n \<Longrightarrow> ctl_ok n (opq p n op) c m"
  by (cases p) (auto simp: ctl_ok_def)

lemma weave_out_ok:
  assumes "1 \<le> n" and "n \<le> 65535" and "high < n"
    and "below n op" and "body_ok high op ls" and "script_text acts" and "p \<noteq> INSERT"
    and "old_count acts \<le> length (vis_lines inc op ls)"
  shows "body_ok n (opq p n op) (weave_out n inc op p acts ls)
         \<and> final_open (opq p n op) (weave_out n inc op p acts ls) = final_open op ls"
  using assms(4-8)
proof (induction ls arbitrary: op p acts)
  case Nil
  obtain pre p' acts' where run: "ins_run n p acts = (pre, p', acts')" by (metis prod_cases3)
  have "old_count acts' = 0" using ins_run_counts(3) [OF run] Nil.prems(5) by simp
  then have "acts' = []"
    using ins_run_counts(5) [OF run] by (cases acts'; cases "hd acts'") (auto simp: is_ins_def)
  then show ?case
    using run ins_run_ok [OF Nil.prems(1) assms(1,2) Nil.prems(3) run] ctl_lines_ok [OF Nil.prems(1) assms(1,2), of p' END]
    by (simp add: body_ok_append final_open_append)
next
  case (Cons l ls)
  show ?case
  proof (cases "line_type l = NUL")
    case False
    then obtain c m where cm: "control_of l = Some (c, m)" "ctl_ok high op c m" "body_ok high (upd c m op) ls"
      using Cons.prems(2) by (auto split: option.splits)
    then have m: "m < n" using assms(3) by (auto simp: ctl_ok_def)
    have "body_ok n (opq p n (upd c m op)) (weave_out n inc (upd c m op) p acts ls)
         \<and> final_open (opq p n (upd c m op)) (weave_out n inc (upd c m op) p acts ls) = final_open (upd c m op) ls"
      by (rule Cons.IH) (use Cons.prems cm m False in \<open>auto intro: below_upd\<close>)
    then show ?thesis using False cm m ctl_ok_opq [OF cm(2) assms(3), of p] by (simp add: upd_opq)
  next
    case txt0: True
    show ?thesis
    proof (cases "visible inc op")
      case False
      then show ?thesis using txt0 Cons.prems Cons.IH [of op acts p] by simp
    next
      case True
      obtain pre p' acts' where run: "ins_run n p acts = (pre, p', acts')" by (metis prod_cases3)
      obtain q acts'' where qs: "script_step acts' = (q, acts'')" by fastforce
      have q: "q \<noteq> INSERT" and tx: "script_text acts''"
        using ins_run_state [OF run] Cons.prems(3) qs by auto
      have oc: "old_count acts'' \<le> length (vis_lines inc op ls)"
        using script_step_counts [OF ins_run_counts(5) [OF run] qs] ins_run_counts(3) [OF run]
          Cons.prems(5) txt0 True by simp
      have "body_ok n (opq q n op) (weave_out n inc op q acts'' ls)
         \<and> final_open (opq q n op) (weave_out n inc op q acts'' ls) = final_open op ls"
        by (rule Cons.IH) (use Cons.prems txt0 tx q oc in auto)
      then show ?thesis
        using txt0 True run qs ins_run_ok [OF Cons.prems(1) assms(1,2) Cons.prems(3) run]
          ctl_lines_ok [OF Cons.prems(1) assms(1,2), of p' q]
        by (simp add: body_ok_append final_open_append)
    qed
  qed
qed

lemma plain_ctl_line: "c \<noteq> newline \<Longrightarrow> c \<noteq> NUL \<Longrightarrow> plain_line (ctl_line c n)"
  by (auto simp: plain_line_def ctl_line_def isdigit_def dest!: show_nat_digits)

lemma plain_ctl_lines: "x \<in> set (ctl_lines p q n) \<Longrightarrow> plain_line x"
  by (auto simp: ctl_lines_def plain_ctl_line split: if_splits)

lemma plain_ins_run:
  assumes "script_plain lm acts" and "ins_run n p acts = (pre, p', acts')" and "x \<in> set pre"
  shows "plain_line x"
  using assms
  by (induction n p acts arbitrary: pre rule: ins_run.induct)
     (auto simp: script_plain_def dest: plain_ctl_lines split: prod.splits)

lemma plain_weave_out:
  assumes "script_plain lm acts" and "\<forall>l \<in> set ls. plain_line l" and "x \<in> set (weave_out n inc op p acts ls)"
  shows "plain_line x"
  using assms
proof (induction ls arbitrary: op p acts)
  case Nil
  obtain pre p' acts' where run: "ins_run n p acts = (pre, p', acts')" by (metis prod_cases3)
  then show ?case
    using Nil.prems(3) plain_ins_run [OF Nil.prems(1) run, of x] plain_ctl_lines by auto
next
  case (Cons l ls)
  obtain pre p' acts' where run: "ins_run n p acts = (pre, p', acts')" by (metis prod_cases3)
  obtain q acts'' where qs: "script_step acts' = (q, acts'')" by fastforce
  have "script_plain lm acts''"
    using script_plain_tl [OF script_plain_drop [OF Cons.prems(1), of is_ins]] ins_run_counts(4) [OF run] qs by simp
  then show ?case
    using Cons.prems Cons.IH [of acts] Cons.IH [of acts''] run qs plain_ins_run [OF Cons.prems(1) run, of x] plain_ctl_lines
    by (auto split: if_splits option.splits)
qed

section \<open>diff\<close>

text \<open>A list of hunks that describes how the lines \<open>V\<close> become the lines \<open>N\<close>.\<close>

fun describes :: "hunk list \<Rightarrow> string list \<Rightarrow> string list \<Rightarrow> bool" where
  "describes [] V N \<longleftrightarrow> V = N"
| "describes (h # hs) V N \<longleftrightarrow>
     h_keep h \<le> length V \<and> h_keep h \<le> length N \<and> take (h_keep h) V = take (h_keep h) N
     \<and> take (length (h_dels h)) (drop (h_keep h) V) = h_dels h
     \<and> take (length (h_adds h)) (drop (h_keep h) N) = h_adds h
     \<and> describes hs (drop (h_keep h + length (h_dels h)) V) (drop (h_keep h + length (h_adds h)) N)"

text \<open>
  What \<open>diff\<close> is documented to do: print, in the normal format, hunks that describe the change.
\<close>

definition normal_diff :: "(string list \<Rightarrow> string list \<Rightarrow> string list) \<Rightarrow> bool" where
  "normal_diff differ \<longleftrightarrow> (\<forall>V N. \<exists>hs. hunks_ok True hs \<and> describes hs V N \<and> differ V N = render 0 0 hs)"

lemma apply_script_keep: "length K = k \<Longrightarrow> apply_script (replicate k Keep @ acts) (K @ V) = K @ apply_script acts V"
  by (induction K arbitrary: k) auto

lemma apply_script_del: "length K = k \<Longrightarrow> apply_script (replicate k Del @ acts) (K @ V) = apply_script acts V"
  by (induction K arbitrary: k) auto

lemma apply_script_insert: "apply_script (map Ins as @ acts) V = as @ apply_script acts V"
  by (induction as) auto

lemmas apply_script_parts = apply_script_keep apply_script_del apply_script_insert

lemma describes_script:
  "describes hs V N \<Longrightarrow> apply_script (acts_of hs) V = N \<and> old_count (acts_of hs) \<le> length V
     \<and> new_count (acts_of hs) \<le> length N \<and> length N + del_count (acts_of hs) = length V + ins_count (acts_of hs)
     \<and> (\<forall>x. Ins x \<in> set (acts_of hs) \<longrightarrow> x \<in> set N)"
proof (induction hs arbitrary: V N)
  case (Cons h hs)
  let ?k = "h_keep h" and ?ds = "h_dels h" and ?as = "h_adds h"
  obtain K V' where V: "V = K @ ?ds @ V'" "length K = ?k" "V' = drop (?k + length ?ds) V"
    and N: "N = K @ ?as @ drop (?k + length ?as) N"
  proof
    have split: "take k xs @ ys @ drop (k + length ys) xs = xs" if "take (length ys) (drop k xs) = ys"
      for k ys and xs :: "string list"
      using that by (metis add.commute append_take_drop_id drop_drop)
    show "V = take ?k V @ ?ds @ drop (?k + length ?ds) V"
      by (rule split [symmetric]) (use Cons.prems in simp)
    have "N = take ?k N @ ?as @ drop (?k + length ?as) N"
      by (rule split [symmetric]) (use Cons.prems in simp)
    then show "N = take ?k V @ ?as @ drop (?k + length ?as) N"
      using Cons.prems by simp
    show "length (take ?k V) = ?k" using Cons.prems by simp
  qed simp
  define N' where "N' = drop (?k + length ?as) N"
  have ih: "describes hs V' N'" using Cons.prems V(3) by (simp add: N'_def)
  have N: "N = K @ ?as @ N'" using N by (simp add: N'_def)
  have cnt: "del_count (acts_of (h # hs)) = length ?ds + del_count (acts_of hs)"
    "ins_count (acts_of (h # hs)) = length ?as + ins_count (acts_of hs)"
    by (simp_all add: del_count_def ins_count_def change_acts_def is_ins_def filter_replicate)
  show ?case
    using Cons.IH [OF ih] V(1,2) N cnt
    by (auto simp: change_acts_def apply_script_parts)
qed simp

section \<open>Properties\<close>

text \<open>
  A well-formed body: its lines are free of newlines and NULs, it starts with \<open>^AI\<close>, its control
  lines are balanced, and every block is closed at the end.
\<close>

definition body_wf :: "nat \<Rightarrow> string list \<Rightarrow> bool" where
  "body_wf high body \<longleftrightarrow>
     body_ok high Map.empty body \<and> final_open Map.empty body = Map.empty
     \<and> (\<forall>l \<in> set body. plain_line l) \<and> body \<noteq> [] \<and> line_type (hd body) = CHR ''I''"

lemma hunk_counts:
  "ins_count (acts_of hs) = (\<Sum>h\<leftarrow>hs. length (h_adds h))" "del_count (acts_of hs) = (\<Sum>h\<leftarrow>hs. length (h_dels h))"
  by (induction hs) (simp_all add: del_count_def ins_count_def change_acts_def is_ins_def filter_replicate)

lemma body_delta_hunks:
  assumes hs: "hunks_ok True hs" "describes hs V N" and "seq_wf st" and "last_seq st = high" and "open_blocks st = Map.empty"
    and "body_wf high body" and "high < n" and "n \<le> 65535"
    and V: "V = vis_lines (in_version st) Map.empty body" and "length V \<le> max_line" and "length N \<le> max_line"
    and N: "\<forall>x \<in> set N. plain_line x \<and> line_type x = NUL \<and> (lm = 0 \<or> length x < lm)"
  shows "body_delta lm body high n st (render 0 0 hs) echo
       = Inr (\<lparr>dr_inserted = (\<Sum>h\<leftarrow>hs. length (h_adds h)), dr_deleted = (\<Sum>h\<leftarrow>hs. length (h_dels h)),
               dr_unchanged = length V - (\<Sum>h\<leftarrow>hs. length (h_dels h))\<rparr>,
              unlines (weave_out n (in_version st) Map.empty START (acts_of hs) body))"
    and "(\<Sum>h\<leftarrow>hs. length (h_dels h)) \<le> length V"
    and "length N + (\<Sum>h\<leftarrow>hs. length (h_dels h)) = length V + (\<Sum>h\<leftarrow>hs. length (h_adds h))"
    and "apply_script (acts_of hs) V = N" and "script_text (acts_of hs)" and "script_plain lm (acts_of hs)"
    and "old_count (acts_of hs) \<le> length V"
proof -
  let ?acts = "acts_of hs"
  note d = describes_script [OF hs(2)]
  show sp: "script_plain lm ?acts" "script_text ?acts" "apply_script ?acts V = N" "old_count ?acts \<le> length V"
    using d N by (auto simp: script_plain_def script_text_def)
  show le: "(\<Sum>h\<leftarrow>hs. length (h_dels h)) \<le> length V"
    using del_count_le [of ?acts] d by (simp add: hunk_counts)
  show "length N + (\<Sum>h\<leftarrow>hs. length (h_dels h)) = length V + (\<Sum>h\<leftarrow>hs. length (h_adds h))"
    using d by (simp add: hunk_counts)
  have sim: "sim (new_diff_state (render 0 0 hs) echo) ?acts"
    using sim_new [OF hs(1)] d assms(10,11) by auto
  have bo: "body_ok high Map.empty body" "final_open Map.empty body = Map.empty"
    using assms(6) by (auto simp: body_wf_def)
  let ?r0 = "\<lparr>dr_inserted = 0, dr_deleted = 0, dr_unchanged = 0\<rparr>"
  have "delta_loop lm high n body st (new_diff_state (render 0 0 hs) echo) ?r0 [] =
           Inr (delta_counts ?acts (length V) ?r0,
                [] @ unlines (weave_out n (in_version st) (open_blocks st)
                        (ds_state (new_diff_state (render 0 0 hs) echo)) ?acts body))"
    unfolding V assms(5) [symmetric]
    by (rule delta_loop_weave) (use assms(3-5) bo sim sp d V in auto)
  then show "body_delta lm body high n st (render 0 0 hs) echo
       = Inr (\<lparr>dr_inserted = (\<Sum>h\<leftarrow>hs. length (h_adds h)), dr_deleted = (\<Sum>h\<leftarrow>hs. length (h_dels h)),
               dr_unchanged = length V - (\<Sum>h\<leftarrow>hs. length (h_dels h))\<rparr>,
              unlines (weave_out n (in_version st) Map.empty START (acts_of hs) body))"
    using assms(5) by (simp add: body_delta_def new_diff_state_def delta_counts_def hunk_counts)
qed

lemma body_delta_weave:
  assumes "normal_diff differ" and "seq_wf st" and "last_seq st = high" and "open_blocks st = Map.empty"
    and "body_wf high body" and "high < n" and "n \<le> 65535"
    and V: "V = vis_lines (in_version st) Map.empty body" and "length V \<le> max_line" and "length N \<le> max_line"
    and N: "\<forall>x \<in> set N. plain_line x \<and> line_type x = NUL \<and> (lm = 0 \<or> length x < lm)"
  shows "\<exists>r acts. body_delta lm body high n st (differ V N) echo
             = Inr (r, unlines (weave_out n (in_version st) Map.empty START acts body))
           \<and> dr_unchanged r + dr_deleted r = length V \<and> dr_unchanged r + dr_inserted r = length N
           \<and> apply_script acts V = N \<and> script_text acts \<and> script_plain lm acts \<and> old_count acts \<le> length V"
proof -
  obtain hs where hs: "hunks_ok True hs" "describes hs V N" "differ V N = render 0 0 hs"
    using assms(1) by (auto simp: normal_diff_def)
  note b = body_delta_hunks [OF hs(1,2) assms(2-10) N]
  show ?thesis
    by (intro exI [of _ "\<lparr>dr_inserted = (\<Sum>h\<leftarrow>hs. length (h_adds h)), dr_deleted = (\<Sum>h\<leftarrow>hs. length (h_dels h)),
               dr_unchanged = length V - (\<Sum>h\<leftarrow>hs. length (h_dels h))\<rparr>"] exI [of _ "acts_of hs"])
      (use b(1) [of echo, folded hs(3)] b(2-7) in simp)
qed

lemma weave_out_wf:
  assumes "body_wf high body" and "high < n" and "n \<le> 65535" and "script_text acts" and "script_plain lm acts"
    and "old_count acts \<le> length (vis_lines inc Map.empty body)"
  shows "body_wf n (weave_out n inc Map.empty START acts body)"
proof -
  obtain l ls where body: "body = l # ls" "line_type l = CHR ''I''"
    using assms(1) by (cases body) (auto simp: body_wf_def)
  then obtain rest where rest: "weave_out n inc Map.empty START acts body = l # rest" by auto
  have "body_ok high Map.empty body" "final_open Map.empty body = Map.empty" "\<forall>l \<in> set body. plain_line l"
    using assms(1) by (simp_all add: body_wf_def)
  moreover have "below n Map.empty" by (simp add: below_def)
  ultimately have "body_ok n Map.empty (l # rest)" "final_open Map.empty (l # rest) = Map.empty"
    "\<forall>x \<in> set (l # rest). plain_line x"
    using weave_out_ok [of n high Map.empty body acts START inc] assms(2-4,6)
      plain_weave_out [OF assms(5), of body _ n inc Map.empty START] rest by auto
  then show ?thesis using body(2) rest by (simp add: body_wf_def del: body_ok.simps final_open.simps)
qed

lemma body_get_wf_raw:
  assumes "raw_env g" and "seq_wf st" and "last_seq st = high" and "high_seqno (ge_table g) = high"
    and "open_blocks st = Map.empty" and "body_wf high body"
  shows "\<exists>st' p'. body_get g body st p = Inr (st', p')
           \<and> sp_out p' = sp_out p @ concat (map (ge_outputfn g) (vis_lines (in_version st) Map.empty body))"
proof -
  obtain l ls where body: "body = l # ls" "line_type l = CHR ''I''"
    using assms(6) by (cases body) (auto simp: body_wf_def)
  have ok: "body_ok high Map.empty (l # ls)"
    using assms(6) body by (simp add: body_wf_def)
  obtain c m where cm: "control_of l = Some (c, m)" "ctl_ok high Map.empty c m"
    using ok body(2) by (auto split: option.splits)
  then have "c = CHR ''I''" "1 \<le> m" "m \<le> high" using body(2) by (auto simp: control_of_Some ctl_ok_def)
  with body_get_visible_raw [OF assms(1,2) _ assms(5), of l m ls p] cm ok assms(3,4) body
  show ?thesis by (simp del: body_ok.simps vis_lines.simps)
qed

lemma body_get_wf:
  assumes "text_env g" and "seq_wf st" and "last_seq st = high" and "high_seqno (ge_table g) = high"
    and "open_blocks st = Map.empty" and "body_wf high body"
  shows "\<exists>st' p'. body_get g body st p = Inr (st', p')
           \<and> sp_out p' = sp_out p @ unlines (vis_lines (in_version st) Map.empty body)"
  using body_get_wf_raw [OF raw_text_env [OF assms(1)] assms(2-6), of p] assms(6)
  by (simp add: output_text_lines [OF assms(1)] body_wf_def)

text \<open>
  C6. \<open>get\<close> on a body whose first line is \<open>^AI\<close> of a delta of the file, without keyword
  substitution: if the control lines that follow are well formed (each names a delta of the
  file, opens a block that is closed, or closes one that is open), the output is exactly the
  list of the text lines that are visible in the selected version; otherwise \<open>get\<close> fails.
  A line is visible when the open insertion with the highest sequence number is part of the
  version and no deletion that is part of the version has a higher number.
\<close>

theorem get_writes_visible_lines:
  assumes "text_env g" and "seq_wf st" and "last_seq st = high_seqno (ge_table g)"
    and "open_blocks st = Map.empty" and "\<forall>x \<in> set (l # ls). plain_line x"
    and "control_of l = Some (CHR ''I'', m)" and "1 \<le> m" and "m \<le> high_seqno (ge_table g)"
  shows "if body_ok (high_seqno (ge_table g)) Map.empty (l # ls)
         then \<exists>st' p'. body_get g (l # ls) st p = Inr (st', p')
                \<and> sp_out p' = sp_out p @ unlines (vis_lines (in_version st) Map.empty (l # ls))
         else \<exists>e. body_get g (l # ls) st p = Inl e"
  using assms by (rule body_get_visible)

text \<open>A body, a state that selects its only delta, and the options of a plain \<open>get\<close>.\<close>

definition example_body :: "string list" where
  "example_body = [ctl_line (CHR ''I'') 1, ''a'', ''b'', ctl_line (CHR ''E'') 1]"

definition example_state :: "nat list \<Rightarrow> nat \<Rightarrow> seq_state" where
  "example_state incl l = foldr (\<lambda>s. set_included s False) incl (cleared_state l)"

definition example_env :: "nat \<Rightarrow> get_env" where
  "example_env high =
     \<lparr>ge_table = table_empty\<lparr>high_seqno := high\<rparr>, ge_write_subst = (\<lambda>_ _ _ _. Inl Assertion),
      ge_outputfn = output_body_line_text, ge_encoded = False, ge_do_kw_subst = False,
      ge_show_module = False, ge_show_sid = False\<rparr>"

definition example_parms :: subst_parms where
  "example_parms = \<lparr>sp_outname = [], sp_module_name = [], wstring = None, sp_out = [], sp_delta = delta_default,
                    sp_out_lineno = 0, sp_now = date_default, found_id = False\<rparr>"

lemma example_env_simps [simp]: "text_env (example_env h)" "high_seqno (ge_table (example_env h)) = h"
  by (simp_all add: example_env_def text_env_def)

lemma example_state_frame:
  "\<forall>s \<in> set incl. s \<le> l \<Longrightarrow> same_frame (cleared_state l) (example_state incl l)
     \<and> (\<forall>s. in_version (example_state incl l) s \<longleftrightarrow> s \<in> set incl)"
proof (induction incl)
  case Nil
  then show ?case by (simp add: example_state_def same_frame_refl)
next
  case (Cons x xs)
  let ?st = "example_state xs l"
  have "same_frame (cleared_state l) ?st" using Cons by simp
  then have "states_wf ?st" "x \<le> last_seq ?st" using Cons.prems by (simp_all add: same_frame_def)
  from sets_toD [OF sets_to_setters(1) this, of False] Cons show ?case
    by (auto simp: example_state_def intro: same_frame_trans)
qed

lemma example_state_wf:
  assumes "\<forall>s \<in> set incl. s \<le> l"
  shows "seq_wf (example_state incl l)" and "last_seq (example_state incl l) = l"
    and "open_blocks (example_state incl l) = Map.empty" and "in_version (example_state incl l) = (\<lambda>s. s \<in> set incl)"
proof -
  note f = example_state_frame [OF assms]
  have "\<not> inserting (cleared_state l)"
    using cleared_state_wf [of l] by (simp add: seq_wf_def visible_def)
  then show "seq_wf (example_state incl l)"
    using f by (intro seq_wf_no_blocks) (auto simp: same_frame_def)
  show "last_seq (example_state incl l) = l" "open_blocks (example_state incl l) = Map.empty"
    "in_version (example_state incl l) = (\<lambda>s. s \<in> set incl)"
    using f by (auto simp: same_frame_def)
qed

lemma example_body_facts:
  "body_wf 1 example_body"
  "vis_lines (\<lambda>s. s \<in> set [1]) Map.empty example_body = [''a'', ''b'']"
proof -
  have t: "line_type ''a'' = NUL" "line_type ''b'' = NUL" by (simp_all add: line_type_def)
  show "body_wf 1 example_body"
    using t by (simp add: body_wf_def example_body_def ctl_ok_def upd_def plain_ctl_line)
       (simp add: plain_line_def)
  have "visible (\<lambda>s. s \<in> set [1]) [1 \<mapsto> CHR ''I'']"
    using visible_insert_new [of 1 Map.empty "\<lambda>s. s \<in> set [1]"] by (simp add: below_def)
  then show "vis_lines (\<lambda>s. s \<in> set [1]) Map.empty example_body = [''a'', ''b'']"
    using t by (simp add: example_body_def upd_def)
qed

theorem get_writes_visible_lines_witness:
  "\<exists>st' p'. body_get (example_env 1) example_body (example_state [1] 1) example_parms = Inr (st', p')
     \<and> sp_out p' = ''a'' @ [newline] @ ''b'' @ [newline]"
proof -
  let ?l = "ctl_line (CHR ''I'') 1" and ?ls = "[''a'', ''b'', ctl_line (CHR ''E'') 1]"
  have st: "\<forall>s \<in> set [1]. s \<le> (1::nat)" by simp
  have "control_of ?l = Some (CHR ''I'', 1)" by simp
  moreover have "\<forall>x \<in> set (?l # ?ls). plain_line x"
    using example_body_facts(1) by (simp add: body_wf_def example_body_def)
  ultimately have "if body_ok (high_seqno (ge_table (example_env 1))) Map.empty (?l # ?ls)
         then \<exists>st' p'. body_get (example_env 1) (?l # ?ls) (example_state [1] 1) example_parms = Inr (st', p')
                \<and> sp_out p' = sp_out example_parms @ unlines (vis_lines (in_version (example_state [1] 1)) Map.empty (?l # ?ls))
         else \<exists>e. body_get (example_env 1) (?l # ?ls) (example_state [1] 1) example_parms = Inl e"
    using example_state_wf [OF st] by (intro get_writes_visible_lines [where m = 1]) simp_all
  then show ?thesis
    using example_state_wf(4) [OF st] example_body_facts
    unfolding example_body_def [symmetric] by (simp add: body_wf_def example_parms_def)
qed

section \<open>delta and get\<close>

text \<open>
  C3. After \<open>delta\<close>, \<open>get\<close> of the new version gives the new file. The new delta \<open>n\<close> has a higher
  number than every delta of the body; \<open>diff\<close> is any program that prints the normal format for
  the lines \<open>V\<close> of the predecessor (the version that the state selects) and the lines \<open>N\<close> of the
  new file, whose lines do not look like control lines and are not too long. Then \<open>delta\<close>
  succeeds, and \<open>get\<close> of the version that consists of the predecessor's deltas and \<open>n\<close>, on what
  \<open>delta\<close> wrote, writes exactly \<open>N\<close>.
\<close>

theorem get_after_delta_new:
  assumes "normal_diff differ" and "seq_wf st" and "last_seq st = high" and "open_blocks st = Map.empty"
    and "body_wf high body" and "high < n" and "n \<le> 65535"
    and V: "V = vis_lines (in_version st) Map.empty body" and "length V \<le> max_line" and "length N \<le> max_line"
    and N: "\<forall>x \<in> set N. plain_line x \<and> line_type x = NUL \<and> (lm = 0 \<or> length x < lm)"
    and "CHUNK \<le> b"
  shows "\<exists>r out. body_delta lm body high n st (differ V N) echo = Inr (r, out)
           \<and> (\<forall>g st' p. text_env g \<and> seq_wf st' \<and> last_seq st' = n \<and> high_seqno (ge_table g) = n
                \<and> open_blocks st' = Map.empty \<and> (\<forall>s. in_version st' s \<longleftrightarrow> s = n \<or> in_version st s)
                \<longrightarrow> (\<exists>st'' p'. body_get g (read_all b out) st' p = Inr (st'', p')
                              \<and> sp_out p' = sp_out p @ unlines N))"
proof -
  obtain r acts where d: "body_delta lm body high n st (differ V N) echo
             = Inr (r, unlines (weave_out n (in_version st) Map.empty START acts body))"
      and a: "apply_script acts V = N" "script_text acts" "script_plain lm acts" "old_count acts \<le> length V"
    using body_delta_weave [OF assms(1-11), of echo] by blast
  let ?new = "weave_out n (in_version st) Map.empty START acts body"
  have wf: "body_wf n ?new" using weave_out_wf [OF assms(5-7) a(2,3)] a(4) V by simp
  then have rd: "read_all b (unlines ?new) = ?new"
    using assms(12) by (intro read_all_unlines) (auto simp: body_wf_def CHUNK_def)
  have vis: "vis_lines inc' Map.empty ?new = N" if inc: "\<forall>s. inc' s \<longleftrightarrow> s = n \<or> in_version st s" for inc'
    using weave_out_new [of n high inc' "in_version st" Map.empty body acts START] assms(5-7) a inc V
    by (auto simp: below_def body_wf_def)
  show ?thesis
  proof (rule exI [of _ r], rule exI [of _ "unlines ?new"], rule conjI, rule d, intro allI impI)
    fix g st' and p :: subst_parms
    assume h: "text_env g \<and> seq_wf st' \<and> last_seq st' = n \<and> high_seqno (ge_table g) = n
                \<and> open_blocks st' = Map.empty \<and> (\<forall>s. in_version st' s \<longleftrightarrow> s = n \<or> in_version st s)"
    then show "\<exists>st'' p'. body_get g (read_all b (unlines ?new)) st' p = Inr (st'', p')
                              \<and> sp_out p' = sp_out p @ unlines N"
      using body_get_wf [of g st' n ?new p] wf vis [of "in_version st'"] unfolding rd by auto
  qed
qed

text \<open>
  C4. \<open>delta\<close> changes no older version: under the same assumptions, for every version that does
  not contain the new delta, \<open>get\<close> writes from the new body what it wrote from the old one.
\<close>

theorem get_after_delta_old:
  assumes "normal_diff differ" and "seq_wf st" and "last_seq st = high" and "open_blocks st = Map.empty"
    and "body_wf high body" and "high < n" and "n \<le> 65535"
    and V: "V = vis_lines (in_version st) Map.empty body" and "length V \<le> max_line" and "length N \<le> max_line"
    and N: "\<forall>x \<in> set N. plain_line x \<and> line_type x = NUL \<and> (lm = 0 \<or> length x < lm)"
    and "CHUNK \<le> b"
  shows "\<exists>r out. body_delta lm body high n st (differ V N) echo = Inr (r, out)
           \<and> (\<forall>g0 g st0 st1 p. text_env g0 \<and> seq_wf st0 \<and> last_seq st0 = high \<and> high_seqno (ge_table g0) = high
                \<and> open_blocks st0 = Map.empty
                \<and> text_env g \<and> seq_wf st1 \<and> last_seq st1 = n \<and> high_seqno (ge_table g) = n
                \<and> open_blocks st1 = Map.empty \<and> in_version st1 = in_version st0
                \<longrightarrow> (\<exists>x y p0 p1. body_get g0 body st0 p = Inr (x, p0)
                        \<and> body_get g (read_all b out) st1 p = Inr (y, p1) \<and> sp_out p1 = sp_out p0))"
proof -
  obtain r acts where d: "body_delta lm body high n st (differ V N) echo
             = Inr (r, unlines (weave_out n (in_version st) Map.empty START acts body))"
      and a: "apply_script acts V = N" "script_text acts" "script_plain lm acts" "old_count acts \<le> length V"
    using body_delta_weave [OF assms(1-11), of echo] by blast
  let ?new = "weave_out n (in_version st) Map.empty START acts body"
  have wf: "body_wf n ?new" using weave_out_wf [OF assms(5-7) a(2,3)] a(4) V by simp
  then have rd: "read_all b (unlines ?new) = ?new"
    using assms(12) by (intro read_all_unlines) (auto simp: body_wf_def CHUNK_def)
  have vis: "vis_lines inc' Map.empty ?new = vis_lines inc' Map.empty body" if "\<not> inc' n" for inc'
    using weave_out_old [of n high inc' Map.empty body acts START "in_version st"] assms(5-7) a that
    by (auto simp: below_def body_wf_def)
  show ?thesis
  proof (rule exI [of _ r], rule exI [of _ "unlines ?new"], rule conjI, rule d, intro allI impI)
    fix g0 g st0 st1 and p :: subst_parms
    assume h: "text_env g0 \<and> seq_wf st0 \<and> last_seq st0 = high \<and> high_seqno (ge_table g0) = high
                \<and> open_blocks st0 = Map.empty
                \<and> text_env g \<and> seq_wf st1 \<and> last_seq st1 = n \<and> high_seqno (ge_table g) = n
                \<and> open_blocks st1 = Map.empty \<and> in_version st1 = in_version st0"
    then have "\<not> in_version st1 n" using assms(6) by (auto simp: in_version_def)
    then show "\<exists>x y p0 p1. body_get g0 body st0 p = Inr (x, p0)
                        \<and> body_get g (read_all b (unlines ?new)) st1 p = Inr (y, p1) \<and> sp_out p1 = sp_out p0"
      using h body_get_wf [of g st1 n ?new p] body_get_wf [of g0 st0 high body p] assms(5) wf
        vis [of "in_version st1"] unfolding rd by fastforce
  qed
qed

text \<open>A \<open>diff\<close> that replaces the whole file in one hunk.\<close>

definition whole_diff :: "string list \<Rightarrow> string list \<Rightarrow> string list" where
  "whole_diff V N = (if V = N then [] else render 0 0 [\<lparr>h_keep = 0, h_dels = V, h_adds = N\<rparr>])"

lemma normal_diff_whole: "normal_diff whole_diff"
  unfolding normal_diff_def
proof (intro allI)
  fix V N :: "string list"
  show "\<exists>hs. hunks_ok True hs \<and> describes hs V N \<and> whole_diff V N = render 0 0 hs"
  proof (cases "V = N")
    case True
    then show ?thesis by (intro exI [of _ "[]"]) (simp add: whole_diff_def)
  next
    case False
    then show ?thesis
      by (intro exI [of _ "[\<lparr>h_keep = 0, h_dels = V, h_adds = N\<rparr>]"]) (auto simp: whole_diff_def hunk_ok_def)
  qed
qed

text \<open>What holds of the example, for the properties of \<open>delta\<close>.\<close>

lemma example_delta_facts:
  "normal_diff whole_diff" "seq_wf (example_state [1] 1)" "last_seq (example_state [1] 1) = 1"
  "open_blocks (example_state [1] 1) = Map.empty" "body_wf 1 example_body" "(1::nat) < 2" "(2::nat) \<le> 65535"
  "[''a'', ''b''] = vis_lines (in_version (example_state [1] 1)) Map.empty example_body"
  "length [''a'', ''b''] \<le> max_line" "length [''b'', ''c''] \<le> max_line"
  "\<forall>x \<in> set [''b'', ''c'']. plain_line x \<and> line_type x = NUL \<and> ((0::nat) = 0 \<or> length x < 0)"
  "CHUNK \<le> CHUNK"
  using example_state_wf [of "[1]" 1] example_body_facts normal_diff_whole
  by (simp_all add: max_line_def plain_line_def line_type_def)

theorem get_after_delta_new_witness:
  "\<exists>r out st p. body_delta 0 example_body 1 2 (example_state [1] 1) (whole_diff [''a'', ''b''] [''b'', ''c'']) False = Inr (r, out)
     \<and> body_get (example_env 2) (read_all CHUNK out) (example_state [1, 2] 2) example_parms = Inr (st, p)
     \<and> sp_out p = unlines [''b'', ''c'']"
proof -
  have two: "\<forall>s \<in> set [1, 2]. s \<le> (2::nat)" by simp
  obtain r out where d: "body_delta 0 example_body 1 2 (example_state [1] 1) (whole_diff [''a'', ''b''] [''b'', ''c'']) False = Inr (r, out)"
    and g: "\<forall>g st' p. text_env g \<and> seq_wf st' \<and> last_seq st' = 2 \<and> high_seqno (ge_table g) = 2
                \<and> open_blocks st' = Map.empty \<and> (\<forall>s. in_version st' s \<longleftrightarrow> s = 2 \<or> in_version (example_state [1] 1) s)
                \<longrightarrow> (\<exists>st'' p'. body_get g (read_all CHUNK out) st' p = Inr (st'', p')
                              \<and> sp_out p' = sp_out p @ unlines [''b'', ''c''])"
    using get_after_delta_new [OF example_delta_facts] by blast
  have "\<forall>s. in_version (example_state [1, 2] 2) s \<longleftrightarrow> s = 2 \<or> in_version (example_state [1] 1) s"
    using example_state_wf(4) [OF two] example_state_wf(4) [of "[1]" 1] by auto
  with g [rule_format, of "example_env 2" "example_state [1, 2] 2" example_parms] d example_state_wf [OF two]
  show ?thesis by (auto simp: example_parms_def)
qed

theorem get_after_delta_old_witness:
  "\<exists>r out x y p0 p1. body_delta 0 example_body 1 2 (example_state [1] 1) (whole_diff [''a'', ''b''] [''b'', ''c'']) False = Inr (r, out)
     \<and> body_get (example_env 1) example_body (example_state [1] 1) example_parms = Inr (x, p0)
     \<and> body_get (example_env 2) (read_all CHUNK out) (example_state [1] 2) example_parms = Inr (y, p1)
     \<and> sp_out p1 = sp_out p0"
proof -
  have one: "\<forall>s \<in> set [1]. s \<le> (2::nat)" "\<forall>s \<in> set [1]. s \<le> (1::nat)" by simp_all
  have "in_version (example_state [1] 2) = in_version (example_state [1] 1)"
    by (simp only: example_state_wf(4) [OF one(1)] example_state_wf(4) [OF one(2)])
  then show ?thesis
    using get_after_delta_old [OF example_delta_facts, of False] example_state_wf [OF one(1)] example_state_wf [OF one(2)]
      example_env_simps by metis
qed

text \<open>
  C10. The counts that \<open>delta\<close> records and the shape of what it writes, when \<open>diff\<close> prints the hunks \<open>hs\<close> that
  turn the predecessor into the new file: inserted is the number of lines that the hunks add, deleted the number
  that they delete, and unchanged the number of lines of the predecessor that no hunk deletes, which are also
  the lines of the new file that no hunk adds; the new body is well formed again, so that the next \<open>delta\<close> can
  work on it.
\<close>

theorem delta_counts_and_shape:
  assumes "hunks_ok True hs" and "describes hs V N"
    and "seq_wf st" and "last_seq st = high" and "open_blocks st = Map.empty"
    and "body_wf high body" and "high < n" and "n \<le> 65535"
    and V: "V = vis_lines (in_version st) Map.empty body" and "length V \<le> max_line" and "length N \<le> max_line"
    and N: "\<forall>x \<in> set N. plain_line x \<and> line_type x = NUL \<and> (lm = 0 \<or> length x < lm)"
    and "CHUNK \<le> b"
  shows "\<exists>r out. body_delta lm body high n st (render 0 0 hs) echo = Inr (r, out)
           \<and> dr_inserted r = (\<Sum>h\<leftarrow>hs. length (h_adds h)) \<and> dr_deleted r = (\<Sum>h\<leftarrow>hs. length (h_dels h))
           \<and> dr_unchanged r + dr_deleted r = length V \<and> dr_unchanged r + dr_inserted r = length N
           \<and> body_wf n (read_all b out)"
proof -
  note d = body_delta_hunks [OF assms(1-11) N]
  let ?new = "weave_out n (in_version st) Map.empty START (acts_of hs) body"
  have wf: "body_wf n ?new" using weave_out_wf [OF assms(6-8) d(5,6)] d(7) V by simp
  then have "read_all b (unlines ?new) = ?new"
    using assms(13) by (intro read_all_unlines) (auto simp: body_wf_def CHUNK_def)
  then show ?thesis using d(1-3) wf by simp
qed

text \<open>One line of \<open>example_body\<close> is deleted, and one is added behind the other.\<close>

definition example_hunks :: "hunk list" where
  "example_hunks = [\<lparr>h_keep = 0, h_dels = [''a''], h_adds = []\<rparr>, \<lparr>h_keep = 1, h_dels = [], h_adds = [''c'']\<rparr>]"

theorem delta_counts_and_shape_witness:
  "\<exists>r out. body_delta 0 example_body 1 2 (example_state [1] 1) (render 0 0 example_hunks) False = Inr (r, out)
     \<and> dr_inserted r = 1 \<and> dr_deleted r = 1 \<and> dr_unchanged r = 1 \<and> body_wf 2 (read_all CHUNK out)"
proof -
  have "hunks_ok True example_hunks" "describes example_hunks [''a'', ''b''] [''b'', ''c'']"
    by (simp_all add: example_hunks_def hunk_ok_def)
  moreover have "(\<Sum>h\<leftarrow>example_hunks. length (h_adds h)) = 1" "(\<Sum>h\<leftarrow>example_hunks. length (h_dels h)) = 1"
    by (simp_all add: example_hunks_def)
  ultimately obtain r out where "body_delta 0 example_body 1 2 (example_state [1] 1) (render 0 0 example_hunks) False = Inr (r, out)"
      "dr_inserted r = 1" "dr_deleted r = 1" "dr_unchanged r + dr_deleted r = length [''a'', ''b'']" "body_wf 2 (read_all CHUNK out)"
    using delta_counts_and_shape [OF _ _ example_delta_facts(2-12), of example_hunks False] by auto
  moreover from this have "dr_unchanged r = 1" by simp
  ultimately show ?thesis by blast
qed

section \<open>Removing a delta\<close>

definition st_of :: "diffstate \<Rightarrow> update_state" where
  "st_of p = (if p = DELETE then RM_DELETE else if p = INSERT then RM_INSERT else COPY)"

lemma st_of_simps [simp]:
  "st_of DELETE = RM_DELETE" "st_of INSERT = RM_INSERT" "st_of START = COPY" "st_of NOCHANGE = COPY" "st_of END = COPY"
  by (simp_all add: st_of_def)

lemma remove_ctl_line:
  assumes "n \<le> 65535" and "c \<noteq> NUL"
  shows "remove_body (ctl_line c n # ls) n state out =
     (case rm_next_state state c of None \<Rightarrow> Inl (Failed Unexpected_control_line)
      | Some state' \<Rightarrow> remove_body ls n state' out)"
proof -
  have "control_of (ctl_line c n) = Some (c, n)" using assms control_of_ctl_line [of n c] by simp
  then have "line_type (ctl_line c n) = c" "check_arg (ctl_line c n) = Inr ()"
    "strict_atous (drop 3 (ctl_line c n)) = Inr n"
    by (simp_all only: control_of_Some)
  then show ?thesis using assms(2) by simp
qed

lemma remove_ctl_lines:
  assumes "n \<le> 65535"
  shows "remove_body (ctl_lines p q n @ ls) n (st_of p) out = remove_body ls n (st_of q) out"
  using assms by (cases p; cases q) (simp_all add: ctl_lines_def remove_ctl_line rm_next_state_def del: remove_body.simps)

lemma remove_ins_run:
  assumes "n \<le> 65535" and "script_text acts" and "ins_run n p acts = (pre, p', acts')"
  shows "remove_body (pre @ ls) n (st_of p) out = remove_body ls n (st_of p') out"
  using assms(2,3)
proof (induction acts arbitrary: p pre)
  case (Cons a as)
  show ?case
  proof (cases "is_ins a")
    case True
    then obtain x where a: "a = Ins x" by (auto simp: is_ins_def split: act.splits)
    obtain pre1 where run: "ins_run n INSERT as = (pre1, p', acts')" and pre: "pre = ctl_lines p INSERT n @ x # pre1"
      using Cons.prems(2) a by (auto split: prod.splits)
    have x: "line_type x = NUL" "script_text as" using Cons.prems(1) a by (auto simp: script_text_def)
    show ?thesis
      using Cons.IH [OF x(2) run] x(1) pre remove_ctl_lines [OF assms(1), of p INSERT "x # pre1 @ ls"] by simp
  next
    case False
    then show ?thesis using Cons.prems by (cases a) (auto simp: is_ins_def)
  qed
qed simp

lemma remove_weave_out:
  assumes "n \<le> 65535" and "high < n" and "body_ok high op ls" and "script_text acts" and "p \<noteq> INSERT"
    and "old_count acts \<le> length (vis_lines inc op ls)"
  shows "remove_body (weave_out n inc op p acts ls) n (st_of p) out = Inr (out @ unlines ls)"
  using assms(3-6)
proof (induction ls arbitrary: op p acts out)
  case Nil
  obtain pre p' acts' where run: "ins_run n p acts = (pre, p', acts')" by (metis prod_cases3)
  have "old_count acts' = 0" using ins_run_counts(3) [OF run] Nil.prems(4) by simp
  then have "acts' = []"
    using ins_run_counts(5) [OF run] by (cases acts'; cases "hd acts'") (auto simp: is_ins_def)
  then show ?case
    using run remove_ins_run [OF assms(1) Nil.prems(2) run, of "ctl_lines p' END n" out]
      remove_ctl_lines [OF assms(1), of p' END "[]" out] by simp
next
  case (Cons l ls)
  show ?case
  proof (cases "line_type l = NUL")
    case False
    then obtain c m where cm: "control_of l = Some (c, m)" "ctl_ok high op c m" "body_ok high (upd c m op) ls"
      using Cons.prems(1) by (auto split: option.splits)
    then have m: "m \<noteq> n" and l: "check_arg l = Inr ()" "strict_atous (drop 3 l) = Inr m"
      using assms(2) by (auto simp: ctl_ok_def control_of_Some)
    have "remove_body (weave_out n inc (upd c m op) p acts ls) n (st_of p) (out @ l @ [newline])
          = Inr ((out @ l @ [newline]) @ unlines ls)"
      by (rule Cons.IH) (use Cons.prems cm False in auto)
    then show ?thesis using False cm(1) l m Cons.prems(3) by (cases p) auto
  next
    case txt0: True
    show ?thesis
    proof (cases "visible inc op")
      case False
      have "remove_body (weave_out n inc op p acts ls) n (st_of p) (out @ l @ [newline])
          = Inr ((out @ l @ [newline]) @ unlines ls)"
        by (rule Cons.IH) (use Cons.prems False txt0 in auto)
      then show ?thesis using txt0 False Cons.prems(3) by (cases p) auto
    next
      case True
      obtain pre p' acts' where run: "ins_run n p acts = (pre, p', acts')" by (metis prod_cases3)
      obtain q acts'' where qs: "script_step acts' = (q, acts'')" by fastforce
      have q: "q \<noteq> INSERT" and tx: "script_text acts''"
        using ins_run_state [OF run] Cons.prems(2) qs by auto
      have oc: "old_count acts'' \<le> length (vis_lines inc op ls)"
        using script_step_counts [OF ins_run_counts(5) [OF run] qs] ins_run_counts(3) [OF run]
          Cons.prems(4) txt0 True by simp
      have "remove_body (weave_out n inc op q acts'' ls) n (st_of q) (out @ l @ [newline])
          = Inr ((out @ l @ [newline]) @ unlines ls)"
        by (rule Cons.IH) (use Cons.prems txt0 tx q oc in auto)
      moreover have "remove_body (weave_out n inc op p acts (l # ls)) n (st_of p) out
          = remove_body (l # weave_out n inc op q acts'' ls) n (st_of q) out"
        using txt0 True run qs remove_ins_run [OF assms(1) Cons.prems(2) run]
          remove_ctl_lines [OF assms(1), of p' q] by simp
      ultimately show ?thesis using txt0 q by (cases q) auto
    qed
  qed
qed

text \<open>
  C5. \<open>rmdel\<close> undoes \<open>delta\<close>: removing the delta that \<open>delta\<close> has just added from the body it has
  written gives back the old body, character for character.
\<close>

theorem remove_undoes_delta:
  assumes "normal_diff differ" and "seq_wf st" and "last_seq st = high" and "open_blocks st = Map.empty"
    and "body_wf high body" and "high < n" and "n \<le> 65535"
    and V: "V = vis_lines (in_version st) Map.empty body" and "length V \<le> max_line" and "length N \<le> max_line"
    and N: "\<forall>x \<in> set N. plain_line x \<and> line_type x = NUL \<and> (lm = 0 \<or> length x < lm)"
    and "CHUNK \<le> b"
  shows "\<exists>r out. body_delta lm body high n st (differ V N) echo = Inr (r, out)
           \<and> body_remove (read_all b out) n = Inr (unlines body)"
proof -
  obtain r acts where d: "body_delta lm body high n st (differ V N) echo
             = Inr (r, unlines (weave_out n (in_version st) Map.empty START acts body))"
      and a: "script_text acts" "script_plain lm acts" "old_count acts \<le> length V"
    using body_delta_weave [OF assms(1-11), of echo] by blast
  let ?new = "weave_out n (in_version st) Map.empty START acts body"
  have "body_wf n ?new" using weave_out_wf [OF assms(5-7) a(1,2)] a(3) V by simp
  then have "read_all b (unlines ?new) = ?new"
    using assms(12) by (intro read_all_unlines) (auto simp: body_wf_def CHUNK_def)
  moreover have "body_remove ?new n = Inr (unlines body)"
    using remove_weave_out [of n high Map.empty body acts START "in_version st" "[]"] assms(5-7) a V
    by (simp add: body_remove_def body_wf_def)
  ultimately show ?thesis using d by auto
qed

theorem remove_undoes_delta_witness:
  "\<exists>r out. body_delta 0 example_body 1 2 (example_state [1] 1) (whole_diff [''a'', ''b''] [''b'', ''c'']) False = Inr (r, out)
     \<and> body_remove (read_all CHUNK out) 2 = Inr (unlines example_body)"
  by (rule remove_undoes_delta [OF example_delta_facts])

end
