(* ===== verification/Get_Version.thy ===== *)
theory Get_Version
  imports Get Version_Grow Weave
begin

text \<open>
  What \<open>sccs_file::get\<close> writes for a delta of a well-formed s-file, when there are no explicit
  lists and no cutoff date: the visible lines of the body, decoded when the body is encoded.
\<close>

section \<open>A table without gaps\<close>

definition complete :: "delta_table \<Rightarrow> bool" where
  "complete t \<longleftrightarrow>
     t = foldl (\<lambda>t d. table_add d t) table_empty (items t)
     \<and> distinct (map seq (items t)) \<and> set (map seq (items t)) = {1..high_seqno t}"

lemma complete_wf: "complete t \<Longrightarrow> table_wf t"
  using foldl_table_add(2) [OF table_wf_empty, of "items t"] by (simp add: complete_def)

lemma stl_complete: "complete t \<Longrightarrow> stl_delta_at_seq t y = Some x \<longleftrightarrow> x \<in> set (items t) \<and> seq x = y"
  using dt.lookup_distinct [of "items t" y x] by (simp add: complete_def dt.add_all_def)

lemma at_seq_complete:
  assumes "complete t"
  shows "delta_at_seq t y = Inr x \<longleftrightarrow> x \<in> set (items t) \<and> seq x = y"
proof
  assume x: "x \<in> set (items t) \<and> seq x = y"
  then have "y \<in> set (map seq (items t))" by auto
  then have "0 < y \<and> y \<le> high_seqno t" using assms by (simp add: complete_def)
  moreover have "stl_delta_at_seq t y = Some x" using stl_complete [OF assms] x by blast
  ultimately show "delta_at_seq t y = Inr x" by (simp add: delta_at_seq_def)
qed (use stl_complete [OF assms] in \<open>auto simp: delta_at_seq_def bindE_eq_Inr split: option.splits\<close>)

lemma known_complete: "complete t \<Longrightarrow> known t y \<longleftrightarrow> 1 \<le> y \<and> y \<le> high_seqno t"
proof -
  assume t: "complete t"
  have "known t y \<longleftrightarrow> y \<in> set (map seq (items t))" using at_seq_complete [OF t] by (auto simp: known_def)
  then show ?thesis using t by (auto simp: complete_def)
qed

lemma table_prepend_high: "high_seqno (table_prepend d t) = Max (insert 0 (insert (seq d) (seq ` set (items t))))"
  using table_prepend_wf [of d t] by (simp add: table_wf_def)

lemma complete_prepend:
  assumes "complete t" and "seq d = Suc (high_seqno t)"
  shows "complete (table_prepend d t)" and "high_seqno (table_prepend d t) = Suc (high_seqno t)"
    and "grows t d (table_prepend d t)"
proof -
  have s: "seq ` set (items t) = {1..high_seqno t}" using assms(1) by (simp add: complete_def)
  have m: "Max (insert 0 (insert (Suc h) {1..h})) = Suc h" for h by (rule Max_eqI) auto
  show h: "high_seqno (table_prepend d t) = Suc (high_seqno t)"
    unfolding table_prepend_high s assms(2) by (rule m)
  show c: "complete (table_prepend d t)"
    unfolding complete_def h table_prepend_wf(1)
    using assms s by (auto simp: complete_def table_prepend_def table_append_def)
  have "delta_at_seq (table_prepend d t) y = Inr x \<longleftrightarrow> (if y = seq d then x = d else delta_at_seq t y = Inr x)" for y x
  proof -
    have "seq x \<noteq> seq d" if "x \<in> set (items t)" for x
    proof -
      have "seq x \<in> seq ` set (items t)" using that by simp
      then show ?thesis using s assms(2) by simp
    qed
    then show ?thesis unfolding at_seq_complete [OF c] at_seq_complete [OF assms(1)] table_prepend_wf(1) by auto
  qed
  then show "grows t d (table_prepend d t)"
    using complete_wf [OF assms(1)] complete_wf [OF c] assms(2) by (simp add: grows_def)
qed

section \<open>get of a version\<close>

text \<open>An s-file that \<open>get\<close> can work on.\<close>

definition gettable :: "sccs_file \<Rightarrow> bool" where
  "gettable f \<longleftrightarrow>
     (sf_mode f = READ \<or> sf_mode f = UPDATE) \<and> complete (sf_table f) \<and> high_seqno (sf_table f) < 65535
     \<and> table_consistent (sf_table f) \<and> body_wf (high_seqno (sf_table f)) (sf_body f)"

text \<open>The lines of the version at \<open>sq\<close>.\<close>

definition version_lines :: "sccs_file \<Rightarrow> seq_no \<Rightarrow> string list" where
  "version_lines f sq =
     (case get_state f sq rl_empty rl_empty date_default of
        Inl _ \<Rightarrow> [] | Inr st \<Rightarrow> vis_lines (in_version st) Map.empty (sf_body f))"

lemma get_state_plain:
  assumes "gettable f" and "known (sf_table f) sq"
  obtains st a b where "get_state f sq rl_empty rl_empty date_default = Inr st"
    and "version_eqs (sf_table f) sq a b (in_version st)" and "seq_wf st" and "last_seq st = high_seqno (sf_table f)"
    and "open_blocks st = Map.empty" and "\<not> is_excluded st sq" and "untagged st"
    and "version_lines f sq = vis_lines (in_version st) Map.empty (sf_body f)"
proof -
  have t: "table_wf (sf_table f)" "table_consistent (sf_table f)" "high_seqno (sf_table f) < 65535"
    using assms(1) complete_wf by (auto simp: gettable_def)
  show thesis
    by (rule prepare_plain [OF t(1,2) assms(2) t(3)])
       (rule that, auto simp: get_state_def highest_delta_seqno_def version_lines_def)
qed

text \<open>What \<open>get\<close> writes for lines of the body; \<open>nd\<close> is the request not to decode.\<close>

definition shown_text :: "sccs_file \<Rightarrow> bool \<Rightarrow> string list \<Rightarrow> string" where
  "shown_text f nd ls =
     concat (map (if fl_encoded (sf_flags f) \<and> \<not> nd then output_body_line_binary else output_body_line_text) ls)"

lemma shown_text_plain:
  assumes "\<forall>l \<in> set ls. plain_line l" and "\<not> fl_encoded (sf_flags f) \<or> nd"
  shows "shown_text f nd ls = unlines ls"
proof -
  have "map output_body_line_text ls = map (\<lambda>l. l @ [newline]) ls"
    using assms(1) output_text_plain by simp
  moreover have "shown_text f nd ls = concat (map output_body_line_text ls)" using assms(2) by (auto simp: shown_text_def)
  ultimately show ?thesis by (simp only: unlines_def)
qed

lemma do_get_plain:
  assumes "gettable f" and "seq_wf st" and "last_seq st = high_seqno (sf_table f)" and "open_blocks st = Map.empty"
    and "kw \<longrightarrow> fl_encoded (sf_flags f)"
  shows "\<exists>st' p'. do_get canonify f st p kw False False nd False = Inr (st', p')
     \<and> sp_out p' = sp_out p @ shown_text f nd (vis_lines (in_version st) Map.empty (sf_body f))"
proof -
  let ?g = "\<lparr>ge_table = sf_table f, ge_write_subst = (\<lambda>s d force p. write_subst 3 canonify f s d force p),
          ge_outputfn = (if fl_encoded (sf_flags f) \<and> \<not> nd then output_body_line_binary else output_body_line_text),
          ge_encoded = fl_encoded (sf_flags f), ge_do_kw_subst = kw, ge_show_module = False, ge_show_sid = False\<rparr>"
  have "\<exists>st' p'. body_get ?g (sf_body f) st p = Inr (st', p')
     \<and> sp_out p' = sp_out p @ concat (map (ge_outputfn ?g) (vis_lines (in_version st) Map.empty (sf_body f)))"
    by (rule body_get_wf_raw [OF _ assms(2,3)]) (use assms in \<open>simp_all add: raw_env_def gettable_def\<close>)
  then show ?thesis using assms(1) by (auto simp: do_get_def gettable_def edit_mode_permitted_def shown_text_def)
qed

lemma status_complete: "complete (sf_table f) \<Longrightarrow> \<exists>g'. foldE (status_step f st) g [1..<Suc (high_seqno (sf_table f))] = Inr g'"
proof -
  assume t: "complete (sf_table f)"
  have "\<exists>g'. foldE (status_step f st) g [1..<Suc (high_seqno (sf_table f))] = Inr g' \<and> True"
  proof (rule foldE_progress)
    fix g s assume "s \<in> set [1..<Suc (high_seqno (sf_table f))]"
    then obtain x where "delta_at_seq (sf_table f) s = Inr x"
      using known_complete [OF t, of s] by (auto simp: known_def)
    then show "\<exists>g'. status_step f st g s = Inr g' \<and> True" by (simp add: status_step_def seq_to_sid_def)
  qed simp
  then show ?thesis by simp
qed

lemma find_delta_known:
  assumes "complete (sf_table f)" and "find_delta f i = Some d"
  shows "delta_at_seq (sf_table f) (seq d) = Inr d" and "delta_id d = i" and "known (sf_table f) (seq d)" and "0 < seq d"
proof -
  have d: "d \<in> set (items (sf_table f))" "delta_id d = i"
    using assms(2) by (auto simp: find_delta_def table_find_eq find_Some_iff selected_def dest!: nth_mem)
  then show at: "delta_at_seq (sf_table f) (seq d) = Inr d" using at_seq_complete [OF assms(1)] by simp
  then show "delta_id d = i" "known (sf_table f) (seq d)" "0 < seq d"
    using d delta_at_seq_pos by (auto simp: known_def)
qed

lemma sfile_get_plain:
  assumes "gettable f" and "find_delta f i = Some d" and "e \<longrightarrow> edit_mode_ok f"
  shows "\<exists>status. sfile_get now canonify f outname False i date_default rl_empty rl_empty False None False False e =
           Inr (status, shown_text f False (version_lines f (seq d)), [])"
proof -
  have c: "complete (sf_table f)" using assms(1) by (simp add: gettable_def)
  note d = find_delta_known [OF c assms(2)]
  obtain st where st: "get_state f (seq d) rl_empty rl_empty date_default = Inr st" "seq_wf st"
      "last_seq st = high_seqno (sf_table f)" "open_blocks st = Map.empty" "\<not> is_excluded st (seq d)"
      "version_lines f (seq d) = vis_lines (in_version st) Map.empty (sf_body f)"
    by (rule get_state_plain [OF assms(1) d(3)])
  have "down_from (seq d) = seq d # rev [1..<seq d]" using d(4) by (simp add: down_from_def)
  then have dp: "dparm_loop f st (down_from (seq d)) = Inr (Some (Some d))"
    using known_exists [OF d(3)] d(1,2) st(5) assms(2) by simp
  let ?p = "\<lparr>sp_outname = outname, sp_module_name = get_module_name f, wstring = None, sp_out = [], sp_delta = d,
                    sp_out_lineno = 0, sp_now = now, found_id = False\<rparr>"
  obtain st' p' where get: "do_get canonify f st ?p False False False False False = Inr (st', p')"
      "sp_out p' = shown_text f False (version_lines f (seq d))"
    using do_get_plain [OF assms(1) st(2-4), of False canonify ?p False] st(6) by auto
  obtain status where "foldE (status_step f st') \<lparr>gs_lines = sp_out_lineno p', gs_included = [], gs_excluded = []\<rparr>
      [1..<Suc (high_seqno (sf_table f))] = Inr status"
    using status_complete [OF c] by blast
  then show ?thesis
    using assms(2,3) st(1) dp get
    by (simp add: sfile_get_def edit_mode_permitted_def highest_delta_seqno_def del: upt_Suc)
qed

text \<open>The lines that stand for a file in the body: its own, or those of its encoded form.\<close>

definition stored_as :: "sccs_file \<Rightarrow> string \<Rightarrow> string list \<Rightarrow> bool" where
  "stored_as f content N \<longleftrightarrow>
     (if fl_encoded (sf_flags f) then N = map enc_text (chunks content) @ ['' ''] else content = unlines N)"

lemma stored_as_shown:
  assumes "stored_as f content N" and "\<forall>l \<in> set N. plain_line l" and "sf_flags g = sf_flags f"
  shows "shown_text g False N = content"
  using assms shown_text_plain [of N g False] encoded_lines_decode(2) [of content]
  by (auto simp: stored_as_def shown_text_def split: if_splits)

end
