(* ===== verification/Checkin.thy ===== *)
theory Checkin
  imports Add_Delta Get_Version
begin

text \<open>
  A check-in followed by \<open>get\<close>, through the files: what \<open>sccs_file::add_delta\<close> leaves in the
  directory is read back, and \<open>sccs_file::get\<close> of the new delta gives the file that was
  checked in, while every older version is what it was.
\<close>

section \<open>The steps of add_delta\<close>

text \<open>
  What \<open>diff\<close> is documented to do, on files of text lines: print, in the normal format, hunks
  that describe the change.
\<close>

definition normal_text_diff :: "(string \<Rightarrow> string \<Rightarrow> string list) \<Rightarrow> bool" where
  "normal_text_diff diff \<longleftrightarrow>
     (\<forall>V N. (\<forall>l \<in> set V \<union> set N. plain_line l) \<longrightarrow>
        (\<exists>hs. hunks_ok True hs \<and> describes hs V N \<and> diff (unlines V) (unlines N) = render 0 0 hs))"

lemma text_diff_lines:
  assumes "normal_text_diff diff" and "\<forall>l \<in> set V \<union> set N. plain_line l"
  obtains differ where "normal_diff differ" and "differ V N = diff (unlines V) (unlines N)"
proof
  let ?d = "\<lambda>A B. if \<forall>l \<in> set A \<union> set B. plain_line l then diff (unlines A) (unlines B) else whole_diff A B"
  show "normal_diff ?d"
    using assms(1) normal_diff_whole unfolding normal_diff_def normal_text_diff_def by presburger
  show "?d V N = diff (unlines V) (unlines N)" using assms(2) by simp
qed

lemma tagged_none: "untagged st \<Longrightarrow> seq_wf st \<Longrightarrow> tagged_included st (last_seq st) = [] \<and> tagged_excluded st (last_seq st) = []"
  by (auto simp: tagged_included_def tagged_excluded_def untagged_def is_explicitly_tagged_def seq_wf_def states_wf_def
      filter_empty_conv)

lemma add_delta_new_plain:
  assumes "\<not> null_deltas (sf_flags f)" and "untagged st" and "seq_wf st" and "last_seq st = high_seqno (sf_table f)"
    and "el_include it = rl_empty" and "el_exclude it = rl_empty" and "high_seqno (sf_table f) < 65535"
  shows "add_delta_new now usr new_mrs new_comments it got st f =
    Inr (delta_default\<lparr>delta_type := CHR ''D'', delta_id := el_delta it, delta_date := now, user := usr,
           seq := Suc (high_seqno (sf_table f)), prev_seq := seq got, mrs := new_mrs, comments := new_comments\<rparr>, f)"
  using tagged_none [OF assms(2,3)] assms
  by (simp add: add_delta_new_def add_null_deltas_def delta_ctor10_def is_valid_delta_type_def member_seqs_def rl_is_empty_def
      rl_empty_def seq_set_def next_seqno_def u16_of_def highest_delta_seqno_def delta_default_def)

definition checkin_file :: "sccs_file \<Rightarrow> bool" where
  "checkin_file f \<longleftrightarrow>
     file_storable f \<and> gettable f \<and> sf_mode f = UPDATE \<and> \<not> null_deltas (sf_flags f)
     \<and> high_seqno (sf_table f) < 65534 \<and> length (sf_body f) \<le> max_line
     \<and> sname (sf_name f) = sub_file (CHR ''s'') (sf_name f)"

text \<open>The update: the s-file that is written and how it is read back.\<close>

lemma add_delta_update_read:
  assumes "checkin_file f" and "find_delta f i = Some got" and "delta_storable nd"
    and nd: "seq nd = Suc (high_seqno (sf_table f))"
    and st: "seq_wf st" "last_seq st = high_seqno (sf_table f)" "open_blocks st = Map.empty"
    and V: "V = vis_lines (in_version st) Map.empty (sf_body f)"
    and "normal_text_diff diff" and "length N \<le> max_line"
    and N: "\<forall>x \<in> set N. plain_line x \<and> line_type x = NUL \<and> (lm = 0 \<or> length x < lm)"
  shows "\<exists>new nd' f' acts. add_delta_update lm diff display (unlines V) (unlines N) st nd f = Inr (new, nd', f')
     \<and> (\<exists>i j k. nd' = set_idu i j k nd)
     \<and> apply_script acts V = N \<and> script_text acts \<and> script_plain lm acts \<and> old_count acts \<le> length V
     \<and> sccs_file_ctor (sf_name f) READ silent True (sfile_executable f) new =
         Inr (f\<lparr>sf_mode := READ, checksum_valid := True, xfile_created := False, edit_mode_ok := True,
                sf_table := table_prepend (capped nd') (sf_table f),
                sf_body := weave_out (seq nd) (in_version st) Map.empty START acts (sf_body f)\<rparr>)"
proof -
  let ?h = "high_seqno (sf_table f)" and ?b = "sf_body f"
  have f: "file_storable f" "sf_mode f = UPDATE" "body_wf ?h ?b" "?h < seq nd" "seq nd \<le> 65535" "length ?b \<le> max_line"
    using assms(1) nd by (auto simp: checkin_file_def gettable_def)
  have V2: "length V \<le> max_line" "\<forall>l \<in> set V. plain_line l"
    using vis_lines_subset [of "in_version st" Map.empty ?b] f(3,6) unfolding V body_wf_def by auto
  with N have "\<forall>l \<in> set V \<union> set N. plain_line l" by blast
  then obtain differ where d: "normal_diff differ" "differ V N = diff (unlines V) (unlines N)"
    by (rule text_diff_lines [OF assms(9)])
  obtain r acts where r: "body_delta lm ?b ?h (seq nd) st (differ V N) display
        = Inr (r, unlines (weave_out (seq nd) (in_version st) Map.empty START acts ?b))"
      "apply_script acts V = N" "script_text acts" "script_plain lm acts" "old_count acts \<le> length V"
    using body_delta_weave [OF d(1) st f(3-5) V V2(1) assms(10) N, of display] by blast
  let ?new = "weave_out (seq nd) (in_version st) Map.empty START acts ?b"
  define nd' where "nd' = set_idu (dr_inserted r) (dr_deleted r) (dr_unchanged r) nd"
  have "body_wf (seq nd) ?new" using weave_out_wf [OF f(3-5) r(3,4)] r(5) V by simp
  then have "\<forall>l \<in> set ?new. plain_line l" by (simp add: body_wf_def)
  from delta_update_reads [OF f(1) this f(2) assms(3) nd'_def, of silent]
  obtain out new where "start_update_delta f nd = Inr out"
     "end_update_delta f (out @ unlines ?new) nd' = Inr (new, f\<lparr>sf_table := table_prepend nd' (sf_table f)\<rparr>)"
     "sccs_file_ctor (sf_name f) READ silent True (sfile_executable f) new =
         Inr (f\<lparr>sf_mode := READ, checksum_valid := True, xfile_created := False, edit_mode_ok := True,
                sf_table := table_prepend (capped nd') (sf_table f), sf_body := ?new\<rparr>)"
    by blast
  then show ?thesis
    using r d(2) by (auto simp: add_delta_update_def highest_delta_seqno_def nd'_def [symmetric] intro!: exI [of _ acts])
      (auto simp: nd'_def)
qed

text \<open>The versions of the file that was read back.\<close>

lemma grown_versions:
  assumes "checkin_file f" and "find_delta f i = Some got"
    and st: "get_state f (seq got) rl_empty rl_empty date_default = Inr st"
    and d: "seq d = Suc (high_seqno (sf_table f))" "prev_seq d = seq got" "included_seqs d = []" "excluded_seqs d = []"
      "ignored_seqs d = []"
    and acts: "apply_script acts V = N" "script_text acts" "script_plain lm acts" "old_count acts \<le> length V"
    and V: "V = vis_lines (in_version st) Map.empty (sf_body f)"
    and g: "sf_mode g = READ" "sf_flags g = sf_flags f" "sf_table g = table_prepend d (sf_table f)"
      "sf_body g = weave_out (seq d) (in_version st) Map.empty START acts (sf_body f)"
  shows "gettable g" and "version_lines g (seq d) = N"
    and "known (sf_table f) sq \<Longrightarrow> version_lines g sq = version_lines f sq"
proof -
  let ?h = "high_seqno (sf_table f)" and ?t = "sf_table f"
  have f: "gettable f" and b: "body_wf ?h (sf_body f)" and n: "?h < seq d" "seq d \<le> 65535" "0 < seq d" "seq d < 65535"
    and c: "complete ?t" and con: "table_consistent ?t"
    using assms(1) d(1) by (auto simp: checkin_file_def gettable_def)
  note cp = complete_prepend [OF c d(1)]
  have kn: "known ?t (prev_seq d)" using find_delta_known(3) [OF c assms(2)] d(2) by simp
  have con': "table_consistent (sf_table g)"
    using consistent_grow [OF cp(3) con] kn d n(3) unfolding g(3) by simp
  have wf: "body_wf (seq d) (sf_body g)"
    unfolding g(4) using weave_out_wf [OF b n(1,2) acts(2,3)] acts(4) V by simp
  show gg: "gettable g"
    using f g(1-3) con' cp(1,2) wf d(1) n(4) by (simp add: gettable_def)
  obtain st1 a b1 where st1: "get_state f (seq got) rl_empty rl_empty date_default = Inr st1"
      "version_eqs ?t (seq got) a b1 (in_version st1)"
    by (rule get_state_plain [OF f]) (use kn d(2) in auto)
  with st d(2) have v: "version_eqs ?t (prev_seq d) a b1 (in_version st)" by simp
  note v' = version_eqs_new [OF cp(3) con v kn d(3-5)]
  have "known (sf_table g) (seq d)" using known_grow [OF cp(3), of "seq d"] unfolding g(3) by simp
  then obtain st2 a2 b2 where st2: "version_eqs (sf_table g) (seq d) a2 b2 (in_version st2)"
      "version_lines g (seq d) = vis_lines (in_version st2) Map.empty (sf_body g)"
    by (rule get_state_plain [OF gg])
  have inc: "in_version st2 = (\<lambda>s. s = seq d \<or> in_version st s)"
    using version_eqs_unique [OF con' st2(1)] v' unfolding g(3) by blast
  show "version_lines g (seq d) = N"
    unfolding st2(2) g(4) inc
    using weave_out_new [of "seq d" ?h _ "in_version st" Map.empty "sf_body f" acts START] n b acts V
    by (auto simp: below_def body_wf_def)
  assume sq: "known ?t sq"
  then have le: "sq \<le> ?h" using known_complete [OF c] by simp
  obtain st3 a3 b3 where st3: "version_eqs ?t sq a3 b3 (in_version st3)"
      "version_lines f sq = vis_lines (in_version st3) Map.empty (sf_body f)"
    by (rule get_state_plain [OF f sq])
  have "known (sf_table g) sq" using known_grow [OF cp(3)] sq unfolding g(3) by simp
  then obtain st4 a4 b4 where st4: "version_eqs (sf_table g) sq a4 b4 (in_version st4)"
      "version_lines g sq = vis_lines (in_version st4) Map.empty (sf_body g)"
    by (rule get_state_plain [OF gg])
  have eq: "in_version st4 = in_version st3"
    using version_eqs_unique [OF con' st4(1)] version_eqs_old [OF cp(3) con st3(1) le] unfolding g(3) by blast
  have "\<not> in_version st3 (seq d)" using version_le(3) [OF con st3(1), of "seq d"] le n(1) by auto
  then show "version_lines g sq = version_lines f sq"
    unfolding st3(2) st4(2) g(4) eq
    using weave_out_old [of "seq d" ?h "in_version st3" Map.empty "sf_body f" acts START "in_version st"] n b acts(2)
    by (auto simp: below_def body_wf_def)
qed

lemma add_delta_dfile_plain:
  assumes "gettable f" and "seq_wf st" and "last_seq st = high_seqno (sf_table f)" and "open_blocks st = Map.empty"
  shows "add_delta_dfile canonify f st = Inr (unlines (vis_lines (in_version st) Map.empty (sf_body f)))"
proof -
  let ?c = "copy_seq_state st"
  have "states_wf (st\<lparr>inserting := False\<rparr>)" using assms(2) by (simp add: seq_wf_def states_wf_def)
  then have wf: "seq_wf ?c" using seq_wf_decide by (simp add: copy_seq_state_def)
  have pl: "\<forall>l \<in> set (vis_lines (in_version st) Map.empty (sf_body f)). plain_line l"
    using assms(1) vis_lines_subset [of "in_version st" Map.empty "sf_body f"] by (auto simp: gettable_def body_wf_def)
  have "open_blocks (st\<lparr>inserting := False\<rparr>) = open_blocks st" "in_version (st\<lparr>inserting := False\<rparr>) = in_version st"
    by (simp_all add: open_blocks_def in_version_def is_included_def fun_eq_iff)
  then have "open_blocks ?c = Map.empty" "in_version ?c = in_version st" "last_seq ?c = high_seqno (sf_table f)"
    using assms(3,4) by (simp_all add: copy_seq_state_def)
  then have "\<exists>st' p'. do_get canonify f ?c q False False False True False = Inr (st', p')
      \<and> sp_out p' = sp_out q @ unlines (vis_lines (in_version st) Map.empty (sf_body f))" for q
    using do_get_plain [OF assms(1) wf, of False canonify q True] shown_text_plain [OF pl] by simp
  from this [of "\<lparr>sp_outname = sub_file (CHR ''d'') (sf_name f), sp_module_name = get_module_name f, wstring = None,
             sp_out = [], sp_delta = delta_default, sp_out_lineno = 0, sp_now = date_default, found_id = False\<rparr>"]
  show ?thesis by (auto simp: add_delta_dfile_def)
qed

lemma add_delta_input_stored:
  assumes "stored_as f content N" and "sf_mode f = UPDATE"
    and "no_id_keywords_is_fatal (sf_flags f) \<longrightarrow> file_keyword_loop newline content"
  shows "add_delta_input f content = Inr (unlines N)"
proof -
  have "check_keywords_in_file f content = Inr ()"
    using assms(3) by (simp add: check_keywords_in_file_def no_id_keywords_action_def)
  moreover have "(if fl_encoded (sf_flags f) then encode_file content else Inr content) = Inr (unlines N)"
    using assms(1) unfolding stored_as_def encode_file_def encode_stream_chunks by (simp split: if_splits)
  ultimately show ?thesis using assms(2) by (simp add: add_delta_input_def)
qed

text \<open>The files that a successful check-in leaves.\<close>

lemma add_delta_files:
  assumes "k < length (edit_locks p)" and "list_all lock_wf (edit_locks p)"
    and "pfile_agrees (sub_file (CHR ''p'') (sf_name f)) (edit_locks p) dir"
    and "dir (sub_file (CHR ''q'') (sf_name f)) = None" and nm: "sname (sf_name f) = sub_file (CHR ''s'') (sf_name f)"
    and "add_delta_input f content = Inr ftd"
    and "add_delta_state f (edit_locks p ! k) = Inr (got, st)" and "add_delta_dfile canonify f st = Inr dtext"
    and "add_delta_new now usr new_mrs new_comments (edit_locks p ! k) got st f = Inr (nd, f1)"
    and "sid_wf (delta_id nd)" and "add_delta_update lm diff display dtext ftd st nd f1 = Inr (new, nd', f')"
  shows "\<exists>r dir'. add_delta lm diff now usr canonify f content p k new_mrs new_comments display dir = (Inr r, dir')
     \<and> (\<forall>x. x \<notin> {sname (sf_name f), sub_file (CHR ''p'') (sf_name f), sub_file (CHR ''d'') (sf_name f), sub_file (CHR ''u'') (sf_name f)} \<longrightarrow> dir' x = dir x)
     \<and> dir' (sub_file (CHR ''d'') (sf_name f)) = None
     \<and> open_pfile dir' (sub_file (CHR ''p'') (sf_name f)) PFILE_READ = Inr ((delete_lock k p)\<lparr>pmode := PFILE_READ\<rparr>)
     \<and> dir' (sname (sf_name f)) = Some new"
proof -
  let ?nm = "sf_name f"
  define ddir where "ddir = (if fl_encoded (sf_flags f) then dir(sub_file (CHR ''u'') ?nm := None) else dir)
     (sub_file (CHR ''d'') ?nm := None, sname ?nm \<mapsto> new)"
  have dd: "ddir (sub_file (CHR ''q'') ?nm) = None" "ddir (sub_file (CHR ''p'') ?nm) \<noteq> None"
      "sub_file (CHR ''q'') ?nm \<noteq> sub_file (CHR ''p'') ?nm"
    using assms(1,3,4) by (auto simp: ddir_def nm sub_file_def pfile_agrees_def)
  have wf': "list_all lock_wf (edit_locks (delete_lock k p))"
    using assms(2) by (auto simp: delete_lock_def list_all_iff dest: in_set_takeD in_set_dropD)
  obtain dir' where dir': "pfile_update (sub_file (CHR ''q'') ?nm) (sub_file (CHR ''p'') ?nm) True (edit_locks (delete_lock k p)) ddir
        = (Inr (), dir')"
      "pfile_agrees (sub_file (CHR ''p'') ?nm) (edit_locks (delete_lock k p)) dir'"
      "\<And>x. x \<noteq> sub_file (CHR ''p'') ?nm \<Longrightarrow> dir' x = ddir x"
    by (rule pfile_update_agrees [where dir = ddir and exists = True, OF wf' dd(1,3)]) (use dd(2) in auto)
  have "\<exists>r. add_delta lm diff now usr canonify f content p k new_mrs new_comments display dir = (Inr r, dir')"
    using assms(6-11) dir'(1) sid_print_text by (simp add: add_delta_def Let_def ddir_def split del: if_split)
  moreover have "open_pfile dir' (sub_file (CHR ''p'') ?nm) PFILE_READ = Inr ((delete_lock k p)\<lparr>pmode := PFILE_READ\<rparr>)"
    using open_pfile_agrees [OF dir'(2) wf'] by (cases p) (simp add: delete_lock_def)
  moreover have "\<forall>x. x \<notin> {sname ?nm, sub_file (CHR ''p'') ?nm, sub_file (CHR ''d'') ?nm, sub_file (CHR ''u'') ?nm} \<longrightarrow> dir' x = dir x"
    "dir' (sub_file (CHR ''d'') ?nm) = None" "dir' (sname ?nm) = Some new"
    using dir'(3) by (simp_all add: ddir_def nm sub_file_def)
  ultimately show ?thesis by blast
qed

section \<open>Properties\<close>

text \<open>
  C1. A check-in followed by \<open>get\<close>, end to end. Take an s-file that the format can hold, with a
  well-formed body, no gaps in its sequence numbers, fewer than 65534 deltas and consistent lists, a p-file with a lock
  without explicit lists, and any program that prints the normal format of \<open>diff\<close>. Then
  \<open>add_delta\<close> of a file succeeds, where the file is made of text lines, or is any file at all if
  the s-file is encoded. It touches only the s-file, the p-file and its temporary files; the lock
  is gone from the p-file; the s-file that it leaves is read by the constructor; \<open>get\<close> of the
  new SID from what was read gives exactly the contents that were checked in, and \<open>get\<close> of
  every other SID gives what it gave before.
\<close>

theorem checkin_then_get:
  assumes f: "checkin_file f" and "k < length (edit_locks p)" and it: "it = edit_locks p ! k"
    and "find_delta f (el_got it) = Some got" and "el_include it = rl_empty" and "el_exclude it = rl_empty"
    and locks: "list_all lock_wf (edit_locks p)"
    and "pfile_agrees (sub_file (CHR ''p'') (sf_name f)) (edit_locks p) dir"
    and "dir (sub_file (CHR ''q'') (sf_name f)) = None"
    and "date_sfile now" and "plain_word usr" and "\<forall>l \<in> set new_mrs \<union> set new_comments. plain_line l"
    and "normal_text_diff diff" and "length N \<le> max_line"
    and N: "\<forall>x \<in> set N. plain_line x \<and> line_type x = NUL \<and> (lm = 0 \<or> length x < lm)"
    and content: "stored_as f content N" "no_id_keywords_is_fatal (sf_flags f) \<longrightarrow> file_keyword_loop newline content"
  shows "\<exists>r dir' new g. add_delta lm diff now usr canonify f content p k new_mrs new_comments display dir = (Inr r, dir')
     \<and> (\<forall>x. x \<notin> {sname (sf_name f), sub_file (CHR ''p'') (sf_name f), sub_file (CHR ''d'') (sf_name f), sub_file (CHR ''u'') (sf_name f)} \<longrightarrow> dir' x = dir x)
     \<and> dir' (sub_file (CHR ''d'') (sf_name f)) = None
     \<and> open_pfile dir' (sub_file (CHR ''p'') (sf_name f)) PFILE_READ = Inr ((delete_lock k p)\<lparr>pmode := PFILE_READ\<rparr>)
     \<and> dir' (sname (sf_name f)) = Some new
     \<and> sccs_file_ctor (sf_name f) READ silent True (sfile_executable f) new = Inr g
     \<and> (\<exists>status. sfile_get now canonify g outname False (el_delta it) date_default rl_empty rl_empty False None False False False
            = Inr (status, content, []))
     \<and> (\<forall>i. i \<noteq> el_delta it \<and> find_delta f i \<noteq> None \<longrightarrow>
          (\<exists>s1 s2 old. sfile_get now canonify f outname False i date_default rl_empty rl_empty False None False False False
                = Inr (s1, old, [])
             \<and> sfile_get now canonify g outname False i date_default rl_empty rl_empty False None False False False
                = Inr (s2, old, [])))"
proof -
  let ?nm = "sf_name f" and ?t = "sf_table f" and ?n = "Suc (high_seqno (sf_table f))"
  have gf: "gettable f" and c: "complete ?t" and mode: "sf_mode f = UPDATE"
    and nul: "\<not> null_deltas (sf_flags f)" and h: "high_seqno ?t < 65535" and nm: "sname ?nm = sub_file (CHR ''s'') ?nm"
    using f by (auto simp: checkin_file_def gettable_def)
  note got = find_delta_known [OF c assms(4)]
  obtain st where st: "get_state f (seq got) rl_empty rl_empty date_default = Inr st" "seq_wf st"
      "last_seq st = high_seqno ?t" "open_blocks st = Map.empty" "untagged st"
      "version_lines f (seq got) = vis_lines (in_version st) Map.empty (sf_body f)"
    by (rule get_state_plain [OF gf got(3)])
  define V where "V = version_lines f (seq got)"
  have input: "add_delta_input f content = Inr (unlines N)"
    by (rule add_delta_input_stored [OF content(1) mode content(2)])
  have state: "add_delta_state f it = Inr (got, st)"
    using assms(4-6) st(1) by (simp add: add_delta_state_def)
  have dfile: "add_delta_dfile canonify f st = Inr (unlines V)"
    using add_delta_dfile_plain [OF gf st(2-4)] st(6) by (simp add: V_def)
  define nd where "nd = delta_default\<lparr>delta_type := CHR ''D'', delta_id := el_delta it, delta_date := now, user := usr,
           seq := ?n, prev_seq := seq got, mrs := new_mrs, comments := new_comments\<rparr>"
  have new: "add_delta_new now usr new_mrs new_comments it got st f = Inr (nd, f)"
    unfolding nd_def by (rule add_delta_new_plain [OF nul st(5,2,3) assms(5,6) h])
  have lw: "sid_wf (el_delta it)" using locks assms(2) it by (auto simp: list_all_length lock_wf_def)
  have storable: "delta_storable nd"
    using lw assms(10-12) h known_complete [OF c] got(3)
    by (simp add: delta_storable_def nd_def delta_default_def is_valid_delta_type_def)
  obtain new nd' f' acts i j l where upd: "add_delta_update lm diff display (unlines V) (unlines N) st nd f = Inr (new, nd', f')"
      "nd' = set_idu i j l nd" and acts: "apply_script acts V = N" "script_text acts" "script_plain lm acts" "old_count acts \<le> length V"
      and read: "sccs_file_ctor ?nm READ silent True (sfile_executable f) new =
         Inr (f\<lparr>sf_mode := READ, checksum_valid := True, xfile_created := False, edit_mode_ok := True,
                sf_table := table_prepend (capped nd') ?t,
                sf_body := weave_out ?n (in_version st) Map.empty START acts (sf_body f)\<rparr>)"
    using add_delta_update_read [OF f assms(4) storable _ st(2-4) V_def [unfolded st(6)] assms(13,14) N, of display silent]
    by (auto simp: nd_def)
  define g where "g = f\<lparr>sf_mode := READ, checksum_valid := True, xfile_created := False, edit_mode_ok := True,
                sf_table := table_prepend (capped nd') ?t,
                sf_body := weave_out ?n (in_version st) Map.empty START acts (sf_body f)\<rparr>"
  have d: "seq (capped nd') = ?n" "prev_seq (capped nd') = seq got" "included_seqs (capped nd') = []" "excluded_seqs (capped nd') = []"
      "ignored_seqs (capped nd') = []" "delta_id (capped nd') = el_delta it" "\<not> removed (capped nd')"
    by (simp_all add: capped_def set_idu_def upd(2) nd_def delta_default_def removed_def)
  note gv = grown_versions [OF f assms(4) st(1) d(1-5) acts V_def [unfolded st(6)], of g]
  have gg: "gettable g" and gn: "version_lines g ?n = N" and go: "known ?t sq \<Longrightarrow> version_lines g sq = version_lines f sq" for sq
    using gv d(1) by (simp_all add: g_def)
  have fd: "find_delta g i = (if i = el_delta it then Some (capped nd') else find_delta f i)" for i
    using d(6,7) by (simp add: g_def find_delta_def table_find_eq selected_def table_prepend_wf)
  note files = add_delta_files [OF assms(2) locks assms(8,9) nm input, folded it, OF state dfile new _ upd(1)]
  have g_new: "\<exists>status. sfile_get now canonify g outname False (el_delta it) date_default rl_empty rl_empty False None False False False
            = Inr (status, content, [])"
    using sfile_get_plain [OF gg, of "el_delta it" "capped nd'" False] fd gn d(1) stored_as_shown [OF content(1), of g] N
    by (simp add: g_def)
  have g_old: "\<exists>s1 s2 old. sfile_get now canonify f outname False i date_default rl_empty rl_empty False None False False False
                = Inr (s1, old, [])
             \<and> sfile_get now canonify g outname False i date_default rl_empty rl_empty False None False False False
                = Inr (s2, old, [])" if i: "i \<noteq> el_delta it" "find_delta f i \<noteq> None" for i
  proof -
    obtain x where x: "find_delta f i = Some x" using i(2) by blast
    have "find_delta g i = Some x" using x i(1) fd by simp
    moreover have "shown_text g False ls = shown_text f False ls" for ls by (simp add: shown_text_def g_def)
    ultimately show ?thesis
      using sfile_get_plain [OF gg, of i x False] sfile_get_plain [OF gf x, of False] go [OF find_delta_known(3) [OF c x]]
      by metis
  qed
  show ?thesis
    using files lw read [folded g_def] g_new g_old by (auto simp: nd_def)
qed

text \<open>The file of the examples with its own name, and a lock on its only delta.\<close>

definition checkin_sample :: sccs_file where
  "checkin_sample = sample_file\<lparr>sf_name := new_name\<lparr>sname := ''s.x'', gname := ''x'', name_rear := ''.x''\<rparr>\<rparr>"

definition checkin_lock :: edit_lock where
  "checkin_lock = \<lparr>el_got = mk_sid 1 1 0 0, el_delta = mk_sid 1 2 0 0, el_user = ''ann'', el_date = date_ctor6 2001 2 3 4 5 6,
      el_include = rl_empty, el_exclude = rl_empty\<rparr>"

definition whole_text_diff :: "string \<Rightarrow> string \<Rightarrow> string list" where
  "whole_text_diff a b = whole_diff (read_all CHUNK a) (read_all CHUNK b)"

lemma normal_text_diff_whole: "normal_text_diff whole_text_diff"
  unfolding normal_text_diff_def
proof (intro allI impI)
  fix V N assume p: "\<forall>l \<in> set V \<union> set N. plain_line l"
  have "read_all CHUNK (unlines V) = V" "read_all CHUNK (unlines N) = N"
    using p by (auto intro!: read_all_unlines simp: CHUNK_def)
  then show "\<exists>hs. hunks_ok True hs \<and> describes hs V N \<and> whole_text_diff (unlines V) (unlines N) = render 0 0 hs"
    using normal_diff_whole by (simp add: whole_text_diff_def normal_diff_def)
qed

lemma checkin_sample_ok: "checkin_file checkin_sample"
proof -
  have it: "items (sf_table checkin_sample) = [sample_delta]" "sf_table checkin_sample = table_add sample_delta table_empty"
    by (simp_all add: checkin_sample_def sample_file_def file_start_def)
  have s: "seq sample_delta = 1" "prev_seq sample_delta = 0" "included_seqs sample_delta = []" "excluded_seqs sample_delta = []"
      "ignored_seqs sample_delta = []"
    by (simp_all add: sample_delta_def delta_default_def)
  have h: "high_seqno (sf_table checkin_sample) = 1" using s by (simp add: it)
  have c: "complete (sf_table checkin_sample)" using s(1) h by (simp add: complete_def it)
  have con: "table_consistent (sf_table checkin_sample)"
    unfolding table_consistent_def at_seq_complete [OF c] it(1) using s by auto
  have "sf_body checkin_sample = [ctl_line (CHR ''I'') 1, ''hello'', ctl_line (CHR ''E'') 1]"
  proof -
    have "ctl_line (CHR ''I'') 1 = ctrl_A # ''I 1''" "ctl_line (CHR ''E'') 1 = ctrl_A # ''E 1''" by code_simp+
    then show ?thesis by (simp add: checkin_sample_def sample_file_def file_start_def)
  qed
  moreover have "line_type ''hello'' = NUL" by (simp add: line_type_def)
  ultimately have b: "body_wf 1 (sf_body checkin_sample)" "length (sf_body checkin_sample) \<le> max_line"
    by (simp_all add: body_wf_def ctl_ok_def upd_def plain_ctl_line max_line_def)
  have "file_storable checkin_sample"
    using sample_file_storable by (simp add: file_storable_def checkin_sample_def name_valid_def)
  then show ?thesis
    using b c h con by (simp add: checkin_file_def gettable_def)
       (simp add: checkin_sample_def sample_file_def file_start_def flags_default_def sub_file_def new_name_def)
qed

theorem checkin_then_get_witness:
  "\<exists>r dir' new g status. add_delta 0 whole_text_diff (date_ctor6 2001 2 3 4 5 6) ''ann'' Some checkin_sample (unlines [''bye'']) \<lparr>pmode = PFILE_APPEND, edit_locks = [checkin_lock]\<rparr> 0 [] [''second version''] False
        [''p.x'' \<mapsto> locks_text [checkin_lock]] = (Inr r, dir')
     \<and> dir' ''s.x'' = Some new \<and> open_pfile dir' ''p.x'' PFILE_READ = Inr \<lparr>pmode = PFILE_READ, edit_locks = []\<rparr>
     \<and> sccs_file_ctor (sf_name checkin_sample) READ False True (sfile_executable checkin_sample) new = Inr g
     \<and> sfile_get (date_ctor6 2001 2 3 4 5 6) Some g ''x'' False (mk_sid 1 2 0 0) date_default rl_empty rl_empty False None False False False
          = Inr (status, unlines [''bye''], [])"
proof -
  let ?p = "\<lparr>pmode = PFILE_APPEND, edit_locks = [checkin_lock]\<rparr>"
  have date: "date_sfile (date_ctor6 2001 2 3 4 5 6)" unfolding date_sfile_def by code_simp
  then have wf: "lock_wf checkin_lock"
    by (simp add: lock_wf_def checkin_lock_def stored_list_def rl_empty_def sid_wf_def plain_word_def)
  have found: "find_delta checkin_sample (el_got checkin_lock) = Some sample_delta"
    by (simp add: find_delta_def table_find_eq selected_def checkin_sample_def sample_file_def file_start_def checkin_lock_def)
       (simp add: sample_delta_def delta_default_def removed_def)
  have names: "sname (sf_name checkin_sample) = ''s.x''" "sub_file c (sf_name checkin_sample) = c # ''.x''"
      "\<not> no_id_keywords_is_fatal (sf_flags checkin_sample)" "\<not> fl_encoded (sf_flags checkin_sample)" for c
    by (simp_all add: checkin_sample_def sub_file_def new_name_def sample_file_def file_start_def flags_default_def)
  have "line_type ''bye'' = NUL" by (simp add: line_type_def)
  then show ?thesis
    using checkin_then_get [OF checkin_sample_ok, of 0 ?p checkin_lock sample_delta "[''p.x'' \<mapsto> locks_text [checkin_lock]]"
        "date_ctor6 2001 2 3 4 5 6" "''ann''" "[]" "[''second version'']" whole_text_diff "[''bye'']" 0 "unlines [''bye'']" Some False False "''x''"]
      found wf date normal_text_diff_whole
    by (auto simp: names pfile_agrees_def plain_word_def max_line_def delete_lock_def checkin_lock_def stored_as_def)
qed

end
