(* ===== verification/Options.thy ===== *)
theory Options
  imports Line_Reader
begin

text \<open>
  \<open>class CSSC_Options\<close> (my-getopt.h, my-getopt.cc): the options of a command line. \<open>argv\<close> is the
  list of the arguments with the name of the program in front; \<open>cindex\<close> is the rest of the
  argument that is being read, \<open>None\<close> for a null pointer. \<open>usage\<close> and the messages are left
  out; \<open>exit\<close> is \<open>Fatal\<close>.
\<close>

record cssc_options =
  argv :: "string list"
  arg_index :: nat
  cindex :: "string option"
  opts :: string
  opterr :: nat
  arg :: "string option"

datatype option_code = END_OF_ARGUMENTS | UNRECOGNIZED_OPTION | Option_letter char

definition argc :: "cssc_options \<Rightarrow> nat" where
  "argc opt = length (argv opt)"

section \<open>reorder\<close>

text \<open>The loop that separates the options from the files; what follows \<open>--\<close> is a file.\<close>

fun separate :: "string list \<Rightarrow> string list \<times> string list" where
  "separate [] = ([], [])"
| "separate (a # as) =
     (if char_at a 0 = CHR ''-'' then
        if char_at a 1 = CHR ''-'' then ([], as)
        else (case separate as of (options, files) \<Rightarrow> (a # options, files))
      else (case separate as of (options, files) \<Rightarrow> (options, a # files)))"

definition reorder :: "string list \<Rightarrow> string list" where
  "reorder av = (case separate (drop 1 av) of (options, files) \<Rightarrow> take 1 av @ options @ files)"

definition new_options :: "string list \<Rightarrow> string \<Rightarrow> nat \<Rightarrow> cssc_options" where
  "new_options av s err =
     \<lparr>argv = reorder av, arg_index = 1, cindex = None, opts = s, opterr = err, arg = None\<rparr>"

section \<open>next\<close>

text \<open>The first part: the characters to read, or \<open>None\<close> at the end of the options.\<close>

definition next_argument :: "cssc_options \<Rightarrow> string option \<times> cssc_options" where
  "next_argument opt =
     (case cindex opt of
        Some (c # s) \<Rightarrow> (Some (c # s), opt)
      | _ \<Rightarrow>
          if arg_index opt \<ge> argc opt then (None, opt)
          else
            let a = argv opt ! arg_index opt; opt = opt\<lparr>cindex := Some a\<rparr> in
            if char_at a 0 \<noteq> CHR ''-'' \<or> char_at a 1 = NUL then (None, opt)
            else
              let opt = opt\<lparr>arg_index := arg_index opt + 1\<rparr> in
              if char_at a 1 = CHR ''-'' \<and> char_at a 2 = NUL then (None, opt)
              else (Some (drop 1 a), opt))"

definition next_option :: "cssc_options \<Rightarrow> (option_code \<times> cssc_options) res" where
  "next_option opt =
     (case next_argument opt of
        (None, opt) \<Rightarrow> Inr (END_OF_ARGUMENTS, opt)
      | (Some [], opt) \<Rightarrow> Inr (UNRECOGNIZED_OPTION, opt)
      | (Some (c # s), opt) \<Rightarrow>
          let opt = opt\<lparr>cindex := Some s\<rparr> in
          (case dropWhile (\<lambda>x. x \<noteq> c) (opts opt) of
             [] \<Rightarrow>
               if opterr opt \<noteq> 0 then Inl (Fatal (Message ''usage''))
               else Inr (UNRECOGNIZED_OPTION, opt\<lparr>arg := Some (c # s)\<rparr>)
           | m # rest \<Rightarrow>
               if CHR '':'' \<in> set (opts opt) then Inl (Fatal (Message ''colon''))
               else if char_at rest 0 = CHR ''!''
               then Inr (Option_letter c, opt\<lparr>arg := Some s, cindex := None\<rparr>)
               else Inr (Option_letter c, opt\<lparr>arg := None\<rparr>)))"

section \<open>The loop of the commands\<close>

text \<open>The characters that are left, and one more for every argument that has not been started.\<close>

definition options_left :: "cssc_options \<Rightarrow> nat" where
  "options_left opt =
     sum_list (map (\<lambda>a. Suc (length a)) (drop (arg_index opt) (argv opt)))
     + (case cindex opt of Some s \<Rightarrow> length s | None \<Rightarrow> 0)"

lemma next_argument_left:
  assumes "next_argument opt = (Some s, opt')"
  shows "sum_list (map (\<lambda>a. Suc (length a)) (drop (arg_index opt') (argv opt'))) + length s \<le> options_left opt
     \<and> (s = [] \<longrightarrow> options_left opt' < options_left opt) \<and> opts opt' = opts opt \<and> argv opt' = argv opt"
proof (cases "\<exists>c r. cindex opt = Some (c # r)")
  case True
  then show ?thesis using assms by (auto simp: next_argument_def options_left_def)
next
  case False
  let ?a = "argv opt ! arg_index opt"
  have *: "arg_index opt < length (argv opt)" "s = drop 1 ?a" "char_at ?a 0 = CHR ''-''" "char_at ?a 1 \<noteq> NUL"
      "opt' = opt\<lparr>cindex := Some ?a, arg_index := arg_index opt + 1\<rparr>"
    using assms False
    by (auto simp: next_argument_def argc_def Let_def split: option.splits list.splits if_splits)
  then have "drop (arg_index opt) (argv opt) = ?a # drop (Suc (arg_index opt)) (argv opt)" by (simp add: Cons_nth_drop_Suc)
  moreover have "drop 1 ?a \<noteq> []" using *(3,4) by (cases ?a; cases "tl ?a") (auto simp: char_at_def)
  ultimately show ?thesis using * by (auto simp: options_left_def)
qed

lemma next_option_left:
  assumes "next_option opt = Inr (Option_letter c, opt')"
  shows "options_left opt' < options_left opt"
proof -
  obtain s opt1 where n: "next_argument opt = (Some (c # s), opt1)"
    using assms
    by (auto simp: next_option_def Let_def split: prod.splits option.splits list.splits if_splits)
  then have "opt' = opt1\<lparr>cindex := Some s, arg := Some s, cindex := None\<rparr> \<or> opt' = opt1\<lparr>cindex := Some s, arg := None\<rparr>"
    using assms by (auto simp: next_option_def Let_def split: list.splits if_splits)
  then show ?thesis using next_argument_left [OF n] by (auto simp: options_left_def)
qed

text \<open>
  \<open>for (c = opts.next (); c != END_OF_ARGUMENTS; c = opts.next ())\<close> around the \<open>switch\<close> of a
  command, which is an argument: it has the options read so far and gets a letter with its
  argument; it gives the new options or the exit status with which the command returns. An
  option that is not recognised (only \<open>val\<close> sees one, the others exit) is the letter NUL. The
  result are the options and the files that follow them.
\<close>

function option_loop ::
  "('o \<Rightarrow> char \<times> string \<Rightarrow> (int + 'o) res) \<Rightarrow> cssc_options \<Rightarrow> 'o \<Rightarrow> (int + 'o \<times> string list) res" where
  "option_loop f opt acc =
     (case next_option opt of
        Inl e \<Rightarrow> Inl e
      | Inr (END_OF_ARGUMENTS, opt') \<Rightarrow> Inr (Inr (acc, drop (arg_index opt') (argv opt')))
      | Inr (UNRECOGNIZED_OPTION, opt') \<Rightarrow> bindE (f acc (NUL, [])) (\<lambda>r. Inr (map_sum id (\<lambda>acc. (acc, [])) r))
      | Inr (Option_letter c, opt') \<Rightarrow>
          (case f acc (c, case arg opt' of Some s \<Rightarrow> s | None \<Rightarrow> []) of
             Inl e \<Rightarrow> Inl e
           | Inr (Inl status) \<Rightarrow> Inr (Inl status)
           | Inr (Inr acc) \<Rightarrow> option_loop f opt' acc))"
  by pat_completeness auto
termination
  by (relation "measure (\<lambda>(f, opt, acc). options_left opt)") (auto dest: next_option_left simp: eq_commute)

declare option_loop.simps [simp del]

definition parse_arguments ::
  "('o \<Rightarrow> char \<times> string \<Rightarrow> (int + 'o) res) \<Rightarrow> 'o \<Rightarrow> string \<Rightarrow> nat \<Rightarrow> string list \<Rightarrow> (int + 'o \<times> string list) res" where
  "parse_arguments f start s err av = option_loop f (new_options av s err) start"

section \<open>Order of the arguments\<close>

text \<open>Without \<open>--\<close> the options and the files are separated, and each keeps its order.\<close>

lemma separate_filter:
  "\<forall>a \<in> set as. char_at a 1 \<noteq> CHR ''-'' \<Longrightarrow>
     separate as = (filter (\<lambda>a. char_at a 0 = CHR ''-'') as, filter (\<lambda>a. char_at a 0 \<noteq> CHR ''-'') as)"
  by (induction as) auto

text \<open>
  \<open>--\<close> itself is dropped by \<open>reorder\<close>, so that a file name behind it that starts with a dash is
  read as an option after all.
\<close>

lemma double_dash_lost:
  "parse_arguments (\<lambda>acc x. Inr (Inr (acc @ [x]))) [] ''p'' 2 [''get'', ''--'', ''-p''] = Inr (Inr ([(CHR ''p'', [])], []))"
  by code_simp

end
