(* ===== verification/Command_Line.thy ===== *)
theory Command_Line
  imports Options Get Sfile_Update
begin

text \<open>
  What the commands share: the operating system as they see it, the s-files that a command line
  names (fileiter.h, fileiter.cc), prompting (prompt.cc), opening files, and the loop over the
  files with its \<open>catch\<close> clause and exit status.
\<close>

section \<open>The operating system\<close>

text \<open>
  What the commands ask the operating system: the user's name and groups, the clock, the full name
  of a file, which files can be created or read, the entries of a directory that can be opened, which
  files are directories (\<open>None\<close> when that cannot be found out), whether the lock file
  of an s-file can be made, whether a file is executable, the exit status of the program that checks MRs, the
  output of \<open>diff\<close>, and the limits from the environment.
\<close>

record os =
  os_user :: string
  os_group :: "int \<Rightarrow> bool"
  os_now :: sccs_date
  os_canonify :: "string \<Rightarrow> string option"
  os_creatable :: "string \<Rightarrow> bool"
  os_readable :: "string \<Rightarrow> bool"
  os_entries :: "string \<Rightarrow> string list option"
  os_is_dir :: "string \<Rightarrow> bool option"
  os_lock :: "string \<Rightarrow> bool"
  os_xbits :: "string \<Rightarrow> bool"
  os_run :: "string \<Rightarrow> string list \<Rightarrow> int"
  os_diff :: "string \<Rightarrow> string \<Rightarrow> string list"
  os_line_max :: nat
  os_binary :: "bool res"

text \<open>The files, what was printed on the standard output, and what is left of the standard input.\<close>

record world =
  w_dir :: directory
  w_out :: string
  w_stdin :: string

definition say :: "string \<Rightarrow> world \<Rightarrow> world" where
  "say t w = w\<lparr>w_out := w_out w @ t\<rparr>"

section \<open>The files of a command line\<close>

datatype file_source = NONE | ARGS | STDIN | DIRECTORY

record sccs_file_iterator =
  it_source :: file_source
  it_unique :: bool
  it_files :: "string list"

text \<open>
  \<open>from_directory\<close> on the entries of the directory. A failure of \<open>readdir\<close> before the end is not
  modelled: the loop goes on with the null pointer that it got.
\<close>

fun from_directory :: "os \<Rightarrow> string \<Rightarrow> string list \<Rightarrow> string list res" where
  "from_directory os dirname [] = Inr []"
| "from_directory os dirname (e # es) =
     bindE (valid_filename (dirname @ e)) (\<lambda>v.
     bindE (from_directory os dirname es) (\<lambda>r.
       Inr (if v \<and> os_readable os (dirname @ e) \<and> os_is_dir os (dirname @ e) = Some False then (dirname @ e) # r else r)))"

definition directory_prefix :: "string \<Rightarrow> string" where
  "directory_prefix d = d @ (if last d \<noteq> CHR ''/'' then ''/'' else [])"

text \<open>\<open>from_stdin\<close>: the lines without their newlines.\<close>

definition from_stdin :: "string \<Rightarrow> string list" where
  "from_stdin s = read_all CHUNK s"

text \<open>One name of the command line. A name that was assigned is always valid, so that \<open>make_valid\<close> is never called.\<close>

definition argument_name :: "os \<Rightarrow> string \<Rightarrow> string res" where
  "argument_name os n =
     bindE (name_assign n new_name) (\<lambda>nm.
       if name_valid nm then Inr n else bindE (make_valid (os_readable os) nm) (\<lambda>nm. Inr (sname nm)))"

definition argument_names :: "os \<Rightarrow> string list \<Rightarrow> string list res" where
  "argument_names os ns = foldE (\<lambda>fs n. bindE (argument_name os n) (\<lambda>f. Inr (fs @ [f]))) [] ns"

text \<open>The constructor; the rest of the standard input is returned as well.\<close>

definition new_file_iterator :: "os \<Rightarrow> string \<Rightarrow> string list \<Rightarrow> (sccs_file_iterator \<times> string) res" where
  "new_file_iterator os stdin args =
     (case args of
        [] \<Rightarrow> Inr (\<lparr>it_source = NONE, it_unique = False, it_files = []\<rparr>, stdin)
      | first # _ \<Rightarrow>
          if first = ''-'' then Inr (\<lparr>it_source = STDIN, it_unique = False, it_files = from_stdin stdin\<rparr>, [])
          else
            (case (if first \<noteq> [] then os_entries os first else None) of
               Some es \<Rightarrow>
                 bindE (from_directory os (directory_prefix first) es) (\<lambda>fs.
                   Inr (\<lparr>it_source = DIRECTORY, it_unique = False, it_files = fs\<rparr>, stdin))
             | None \<Rightarrow>
                 bindE (argument_names os args) (\<lambda>fs.
                   Inr (\<lparr>it_source = ARGS, it_unique = (length args = 1), it_files = fs\<rparr>, stdin))))"

section \<open>Prompting\<close>

text \<open>
  \<open>prompt_user\<close>: a line of the standard input, in which a backslash before a newline is replaced by the newline. The
  prompt itself, which is only written to a terminal, is left out.
\<close>

fun prompt_loop :: "char \<Rightarrow> string \<Rightarrow> string \<Rightarrow> string \<times> string" where
  "prompt_loop lastc acc [] = (acc, [])"
| "prompt_loop lastc acc (c # s) =
     (if c = newline then
        (if lastc = CHR 0x5C then prompt_loop c (butlast acc @ [c]) s else (acc, s))
      else prompt_loop c (acc @ [c]) s)"

definition prompt_user :: "string \<Rightarrow> string \<times> string" where
  "prompt_user s = (case prompt_loop NUL [] s of (t, r) \<Rightarrow> (c_str t, r))"

section \<open>Opening files\<close>

definition open_sfile :: "os \<Rightarrow> directory \<Rightarrow> sccs_name \<Rightarrow> sccs_file_open_mode \<Rightarrow> sccs_file res" where
  "open_sfile os dir nm m =
     (if m \<noteq> CREATE \<and> name_valid nm \<and> (m \<noteq> READ \<longrightarrow> os_lock os (sname nm)) \<and> dir (sname nm) = None
      then Inl (Fatal (Message ''Cannot open SCCS file''))
      else sccs_file_ctor nm m False (os_lock os (sname nm)) (os_xbits os (sname nm))
             (case dir (sname nm) of Some s \<Rightarrow> s | None \<Rightarrow> []))"

definition open_locks :: "os \<Rightarrow> directory \<Rightarrow> sccs_name \<Rightarrow> pfile_mode \<Rightarrow> sccs_pfile res" where
  "open_locks os dir nm m =
     (if \<not> name_valid nm then Inl (Fatal (Message ''Not a SCCS file''))
      else if m \<noteq> PFILE_READ \<and> \<not> os_lock os (sname nm) then Inl (Fatal (Message ''SCCS file is locked''))
      else open_pfile dir (sub_file (CHR ''p'') nm) m)"

text \<open>\<open>sccs_file::check_mrs\<close> (run.cc): true when the validation program rejects the MRs.\<close>

definition check_mrs :: "os \<Rightarrow> sccs_file \<Rightarrow> string list \<Rightarrow> bool res" where
  "check_mrs os f ms =
     (case mr_checker (sf_flags f) of
        None \<Rightarrow> Inl Assertion
      | Some prg \<Rightarrow> Inr (prg \<noteq> [] \<and> os_run os prg (gname (sf_name f) # ms) \<noteq> 0))"

section \<open>The loop over the files\<close>

text \<open>
  What the body of the loop leaves: the exit status as it was, a new one, one that counts if it
  is greater than the old one, or a \<open>return\<close> from the command.
\<close>

datatype outcome = Keep | Status int | At_least int | Return int

text \<open>
  The exit value of an exception. An assertion aborts the program, and so does a null pointer or
  an \<open>exit\<close> in the middle; a failure that is not an exception sets the status to 1 in every
  command.
\<close>

definition exit_value :: "cssc_error \<Rightarrow> outcome option" where
  "exit_value e =
     (case e of
        Corrupt d \<Rightarrow> Some (At_least 1)
      | Fatal d \<Rightarrow>
          if d \<in> {Message ''null'', Message ''undefined'', Message ''usage'', Message ''CSSC_BINARY_SUPPORT'',
                  Message ''CSSC_MAX_LINE_LENGTH''} then None else Some (At_least 1)
      | Failed d \<Rightarrow> Some (Status 1)
      | Assertion \<Rightarrow> None
      | Diverged \<Rightarrow> None)"

definition new_status :: "int \<Rightarrow> outcome \<Rightarrow> int" where
  "new_status retval out =
     (case out of Keep \<Rightarrow> retval | Status n \<Rightarrow> n | At_least n \<Rightarrow> max n retval | Return n \<Rightarrow> n)"

fun command_loop :: "('s \<Rightarrow> sccs_name \<Rightarrow> outcome res \<times> 's) \<Rightarrow> int \<Rightarrow> 's \<Rightarrow> string list \<Rightarrow> int res \<times> 's" where
  "command_loop body retval s [] = (Inr retval, s)"
| "command_loop body retval s (n # ns) =
     (case name_assign n new_name of
        Inl e \<Rightarrow> (Inl e, s)
      | Inr nm \<Rightarrow>
          (case body s nm of
             (Inr (Return k), s') \<Rightarrow> (Inr k, s')
           | (Inr out, s') \<Rightarrow> command_loop body (new_status retval out) s' ns
           | (Inl e, s') \<Rightarrow>
               (case exit_value e of
                  None \<Rightarrow> (Inl e, s')
                | Some out \<Rightarrow> command_loop body (new_status retval out) s' ns)))"

text \<open>
  A command: its options, the files of the command line, and the loop. \<open>missing\<close> is the exit
  status when no file is named, \<open>start\<close> gives the state of the loop or the exit status of a test
  that comes after the options.
\<close>

definition run_command ::
  "os \<Rightarrow> ('o \<Rightarrow> char \<times> string \<Rightarrow> (int + 'o) res) \<Rightarrow> 'o \<Rightarrow> string \<Rightarrow> nat \<Rightarrow>
   ('o \<Rightarrow> sccs_file_iterator \<Rightarrow> world \<Rightarrow> (int + 's) res) \<Rightarrow> ('o \<Rightarrow> bool \<Rightarrow> 's \<Rightarrow> sccs_name \<Rightarrow> outcome res \<times> 's) \<Rightarrow>
   ('s \<Rightarrow> world) \<Rightarrow> string list \<Rightarrow> world \<Rightarrow> int res \<times> world" where
  "run_command os switch o0 letters err start body world_of av w =
     (case parse_arguments switch o0 letters err av of
        Inl e \<Rightarrow> (Inl e, w)
      | Inr (Inl status) \<Rightarrow> (Inr status, w)
      | Inr (Inr (opt, args)) \<Rightarrow>
          (case new_file_iterator os (w_stdin w) args of
             Inl e \<Rightarrow> (Inl e, w)
           | Inr (it, stdin) \<Rightarrow>
               (case start opt it (w\<lparr>w_stdin := stdin\<rparr>) of
                  Inl e \<Rightarrow> (Inl e, w)
                | Inr (Inl status) \<Rightarrow> (Inr status, w\<lparr>w_stdin := stdin\<rparr>)
                | Inr (Inr s) \<Rightarrow>
                    (case command_loop (body opt (it_unique it)) 0 s (it_files it) of
                       (r, s') \<Rightarrow> (r, world_of s')))))"

text \<open>The heading that some commands print for each of several files.\<close>

definition file_heading :: "bool \<Rightarrow> sccs_name \<Rightarrow> string" where
  "file_heading unique nm = (if unique then [] else newline # sname nm @ '':'' @ [newline])"

section \<open>Lemmas\<close>

lemma argument_name_id: "argument_name os n = Inr m \<Longrightarrow> m = n"
  by (auto simp: argument_name_def bindE_eq_Inr name_valid_def name_assign_def name_create_def split: if_splits prod.splits)

lemma prompt_loop_rest: "prompt_loop l acc s = (t, r) \<Longrightarrow> length r \<le> length s"
  by (induction l acc s rule: prompt_loop.induct) (auto split: if_splits)

lemma name_assign_ok: "n \<noteq> [] \<Longrightarrow> \<exists>nm. name_assign n new_name = Inr nm"
  by (cases "last_slash n") (simp_all add: name_assign_def name_create_def split_filename_def)

text \<open>
  A file that fails does not stop the command: when no body returns early or aborts, the loop
  is the fold of its bodies over all the files.
\<close>

lemma command_loop_all:
  assumes "\<And>s nm. \<exists>out s'. body s nm = (Inr out, s') \<and> (\<forall>k. out \<noteq> Return k)" and "\<forall>n \<in> set ns. n \<noteq> []"
  shows "\<exists>k s'. command_loop body r s ns = (Inr k, s')"
  using assms(2)
proof (induction ns arbitrary: r s)
  case (Cons n ns)
  obtain nm where "name_assign n new_name = Inr nm"
    using name_assign_ok Cons.prems by fastforce
  moreover obtain out s' where "body s nm = (Inr out, s')" "\<forall>k. out \<noteq> Return k" using assms(1) by blast
  ultimately show ?case using Cons by (cases out) auto
qed simp

section \<open>Which files a command changes\<close>

text \<open>
  What the options and names of a command line allow a command to change, when \<open>touches\<close> gives the
  files that it may change for one s-file.
\<close>

definition command_touches ::
  "os \<Rightarrow> ('o \<Rightarrow> char \<times> string \<Rightarrow> (int + 'o) res) \<Rightarrow> 'o \<Rightarrow> string \<Rightarrow> nat \<Rightarrow> ('o \<Rightarrow> sccs_name \<Rightarrow> string set) \<Rightarrow>
   string list \<Rightarrow> world \<Rightarrow> string set" where
  "command_touches os switch o0 letters err touches av w =
     (case parse_arguments switch o0 letters err av of
        Inr (Inr (opt, args)) \<Rightarrow>
          (case new_file_iterator os (w_stdin w) args of
             Inr (it, stdin) \<Rightarrow> \<Union> {touches opt nm | n nm. n \<in> set (it_files it) \<and> name_assign n new_name = Inr nm}
           | Inl e \<Rightarrow> {})
      | _ \<Rightarrow> {})"

definition changed_files :: "world \<Rightarrow> world \<Rightarrow> string set" where
  "changed_files w w' = {x. w_dir w' x \<noteq> w_dir w x}"

text \<open>
  The body of a command promises to change only certain files of the s-file that it gets, in the
  states that it leaves itself; then the loop changes only the files of the names it is given.
\<close>

locale confined_body =
  fixes body :: "'s \<Rightarrow> sccs_name \<Rightarrow> outcome res \<times> 's"
    and dir_of :: "'s \<Rightarrow> directory"
    and ok :: "'s \<Rightarrow> bool"
    and touches :: "sccs_name \<Rightarrow> string set"
  assumes body_ok: "ok s \<Longrightarrow> ok (snd (body s nm))"
    and body_confined: "ok s \<Longrightarrow> x \<notin> touches nm \<Longrightarrow> dir_of (snd (body s nm)) x = dir_of s x"
begin

lemma loop_confined:
  assumes "ok s" and "\<forall>n \<in> set ns. \<forall>nm. name_assign n new_name = Inr nm \<longrightarrow> x \<notin> touches nm"
  shows "ok (snd (command_loop body rv s ns)) \<and> dir_of (snd (command_loop body rv s ns)) x = dir_of s x"
  using assms
proof (induction ns arbitrary: rv s)
  case (Cons n ns)
  show ?case
  proof (cases "name_assign n new_name")
    case (Inr nm)
    obtain r s' where b: "body s nm = (r, s')" by fastforce
    have "ok s'" "dir_of s' x = dir_of s x"
      using body_ok [of s nm] body_confined [of s x nm] b Cons.prems Inr by auto
    moreover have "\<forall>n \<in> set ns. \<forall>nm. name_assign n new_name = Inr nm \<longrightarrow> x \<notin> touches nm"
      using Cons.prems(2) by simp
    ultimately have "ok (snd (command_loop body k s' ns)) \<and> dir_of (snd (command_loop body k s' ns)) x = dir_of s x" for k
      using Cons.IH [of s' k] by simp
    then show ?thesis
      using Inr b \<open>ok s'\<close> \<open>dir_of s' x = dir_of s x\<close> by (auto split: sum.splits outcome.splits option.splits)
  qed (use Cons.prems in simp)
qed simp

end

text \<open>A whole command, for each value of its options.\<close>

lemma run_command_confined:
  assumes body: "\<And>opt u. confined_body (body opt u) (\<lambda>s. w_dir (world_of s)) (ok opt) (touches opt)"
    and start: "\<And>opt it w s. start opt it w = Inr (Inr s) \<Longrightarrow> ok opt s \<and> w_dir (world_of s) = w_dir w"
  shows "changed_files w (snd (run_command os switch o0 letters err start body world_of av w))
    \<subseteq> command_touches os switch o0 letters err touches av w"
proof
  fix x
  assume x: "x \<in> changed_files w (snd (run_command os switch o0 letters err start body world_of av w))"
  then obtain opt args t stdin s where
    p: "parse_arguments switch o0 letters err av = Inr (Inr (opt, args))"
      "new_file_iterator os (w_stdin w) args = Inr (t, stdin)" "start opt t (w\<lparr>w_stdin := stdin\<rparr>) = Inr (Inr s)"
    by (auto simp: changed_files_def run_command_def split: sum.splits prod.splits)
  then have "w_dir (world_of (snd (command_loop (body opt (it_unique t)) 0 s (it_files t)))) x \<noteq> w_dir (world_of s) x"
    using x start [OF p(3)] by (auto simp: changed_files_def run_command_def split: prod.splits)
  then show "x \<in> command_touches os switch o0 letters err touches av w"
    using confined_body.loop_confined [OF body conjunct1 [OF start [OF p(3)]]] p(1,2)
    by (fastforce simp: command_touches_def)
qed

end
