(* ===== verification/Sfile_Admin.thy ===== *)
theory Sfile_Admin
  imports Sfile_Ops Get_Version
begin

text \<open>
  \<open>admin\<close> (sf-admin.cc): changing the flags, the users and the description of an s-file, and
  creating a new one.

  The file of the description and the initial file are given by their contents. The warnings
  are left out. A \<open>std::unordered_set\<close> of users is a list. A call that fails leaves an object
  that the program does not write.
\<close>

section \<open>Flags\<close>

definition isalpha :: "char \<Rightarrow> bool" where
  "isalpha c \<longleftrightarrow> (65 \<le> (of_char c :: nat) \<and> of_char c \<le> (90 :: nat)) \<or> (97 \<le> (of_char c :: nat) \<and> of_char c \<le> (122 :: nat))"

definition admin_fail :: "'a res" where
  "admin_fail = Inl (Failed (Message ''admin''))"

text \<open>The letters of the \<open>y\<close> flag: commas are skipped, anything but a letter is refused.\<close>

fun keyword_letters :: "string \<Rightarrow> sccs_file_flags \<Rightarrow> sccs_file_flags res" where
  "keyword_letters [] fl = Inr fl"
| "keyword_letters (c # s) fl =
     (if c \<noteq> CHR '','' then
        if isalpha c then keyword_letters s (fl\<lparr>flag_letters := insert_letter c (flag_letters fl)\<rparr>)
        else admin_fail
      else keyword_letters s fl)"

definition set_flag :: "sccs_file_flags \<Rightarrow> string \<Rightarrow> sccs_file_flags res" where
  "set_flag fl s =
     (let c = char_at s 0; v = drop 1 s in
      if c = CHR ''b'' then Inr (fl\<lparr>fl_branch := True\<rparr>)
      else if c = CHR ''c'' then
        let r = release_of_string (Some v) in if release_valid r then Inr (fl\<lparr>fl_ceiling := r\<rparr>) else admin_fail
      else if c = CHR ''f'' then
        let r = release_of_string (Some v) in if release_valid r then Inr (fl\<lparr>fl_floor := r\<rparr>) else admin_fail
      else if c = CHR ''d'' then
        let i = sid_of_string v in if sid_valid i then Inr (fl\<lparr>default_sid := i\<rparr>) else admin_fail
      else if c = CHR ''i'' then
        if length v \<noteq> 0 then admin_fail else Inr (fl\<lparr>no_id_keywords_is_fatal := True\<rparr>)
      else if c = CHR ''j'' then Inr (fl\<lparr>joint_edit := True\<rparr>)
      else if c = CHR ''l'' then
        if v = ''a'' then Inr (fl\<lparr>all_locked := True, locked := []\<rparr>)
        else bindE (release_list_of_string v) (\<lambda>l. Inr (fl\<lparr>locked := rel_merge [] l\<rparr>))
      else if c = CHR ''m'' then Inr (set_module_flag v fl)
      else if c = CHR ''n'' then Inr (fl\<lparr>null_deltas := True\<rparr>)
      else if c = CHR ''q'' then Inr (set_user_flag v fl)
      else if c = CHR ''e'' then admin_fail
      else if c = CHR ''t'' then Inr (set_type_flag v fl)
      else if c = CHR ''v'' then Inr (set_mr_checker_flag v fl)
      else if c = CHR ''x'' then Inr (fl\<lparr>executable := True\<rparr>)
      else if c = CHR ''y'' then keyword_letters v (set_expanded_keyword_flag [] fl)
      else admin_fail)"

definition unset_flag :: "sccs_file_flags \<Rightarrow> string \<Rightarrow> sccs_file_flags res" where
  "unset_flag fl s =
     (let c = char_at s 0; v = drop 1 s in
      if c = CHR ''b'' then Inr (fl\<lparr>fl_branch := False\<rparr>)
      else if c = CHR ''c'' then Inr (fl\<lparr>fl_ceiling := Release 0\<rparr>)
      else if c = CHR ''f'' then Inr (fl\<lparr>fl_floor := Release 0\<rparr>)
      else if c = CHR ''d'' then Inr (fl\<lparr>default_sid := null_sid\<rparr>)
      else if c = CHR ''i'' then Inr (fl\<lparr>no_id_keywords_is_fatal := False\<rparr>)
      else if c = CHR ''j'' then Inr (fl\<lparr>joint_edit := False\<rparr>)
      else if c = CHR ''l'' then
        if v = ''a'' then Inr (fl\<lparr>all_locked := False, locked := []\<rparr>)
        else if all_locked fl then admin_fail
        else bindE (release_list_of_string v) (\<lambda>l. Inr (fl\<lparr>locked := rel_remove (locked fl) l\<rparr>))
      else if c = CHR ''m'' then Inr (fl\<lparr>fl_module := None\<rparr>)
      else if c = CHR ''n'' then Inr (fl\<lparr>null_deltas := False\<rparr>)
      else if c = CHR ''q'' then Inr (fl\<lparr>user_def := None\<rparr>)
      else if c = CHR ''e'' then admin_fail
      else if c = CHR ''t'' then Inr (fl\<lparr>fl_type := None\<rparr>)
      else if c = CHR ''v'' then Inr (fl\<lparr>mr_checker := None\<rparr>)
      else if c = CHR ''x'' then Inr (fl\<lparr>executable := False\<rparr>)
      else if c = CHR ''y'' then Inr (set_expanded_keyword_flag [] fl)
      else admin_fail)"

section \<open>admin\<close>

text \<open>
  The description: \<open>None\<close> is a null pointer, \<open>Some None\<close> an empty name, \<open>Some (Some s)\<close> a file
  with the contents \<open>s\<close>.
\<close>

definition admin_comments :: "string option option \<Rightarrow> string list \<Rightarrow> string list" where
  "admin_comments file_comment cs =
     (case file_comment of None \<Rightarrow> cs | Some None \<Rightarrow> [] | Some (Some s) \<Rightarrow> read_file_lines s)"

definition admin_users :: "string list \<Rightarrow> string list \<Rightarrow> string list \<Rightarrow> string list" where
  "admin_users add_users erase_users us = add_users @ filter (\<lambda>u. u \<notin> set erase_users) us"

definition admin ::
  "sccs_file \<Rightarrow> string option option \<Rightarrow> bool \<Rightarrow> string list \<Rightarrow> string list \<Rightarrow> string list \<Rightarrow> string list \<Rightarrow> sccs_file res" where
  "admin f file_comment force_binary set_flags unset_flags add_users erase_users =
     (let f = (if force_binary then f\<lparr>sf_flags := (sf_flags f)\<lparr>fl_encoded := True\<rparr>\<rparr> else f);
          f = f\<lparr>sf_comments := admin_comments file_comment (sf_comments f)\<rparr> in
      bindE (foldE set_flag (sf_flags f) set_flags) (\<lambda>fl.
      bindE (foldE unset_flag fl unset_flags) (\<lambda>fl.
        Inr (f\<lparr>sf_flags := fl, users := admin_users add_users erase_users (users f)\<rparr>))))"

section \<open>create\<close>

definition starting_comments :: "sccs_date \<Rightarrow> string \<Rightarrow> bool \<Rightarrow> string list \<Rightarrow> string list" where
  "starting_comments now usr suppress_comments cs =
     (if \<not> suppress_comments \<and> cs = [] then [''date and time created '' @ date_as_string now @ '' by '' @ usr] else cs)"

text \<open>
  The initial file, if there is one: its contents and whether it is executable. The new contents
  of the s-file and the object are returned. When the body cannot be inserted the call fails,
  although the program still ends the update; that file is not part of the model.
\<close>

definition create_body ::
  "bool res \<Rightarrow> nat \<Rightarrow> bool \<Rightarrow> (string \<times> bool) option \<Rightarrow> string \<Rightarrow> delta \<Rightarrow> sccs_file \<Rightarrow> (string \<times> delta \<times> sccs_file) res" where
  "create_body allowed len_max force_binary initial out nd f =
     (case initial of
        None \<Rightarrow> Inr (out, nd, f)
      | Some (s, x) \<Rightarrow>
          bindE (body_insert allowed len_max force_binary s out) (\<lambda>(binary, out, lines, found_id).
          bindE (if found_id then Inr () else no_id_keywords_action f) (\<lambda>_.
            Inr (out, set_inserted lines nd,
                 if binary then f\<lparr>sf_flags := (sf_flags f)\<lparr>fl_encoded := True\<rparr>\<rparr> else f))))"

definition create ::
  "bool res \<Rightarrow> nat \<Rightarrow> sccs_date \<Rightarrow> string \<Rightarrow> sccs_file \<Rightarrow> sid \<Rightarrow> (string \<times> bool) option \<Rightarrow> string list \<Rightarrow> string list \<Rightarrow>
   bool \<Rightarrow> bool \<Rightarrow> (string \<times> sccs_file) res" where
  "create allowed len_max now usr f i initial ms cs suppress_comments force_binary =
     bindE (delta_ctor8 (CHR ''D'') i now usr 1 0 ms (starting_comments now usr suppress_comments cs)) (\<lambda>nd.
     let f = (case initial of None \<Rightarrow> f | Some (s, x) \<Rightarrow> f\<lparr>sfile_executable := x\<rparr>) in
     bindE (start_update_delta f nd) (\<lambda>out.
     bindE (create_body allowed len_max force_binary initial (out @ (ctrl_A # ''I 1'') @ [newline]) nd f) (\<lambda>(out, nd, f).
       end_update_delta f (out @ (ctrl_A # ''E 1'') @ [newline]) nd)))"

section \<open>The body of a new file\<close>

text \<open>The lines that \<open>body_insert\<close> writes for a file.\<close>

lemma body_insert_stored:
  assumes "b \<longleftrightarrow> fb \<or> \<not> is_text len_max s" and "\<not> b \<longrightarrow> NUL \<notin> set s"
  obtains B n kw where "body_insert (Inr True) len_max fb s out = Inr (b, out @ unlines B, n, kw)"
    and "\<forall>l \<in> set B. plain_line l \<and> line_type l = NUL"
    and "if b then B = map enc_text (chunks s) @ ['' ''] else s = unlines B"
proof (cases b)
  case True
  obtain nl kw where ins: "body_insert_binary s = Inr (unlines (map enc_text (chunks s) @ ['' '']), nl, kw)"
    using body_insert_binary_chunks [of s] by blast
  have "body_insert (Inr True) len_max fb s out = Inr (b, out @ unlines (map enc_text (chunks s) @ ['' '']), nl, kw)"
  proof (cases fb)
    case fb: True
    then show ?thesis using True ins by (simp add: body_insert_def)
  next
    case False
    then show ?thesis using True assms(1) body_insert_cases [of len_max s out] ins by simp
  qed
  then show thesis using that encoded_lines_decode(1) [of s] True by (auto simp: list_all_iff)
next
  case False
  then have t: "is_text len_max s" "\<not> fb" using assms(1) by auto
  then obtain ls where ls: "s = unlines ls" "\<forall>l \<in> set ls. newline \<notin> set l \<and> text_line_ok len_max l"
    using is_text_unlines by blast
  have "NUL \<notin> set l" if "l \<in> set ls" for l using assms(2) False that ls(1) by (auto simp: unlines_def split: if_splits)
  then have "\<forall>l \<in> set ls. plain_line l \<and> line_type l = NUL"
    using ls(2) by (auto simp: plain_line_def line_type_def text_line_ok_def)
  then show thesis using that [of ls] body_insert_cases [of len_max s out] t False ls(1) by simp
qed

definition new_body :: "string list \<Rightarrow> string list" where
  "new_body B = (ctrl_A # ''I 1'') # B @ [ctrl_A # ''E 1'']"

lemma ctl_line_1: "ctrl_A # ''I 1'' = ctl_line (CHR ''I'') 1" "ctrl_A # ''E 1'' = ctl_line (CHR ''E'') 1"
  by code_simp+

lemma vis_lines_text:
  "\<forall>l \<in> set B. line_type l = NUL \<Longrightarrow> vis_lines inc op (B @ r) = (if visible inc op then B else []) @ vis_lines inc op r"
  by (induction B) auto

lemma body_ok_text: "\<forall>l \<in> set B. line_type l = NUL \<Longrightarrow> body_ok lim op (B @ r) = body_ok lim op r"
  and final_open_text: "\<forall>l \<in> set B. line_type l = NUL \<Longrightarrow> final_open op (B @ r) = final_open op r"
  by (induction B) auto

lemma new_body_wf:
  assumes "\<forall>l \<in> set B. plain_line l \<and> line_type l = NUL"
  shows "body_wf 1 (new_body B)" and "inc 1 \<Longrightarrow> vis_lines inc Map.empty (new_body B) = B"
proof -
  show "body_wf 1 (new_body B)"
    using assms unfolding new_body_def ctl_line_1
    by (simp add: body_wf_def body_ok_text final_open_text ctl_ok_def upd_def plain_ctl_line)
  assume "inc 1"
  then have "visible inc [1 \<mapsto> CHR ''I'']" using visible_insert_new [of 1 Map.empty inc] by (simp add: below_def)
  then show "vis_lines inc Map.empty (new_body B) = B"
    using assms unfolding new_body_def ctl_line_1 by (simp add: upd_def vis_lines_text)
qed

lemma complete_empty: "complete table_empty" and consistent_empty: "table_consistent table_empty"
  by (auto simp: complete_def table_consistent_def delta_at_seq_def bindE_eq_Inr)

text \<open>The only version of a file with one delta.\<close>

lemma single_version:
  assumes "sf_mode g = READ" and "sf_table g = table_prepend d table_empty" and "sf_body g = new_body B"
    and d: "seq d = 1" "prev_seq d = 0" "included_seqs d = []" "excluded_seqs d = []" "ignored_seqs d = []" "\<not> removed d"
    and B: "\<forall>l \<in> set B. plain_line l \<and> line_type l = NUL"
  shows "gettable g" and "find_delta g (delta_id d) = Some d" and "version_lines g 1 = B"
proof -
  have s: "seq d = Suc (high_seqno table_empty)" using d(1) by simp
  note cp = complete_prepend [OF complete_empty s]
  have con: "table_consistent (sf_table g)"
    using consistent_grow [OF cp(3) consistent_empty] d unfolding assms(2) by simp
  show g: "gettable g" using assms(1) cp(1,2) con new_body_wf(1) [OF B] unfolding gettable_def assms(2,3) by simp
  show "find_delta g (delta_id d) = Some d"
    using d(6) by (simp add: find_delta_def table_find_eq selected_def assms(2) table_prepend_wf)
  have "known (sf_table g) 1" using known_complete [OF cp(1), of 1] cp(2) unfolding assms(2) by simp
  then obtain st a b where st: "version_eqs (sf_table g) 1 a b (in_version st)"
      "version_lines g 1 = vis_lines (in_version st) Map.empty (sf_body g)"
    by (rule get_state_plain [OF g])
  show "version_lines g 1 = B"
    using new_body_wf(2) [where inc = "in_version st", OF B version_le(4) [OF con st(1)]] unfolding st(2) assms(3) .
qed

section \<open>What create writes is read back\<close>

lemma create_reads:
  assumes "parts_storable f" and "sf_mode f = CREATE" and "items (sf_table f) = []"
    and "fl_encoded (sf_flags f) \<longrightarrow> force_binary" and "\<not> no_id_keywords_is_fatal (sf_flags f)"
    and "sid_wf i" and "date_sfile now" and "plain_word usr" and "\<forall>l \<in> set ms \<union> set cs. plain_line l"
    and "is_text len_max s \<and> \<not> force_binary \<longrightarrow> NUL \<notin> set s"
  shows "\<exists>new f' g status nd. create (Inr True) len_max now usr f i (Some (s, x)) ms cs suppress force_binary = Inr (new, f')
     \<and> sccs_file_ctor (sf_name f) READ silent True x new = Inr g
     \<and> (fl_encoded (sf_flags g) \<longleftrightarrow> force_binary \<or> \<not> is_text len_max s)
     \<and> sfile_get later canonify g outname False i date_default rl_empty rl_empty False None False False False = Inr (status, s, [])
     \<and> sf_table g = table_prepend nd table_empty \<and> delta_id nd = i \<and> \<not> removed nd
     \<and> sf_name g = sf_name f \<and> default_sid (sf_flags g) = default_sid (sf_flags f)"
proof -
  define b where "b \<longleftrightarrow> force_binary \<or> \<not> is_text len_max s"
  have nb: "\<not> b \<longrightarrow> NUL \<notin> set s" using assms(10) by (auto simp: b_def)
  define f1 where "f1 = f\<lparr>sfile_executable := x\<rparr>"
  have f1: "parts_storable f1" "sf_mode f1 \<noteq> READ" "fl_encoded (sf_flags f1) \<longrightarrow> b" "sf_table f1 = table_empty"
    using assms(1-4) by (auto simp: f1_def parts_storable_def b_def)
  define nd where "nd = delta_default\<lparr>delta_type := CHR ''D'', delta_id := i, delta_date := now, user := usr, seq := 1,
                      prev_seq := 0, mrs := ms, comments := starting_comments now usr suppress cs\<rparr>"
  have "plain_line (date_as_string now)"
    using date_words(5,6) [OF assms(7)] by (auto simp: date_as_string_def plain_line_def date_word_def time_word_def isdigit_def)
  then have cs: "\<forall>l \<in> set (starting_comments now usr suppress cs). plain_line l"
    using assms(8,9) by (auto simp: starting_comments_def plain_word_def plain_line_def)
  then have storable: "delta_storable nd"
    using assms(6-9) by (auto simp: delta_storable_def nd_def delta_default_def is_valid_delta_type_def)
  obtain out where out: "start_update_delta f1 nd = Inr out"
    using delta_update_flag_reads [OF f1(1) _ f1(2) storable refl f1(3) refl, of "[]" 0 0 0 False] by auto
  obtain B n kw where ins: "body_insert (Inr True) len_max force_binary s (out @ (ctrl_A # ''I 1'') @ [newline])
        = Inr (b, (out @ (ctrl_A # ''I 1'') @ [newline]) @ unlines B, n, kw)"
      and B: "\<forall>l \<in> set B. plain_line l \<and> line_type l = NUL"
      and stored: "if b then B = map enc_text (chunks s) @ ['' ''] else s = unlines B"
    by (rule body_insert_stored [OF b_def nb])
  define h where "h = f1\<lparr>sf_flags := (sf_flags f1)\<lparr>fl_encoded := b\<rparr>\<rparr>"
  define nd' where "nd' = set_idu n 0 0 nd"
  have body: "create_body (Inr True) len_max force_binary (Some (s, x)) (out @ (ctrl_A # ''I 1'') @ [newline]) nd f1
      = Inr (out @ (ctrl_A # ''I 1'') @ [newline] @ unlines B, nd', h)"
    using ins assms(5) f1(3)
    by (auto simp: create_body_def no_id_keywords_action_def f1_def h_def nd'_def set_idu_def set_inserted_def nd_def delta_default_def)
  have pl: "\<forall>l \<in> set (new_body B). plain_line l" using new_body_wf(1) [OF B] by (simp add: body_wf_def)
  obtain new where new: "end_update_delta h (out @ unlines (new_body B)) nd' = Inr (new, h\<lparr>sf_table := table_prepend nd' (sf_table f1)\<rparr>)"
      "sccs_file_ctor (sf_name f1) READ silent True (sfile_executable f1) new =
         Inr (h\<lparr>sf_mode := READ, checksum_valid := True, xfile_created := False, edit_mode_ok := True,
                sf_table := table_prepend (capped nd') (sf_table f1), sf_body := new_body B\<rparr>)"
    using delta_update_flag_reads [OF f1(1) pl f1(2) storable nd'_def f1(3) h_def, of silent] out by auto
  define g where "g = h\<lparr>sf_mode := READ, checksum_valid := True, xfile_created := False, edit_mode_ok := True,
                sf_table := table_prepend (capped nd') (sf_table f1), sf_body := new_body B\<rparr>"
  have d: "seq (capped nd') = 1" "prev_seq (capped nd') = 0" "included_seqs (capped nd') = []" "excluded_seqs (capped nd') = []"
      "ignored_seqs (capped nd') = []" "\<not> removed (capped nd')" "delta_id (capped nd') = i"
    by (simp_all add: capped_def set_idu_def nd'_def nd_def delta_default_def removed_def)
  have gt: "sf_mode g = READ" "sf_table g = table_prepend (capped nd') table_empty" "sf_body g = new_body B"
    by (simp_all add: g_def f1(4))
  note sv = single_version [OF gt d(1-6) B, unfolded d(7)]
  have "stored_as g s B" using stored by (simp add: stored_as_def g_def h_def)
  then have "shown_text g False (version_lines g 1) = s"
    using stored_as_shown [of g s B g] B sv(3) by simp
  then obtain status where get: "sfile_get later canonify g outname False i date_default rl_empty rl_empty False None False False False
      = Inr (status, s, [])"
    using sfile_get_plain [OF sv(1,2), of False] d(1) by fastforce
  have "create (Inr True) len_max now usr f i (Some (s, x)) ms cs suppress force_binary
      = Inr (new, h\<lparr>sf_table := table_prepend nd' (sf_table f1)\<rparr>)"
  proof -
    have "delta_ctor8 (CHR ''D'') i now usr 1 0 ms (starting_comments now usr suppress cs) = Inr nd"
      by (simp add: delta_ctor8_def is_valid_delta_type_def nd_def)
    then show ?thesis using out body new(1) by (simp add: create_def f1_def [symmetric] new_body_def)
  qed
  moreover have "sccs_file_ctor (sf_name f) READ silent True x new = Inr g"
    using new(2) by (simp add: g_def [symmetric]) (simp add: f1_def)
  moreover have "fl_encoded (sf_flags g) \<longleftrightarrow> b" "sf_name g = sf_name f" "default_sid (sf_flags g) = default_sid (sf_flags f)"
    by (simp_all add: g_def h_def) (simp_all add: f1_def)
  ultimately show ?thesis using get gt(2) d(6,7) unfolding b_def by blast
qed

section \<open>Properties\<close>

text \<open>
  C2. \<open>admin -i\<close> followed by \<open>get\<close>: creating an s-file from the contents of a file succeeds when the i flag is not
  set, the constructor reads the s-file that was written, the encoded flag is set when encoding was asked
  for or the manual does not call the file text, and not set for a text file when there is no maximum line length;
  and \<open>get\<close> of the only delta, without keyword substitution, gives the contents back byte for byte.
  A file that the manual calls text and that is not encoded on request must not hold a NUL: a NUL does
  not make a file binary, but the reader of the body works on C strings.
\<close>

theorem create_then_get:
  assumes "parts_storable f" and "sf_mode f = CREATE" and "items (sf_table f) = []"
    and "fl_encoded (sf_flags f) \<longrightarrow> force_binary" and "\<not> no_id_keywords_is_fatal (sf_flags f)"
    and "sid_wf i" and "date_sfile now" and "plain_word usr" and "\<forall>l \<in> set ms \<union> set cs. plain_line l"
    and nul: "manual_text len_max s \<and> \<not> force_binary \<longrightarrow> NUL \<notin> set s"
  shows "\<exists>new f' g status. create (Inr True) len_max now usr f i (Some (s, x)) ms cs suppress force_binary = Inr (new, f')
     \<and> sccs_file_ctor (sf_name f) READ silent True x new = Inr g
     \<and> (force_binary \<or> \<not> manual_text len_max s \<longrightarrow> fl_encoded (sf_flags g))
     \<and> (\<not> force_binary \<and> len_max = 0 \<and> manual_text 0 s \<longrightarrow> \<not> fl_encoded (sf_flags g))
     \<and> sfile_get later canonify g outname False i date_default rl_empty rl_empty False None False False False = Inr (status, s, [])"
proof -
  have "is_text len_max s \<and> \<not> force_binary \<longrightarrow> NUL \<notin> set s" using nul is_text_manual by blast
  then obtain new f' g status where c: "create (Inr True) len_max now usr f i (Some (s, x)) ms cs suppress force_binary = Inr (new, f')"
      "sccs_file_ctor (sf_name f) READ silent True x new = Inr g"
      "fl_encoded (sf_flags g) \<longleftrightarrow> force_binary \<or> \<not> is_text len_max s"
      "sfile_get later canonify g outname False i date_default rl_empty rl_empty False None False False False = Inr (status, s, [])"
    using create_reads [OF assms(1-9), of len_max s x suppress silent later canonify outname] by blast
  moreover have "\<not> manual_text len_max s \<longrightarrow> \<not> is_text len_max s" "len_max = 0 \<and> manual_text 0 s \<longrightarrow> is_text len_max s"
    using is_text_manual manual_is_text [of 0 s len_max] by auto
  ultimately show ?thesis by blast
qed

definition created_sample :: sccs_file where
  "created_sample = file_start (new_name\<lparr>sname := ''s.x''\<rparr>) CREATE"

theorem create_then_get_witness:
  "\<exists>new f' g status. create (Inr True) 0 (date_ctor6 2000 2 29 23 59 58) ''joe'' created_sample (mk_sid 1 1 0 0) (Some (''abc'', False))
        [] [] False False = Inr (new, f')
     \<and> sccs_file_ctor (sf_name created_sample) READ False True False new = Inr g
     \<and> sfile_get (date_ctor6 2000 2 29 23 59 58) Some g ''x'' False (mk_sid 1 1 0 0) date_default rl_empty rl_empty False None False False False
          = Inr (status, ''abc'', [])"
proof -
  have "flags_storable flags_default"
    by (simp add: flags_storable_def flags_default_def release_storable_def text_storable_def)
  then have "parts_storable created_sample" "sf_mode created_sample = CREATE" "items (sf_table created_sample) = []"
    "\<not> no_id_keywords_is_fatal (sf_flags created_sample)" "\<not> fl_encoded (sf_flags created_sample)"
    by (simp_all add: created_sample_def file_start_def parts_storable_def name_valid_def) (simp_all add: flags_default_def)
  then show ?thesis
    using create_then_get [of created_sample False "mk_sid 1 1 0 0" "date_ctor6 2000 2 29 23 59 58" "''joe''" "[]" "[]" 0 "''abc''"
        False False False "date_ctor6 2000 2 29 23 59 58" Some "''x''"] sample_date
    by (auto simp: sid_wf_def plain_word_def)
qed

end
