(* ===== verification/Validate.thy ===== *)
theory Validate
  imports Sccs_File
begin

text \<open>
  The validation of an s-file that \<open>val\<close> uses (sf-val.cc).

  The vectors of booleans are sets of sequence numbers, the array of counters a function. An
  index outside of them is undefined behaviour, on which the model fails. Messages and the tests
  that only lead to a warning are left out; \<open>validate_isomorphism\<close> and
  \<open>validate_substituted_flags_list\<close> always return true. The second loop of \<open>check_loop_free\<close> is
  given a number of steps after which the model gives up; the properties show that it is always
  enough.
\<close>

definition undefined_behaviour :: cssc_error where
  "undefined_behaviour = Fatal (Message ''undefined'')"

section \<open>Loops in the predecessors\<close>

definition safe_predecessor :: "delta_table \<Rightarrow> seq_no \<Rightarrow> seq_no res" where
  "safe_predecessor t s =
     bindE (delta_at_seq_exists t s) (\<lambda>ex.
       if ex then bindE (delta_at_seq t s) (\<lambda>d. Inr (prev_seq d))
       else Inl (Corrupt (Missing_sequence_number s)))"

lemma card_unseen: "s \<le> h \<Longrightarrow> s \<notin> seen \<Longrightarrow> card ({..h} - insert s seen) < card ({..h} - seen)" for h :: nat
proof -
  assume "s \<le> h" "s \<notin> seen"
  then have "s \<in> {..h} - seen" by simp
  moreover have "{..h} - insert s seen = ({..h} - seen) - {s}" by blast
  ultimately show ?thesis using card_Diff1_less [of "{..h} - seen" s] by (metis finite_Diff finite_atMost)
qed

text \<open>The first loop: whether no loop was found, the numbers seen, and the lowest of them.\<close>

function lf_scan :: "delta_table \<Rightarrow> nat set \<Rightarrow> nat set \<Rightarrow> nat \<Rightarrow> seq_no \<Rightarrow> (bool \<times> nat set \<times> nat) res" where
  "lf_scan t loopfree seen lowest s =
     (if s = 0 then Inr (True, seen, lowest)
      else if s > high_seqno t then Inl undefined_behaviour
      else if s \<in> loopfree then Inr (True, seen, if s < lowest then s else lowest)
      else if s \<in> seen then Inr (False, seen, if s < lowest then s else lowest)
      else bindE (safe_predecessor t s) (\<lambda>p. lf_scan t loopfree (insert s seen) (if s < lowest then s else lowest) p))"
  by pat_completeness auto
termination
  by (relation "measure (\<lambda>(t, loopfree, seen, lowest, s). card ({..high_seqno t} - seen))")
    (simp_all only: in_measure prod.case wf_measure not_less, rule card_unseen)

declare lf_scan.simps [simp del]

fun lf_mark :: "nat \<Rightarrow> delta_table \<Rightarrow> nat set \<Rightarrow> nat set \<Rightarrow> seq_no \<Rightarrow> nat set res" where
  "lf_mark 0 t loopfree seen s = Inl Diverged"
| "lf_mark (Suc n) t loopfree seen s =
     (if s = 0 then Inr loopfree
      else if s > high_seqno t then Inl undefined_behaviour
      else if s \<in> loopfree then Inr loopfree
      else bindE (delta_at_seq t s) (\<lambda>d.
             lf_mark n t (if s \<in> seen then insert s loopfree else loopfree) seen (prev_seq d)))"

text \<open>The result is the answer and the two vectors afterwards.\<close>

definition check_loop_free :: "delta_table \<Rightarrow> seq_no \<Rightarrow> nat set \<Rightarrow> nat set \<Rightarrow> (bool \<times> nat set \<times> nat set) res" where
  "check_loop_free t start loopfree seen =
     bindE (lf_scan t loopfree seen (high_seqno t) start) (\<lambda>(ok, seen, lowest).
     bindE (if ok then lf_mark (high_seqno t + 2) t loopfree seen start else Inr loopfree) (\<lambda>loopfree.
       Inr (ok, loopfree, {x \<in> seen. x < lowest})))"

section \<open>validate\<close>

text \<open>The tests of the fields of one delta.\<close>

definition delta_fields_valid :: "seq_no \<Rightarrow> delta \<Rightarrow> bool" where
  "delta_fields_valid highest_seq d \<longleftrightarrow>
     inserted d \<le> 99999 \<and> deleted d \<le> 99999 \<and> unchanged d \<le> 99999
     \<and> date_valid (delta_date d) \<and> user d \<noteq> [] \<and> CHR '':'' \<notin> set (user d)
     \<and> seq d \<le> highest_seq \<and> prev_seq d \<le> highest_seq"

record val_state =
  retval :: bool
  seen_ever :: "nat \<Rightarrow> int"
  val_loopfree :: "nat set"
  val_seen :: "nat set"

definition val_delta :: "delta_table \<Rightarrow> val_state \<Rightarrow> delta \<Rightarrow> val_state res" where
  "val_delta t v d =
     (let s = seq d in
      if s = 0 \<or> s > high_seqno t then Inl undefined_behaviour
      else
        bindE (delta_at_seq t s) (\<lambda>self.
        bindE (check_loop_free t (seq self) (val_loopfree v) (val_seen v)) (\<lambda>(ok, lf, seen).
        bindE (if prev_seq d \<noteq> 0 then
                 bindE (delta_at_seq t (prev_seq d)) (\<lambda>ancestor.
                 bindE (date_gt (delta_date ancestor) (delta_date d)) (\<lambda>_. Inr ()))
               else Inr ()) (\<lambda>_.
          Inr \<lparr>retval = (delta_fields_valid (high_seqno t) d \<and> \<not> seen_ever v (s - 1) > 1 \<and> ok),
               seen_ever = (seen_ever v)(s - 1 := seen_ever v (s - 1) + 1),
               val_loopfree = lf, val_seen = seen\<rparr>))))"

fun val_loop :: "delta_table \<Rightarrow> delta list \<Rightarrow> val_state \<Rightarrow> val_state res" where
  "val_loop t [] v = Inr v"
| "val_loop t (d # ds) v = (if \<not> retval v then Inr v else bindE (val_delta t v d) (\<lambda>v. val_loop t ds v))"

definition val_start :: val_state where
  "val_start = \<lparr>retval = True, seen_ever = (\<lambda>_. 0), val_loopfree = {}, val_seen = {}\<rparr>"

definition valid_username :: "string \<Rightarrow> bool" where
  "valid_username u \<longleftrightarrow> CHR '':'' \<notin> set u \<and> CHR '' '' \<notin> set u \<and> CHR 0x09 \<notin> set u"

definition validate :: "sccs_file \<Rightarrow> bool res" where
  "validate f =
     (if \<not> checksum_valid f then Inr False
      else bindE (val_loop (sf_table f) (selected Current (sf_table f)) val_start) (\<lambda>v.
        if \<not> retval v then Inr False else Inr (list_all valid_username (users f))))"

section \<open>The loops end and find every loop\<close>

lemma safe_predecessor_prev: "safe_predecessor t s = Inr p \<Longrightarrow> prev_of t s p"
  by (auto simp: safe_predecessor_def bindE_eq_Inr prev_of_def split: if_splits)

lemma lf_scan_unfold:
  "lf_scan t loopfree seen lowest 0 = Inr (True, seen, lowest)"
  "s \<noteq> 0 \<Longrightarrow> lf_scan t loopfree seen lowest s =
     (if s > high_seqno t then Inl undefined_behaviour
      else if s \<in> loopfree then Inr (True, seen, min lowest s)
      else if s \<in> seen then Inr (False, seen, min lowest s)
      else bindE (safe_predecessor t s) (\<lambda>p. lf_scan t loopfree (insert s seen) (min lowest s) p))"
  by (subst lf_scan.simps; auto simp: min_def)+

lemma lf_scan_sound:
  assumes "lf_scan t loopfree seen lowest s = Inr (ok, seen', lowest')" and "\<forall>x \<in> loopfree. descends t x 0"
    and "\<forall>x \<in> seen. lowest \<le> x"
  shows "(ok \<longrightarrow> descends t s 0) \<and> (\<forall>x \<in> seen'. lowest' \<le> x)"
  using assms
proof (induction t loopfree seen lowest s arbitrary: ok seen' lowest' rule: lf_scan.induct)
  case (1 t loopfree seen lowest s)
  show ?case
  proof (cases "s = 0 \<or> s > high_seqno t \<or> s \<in> loopfree \<or> s \<in> seen")
    case True
    then show ?thesis using "1.prems" by (cases "s = 0") (auto simp: lf_scan_unfold split: if_splits)
  next
    case False
    then obtain p where p: "safe_predecessor t s = Inr p" "lf_scan t loopfree (insert s seen) (min lowest s) p = Inr (ok, seen', lowest')"
      using "1.prems"(1) by (auto simp: lf_scan_unfold bindE_eq_Inr)
    have m: "(if s < lowest then s else lowest) = min lowest s" by (simp add: min_def)
    have new: "\<forall>x \<in> insert s seen. min lowest s \<le> x" using "1.prems"(3) by auto
    have "(ok \<longrightarrow> descends t p 0) \<and> (\<forall>x \<in> seen'. lowest' \<le> x)"
      by (rule "1.IH" [OF _ _ _ _ p(1), unfolded m, OF _ _ _ _ p(2) "1.prems"(2) new]) (use False in auto)
    then show ?thesis using safe_predecessor_prev [OF p(1)] by (auto simp: descends_prev)
  qed
qed

lemma lf_scan_diverged: "lf_scan t loopfree seen lowest s \<noteq> Inl Diverged"
proof (induction t loopfree seen lowest s rule: lf_scan.induct)
  case (1 t loopfree seen lowest s)
  have m: "(if s < lowest then s else lowest) = min lowest s" by (simp add: min_def)
  have "safe_predecessor t s \<noteq> Inl Diverged"
    by (auto simp: safe_predecessor_def delta_at_seq_exists_def delta_at_seq_def bindE_def ASSERT_def
        split: sum.splits if_splits option.splits)
  then show ?case
    using "1.IH" by (subst lf_scan.simps) (auto simp: undefined_behaviour_def bindE_def split: sum.splits if_splits)
qed

lemma delta_at_seq_diverged: "delta_at_seq t s \<noteq> Inl Diverged"
  by (auto simp: delta_at_seq_def bindE_def ASSERT_def split: option.splits)

lemma prev_of_delta_at: "prev_of t s p \<Longrightarrow> delta_at_seq t s = Inr d \<Longrightarrow> prev_seq d = p"
  by (auto simp: prev_of_def)

text \<open>The second loop follows the first one and stops no later.\<close>

lemma lf_mark_ends:
  assumes "lf_scan t loopfree seen lowest s = Inr (True, seen', lowest')" and "card ({..high_seqno t} - seen) < n"
    and "loopfree \<subseteq> lf"
  shows "lf_mark n t lf sn s \<noteq> Inl Diverged"
  using assms
proof (induction t loopfree seen lowest s arbitrary: n lf rule: lf_scan.induct)
  case (1 t loopfree seen lowest s)
  obtain k where n: "n = Suc k" using "1.prems"(2) by (cases n) auto
  show ?case
  proof (cases "s = 0 \<or> s > high_seqno t \<or> s \<in> loopfree \<or> s \<in> seen")
    case True
    then show ?thesis
      using "1.prems" by (cases "s = 0") (auto simp: lf_scan_unfold n undefined_behaviour_def split: if_splits)
  next
    case False
    then obtain p where p: "safe_predecessor t s = Inr p" "lf_scan t loopfree (insert s seen) (min lowest s) p = Inr (True, seen', lowest')"
      using "1.prems"(1) by (auto simp: lf_scan_unfold bindE_eq_Inr)
    have m: "(if s < lowest then s else lowest) = min lowest s" by (simp add: min_def)
    have "card ({..high_seqno t} - insert s seen) < card ({..high_seqno t} - seen)"
      by (rule card_unseen) (use False in simp_all)
    then have c: "card ({..high_seqno t} - insert s seen) < k" using "1.prems"(2) n by linarith
    have IH: "lf_mark k t lf' sn p \<noteq> Inl Diverged" if "loopfree \<subseteq> lf'" for lf'
      by (rule "1.IH" [OF _ _ _ _ p(1), unfolded m, OF _ _ _ _ p(2) c that]) (use False in auto)
    obtain d where d: "delta_at_seq t s = Inr d" "prev_seq d = p"
      using safe_predecessor_prev [OF p(1)] by (auto simp: prev_of_def)
    have "loopfree \<subseteq> insert s lf" using "1.prems"(3) by auto
    then show ?thesis using IH [of lf] IH [of "insert s lf"] "1.prems"(3) d False by (simp add: n)
  qed
qed

lemma lf_mark_sound:
  assumes "lf_mark n t lf sn s = Inr lf'" and "\<forall>x \<in> lf. descends t x 0" and "descends t s 0"
  shows "\<forall>x \<in> lf'. descends t x 0"
  using assms
proof (induction n arbitrary: lf s)
  case (Suc n)
  show ?case
  proof (cases "s = 0 \<or> s \<in> lf")
    case True
    then show ?thesis using Suc.prems by (auto split: if_splits)
  next
    case False
    then obtain d where d: "delta_at_seq t s = Inr d"
      "lf_mark n t (if s \<in> sn then insert s lf else lf) sn (prev_seq d) = Inr lf'"
      using Suc.prems(1) by (auto simp: bindE_eq_Inr split: if_splits)
    have "prev_of t s (prev_seq d)" using d(1) by (auto simp: prev_of_def)
    then have "descends t (prev_seq d) 0" using Suc.prems(3) False by (auto simp: descends_prev)
    moreover have "\<forall>x \<in> (if s \<in> sn then insert s lf else lf). descends t x 0" using Suc.prems(2,3) by simp
    ultimately show ?thesis using Suc.IH [OF d(2)] by blast
  qed
qed simp

lemma check_loop_free_sound:
  assumes "check_loop_free t start lf {} = Inr (ok, lf', seen')" and "\<forall>x \<in> lf. descends t x 0"
  shows "seen' = {}" and "\<forall>x \<in> lf'. descends t x 0" and "ok \<Longrightarrow> descends t start 0"
proof -
  obtain x where x: "lf_scan t lf {} (high_seqno t) start = Inr x"
    and rest: "(case x of (ok, seen, lowest) \<Rightarrow>
      bindE (if ok then lf_mark (high_seqno t + 2) t lf seen start else Inr lf) (\<lambda>lf.
        Inr (ok, lf, {x \<in> seen. x < lowest}))) = Inr (ok, lf', seen')"
    using assms(1) unfolding check_loop_free_def bindE_eq_Inr by blast
  obtain seen lowest where xs: "x = (ok, seen, lowest)" and seen': "seen' = {x \<in> seen. x < lowest}"
    and mark: "(if ok then lf_mark (high_seqno t + 2) t lf seen start else Inr lf) = Inr lf'"
    using rest by (cases x) (auto simp only: prod.case bindE_eq_Inr sum.inject prod.inject)
  note scan = x [unfolded xs]
  have sound: "ok \<longrightarrow> descends t start 0" "\<forall>x \<in> seen. lowest \<le> x"
    using lf_scan_sound [OF scan assms(2)] by simp_all
  then show "seen' = {}" by (auto simp: seen' dest: leD)
  show "ok \<Longrightarrow> descends t start 0" using sound(1) by simp
  show "\<forall>x \<in> lf'. descends t x 0"
  proof (cases ok)
    case True
    then show ?thesis using mark sound(1) lf_mark_sound [OF _ assms(2)] by (metis (full_types))
  next
    case False
    then show ?thesis using mark assms(2) by simp
  qed
qed

lemma check_loop_free_ends: "check_loop_free t start lf {} \<noteq> Inl Diverged"
proof (cases "lf_scan t lf {} (high_seqno t) start")
  case (Inl e)
  then show ?thesis using lf_scan_diverged [of t lf "{}" "high_seqno t" start] by (simp add: check_loop_free_def)
next
  case (Inr x)
  obtain ok seen lowest where x: "x = (ok, seen, lowest)" by (cases x)
  have "lf_mark (high_seqno t + 2) t lf seen start \<noteq> Inl Diverged" if ok
    using lf_mark_ends [of t lf "{}" "high_seqno t" start seen lowest "high_seqno t + 2" lf] Inr x that by simp
  then show ?thesis
    using Inr x by (cases "lf_mark (high_seqno t + 2) t lf seen start") (auto simp: check_loop_free_def)
qed

section \<open>The loop over the deltas\<close>

definition val_inv :: "delta_table \<Rightarrow> val_state \<Rightarrow> bool" where
  "val_inv t v \<longleftrightarrow> val_seen v = {} \<and> (\<forall>x \<in> val_loopfree v. descends t x 0)"

text \<open>What is known of a delta after its turn in the loop has left \<open>retval\<close> true.\<close>

definition delta_validated :: "delta_table \<Rightarrow> delta \<Rightarrow> bool" where
  "delta_validated t d \<longleftrightarrow> delta_fields_valid (high_seqno t) d \<and> (\<exists>self. delta_at_seq t (seq d) = Inr self \<and> descends t (seq self) 0)"

lemma val_delta_sound:
  assumes "val_delta t v d = Inr v'" and "val_inv t v"
  shows "val_inv t v'" and "retval v' \<Longrightarrow> delta_validated t d"
proof -
  obtain self ok lf seen where self: "delta_at_seq t (seq d) = Inr self"
    and lf: "check_loop_free t (seq self) (val_loopfree v) {} = Inr (ok, lf, seen)"
    and v': "retval v' \<longleftrightarrow> delta_fields_valid (high_seqno t) d \<and> \<not> seen_ever v (seq d - 1) > 1 \<and> ok"
      "val_loopfree v' = lf" "val_seen v' = seen"
    using assms by (auto simp: val_delta_def bindE_eq_Inr Let_def val_inv_def split: if_splits)
  note sound = check_loop_free_sound [OF lf]
  show "val_inv t v'" using sound(1,2) v' assms(2) by (simp add: val_inv_def)
  show "retval v' \<Longrightarrow> delta_validated t d"
    using sound(3) v' assms(2) self by (auto simp: delta_validated_def val_inv_def)
qed

lemma val_loop_sound:
  assumes "val_loop t ds v = Inr v'" and "val_inv t v" and "retval v'"
  shows "\<forall>d \<in> set ds. delta_validated t d"
  using assms
proof (induction ds arbitrary: v)
  case (Cons d ds)
  obtain w where w: "val_delta t v d = Inr w" "val_loop t ds w = Inr v'"
    using Cons.prems by (auto simp: bindE_eq_Inr split: if_splits)
  have stop: "retval w"
  proof (rule ccontr)
    assume "\<not> retval w"
    then have "v' = w" using w(2) by (cases ds) auto
    then show False using \<open>\<not> retval w\<close> Cons.prems(3) by simp
  qed
  show ?case
    using val_delta_sound [OF w(1) Cons.prems(2)] stop Cons.IH [OF w(2)] Cons.prems(3) by simp
qed simp

lemma date_gt_diverged: "date_gt d e \<noteq> Inl Diverged"
  by (auto simp: date_gt_def date_compare_def bindE_def ASSERT_def split: sum.splits if_splits)

lemma val_delta_ends:
  assumes "val_inv t v"
  shows "val_delta t v d \<noteq> Inl Diverged"
proof -
  have s: "val_seen v = {}" using assms by (simp add: val_inv_def)
  have anc: "(if prev_seq d \<noteq> 0 then
                 bindE (delta_at_seq t (prev_seq d)) (\<lambda>ancestor.
                 bindE (date_gt (delta_date ancestor) (delta_date d)) (\<lambda>_. Inr ()))
               else Inr ()) \<noteq> Inl Diverged"
    by (simp add: bindE_ends delta_at_seq_diverged date_gt_diverged)
  show ?thesis
  proof (cases "seq d = 0 \<or> seq d > high_seqno t")
    case True
    then show ?thesis by (simp add: val_delta_def undefined_behaviour_def)
  next
    case False
    then show ?thesis
      unfolding val_delta_def s Let_def if_not_P [OF False]
      by (intro bindE_ends delta_at_seq_diverged check_loop_free_ends)
        (simp only: split_beta, rule bindE_ends [OF anc], simp)
  qed
qed

lemma val_loop_ends: "val_inv t v \<Longrightarrow> val_loop t ds v \<noteq> Inl Diverged"
proof (induction ds arbitrary: v)
  case (Cons d ds)
  then show ?case
    using val_delta_ends [OF Cons.prems, of d] val_delta_sound(1) [of t v d]
    by (cases "val_delta t v d") auto
qed simp

lemma val_inv_start: "val_inv t val_start"
  by (simp add: val_inv_def val_start_def)

section \<open>Properties\<close>

text \<open>
  C40. \<open>validate\<close> ends on every s-file. When it returns true, the checksum is right, every delta
  that has not been removed has line counts of at most five digits, a valid date, a user
  name without colons and sequence numbers of the table, the chain of predecessors that
  starts at its sequence number ends at 0, so that it has no loop, and every name in the list
  of users is free of colons, blanks and tabs.
\<close>

theorem validate_sound:
  "validate f \<noteq> Inl Diverged
   \<and> (validate f = Inr True \<longrightarrow>
        checksum_valid f \<and> list_all valid_username (users f)
        \<and> (\<forall>d \<in> set (selected Current (sf_table f)).
             delta_fields_valid (high_seqno (sf_table f)) d
             \<and> (\<exists>self. delta_at_seq (sf_table f) (seq d) = Inr self \<and> descends (sf_table f) (seq self) 0)))"
proof -
  note ends = val_loop_ends [OF val_inv_start, of "sf_table f" "selected Current (sf_table f)"]
  have "validate f \<noteq> Inl Diverged"
    using ends by (cases "val_loop (sf_table f) (selected Current (sf_table f)) val_start") (auto simp: validate_def)
  moreover have "checksum_valid f \<and> list_all valid_username (users f)
      \<and> (\<forall>d \<in> set (selected Current (sf_table f)). delta_validated (sf_table f) d)" if "validate f = Inr True"
    using that val_loop_sound [OF _ val_inv_start] by (auto simp: validate_def bindE_eq_Inr split: if_splits)
  ultimately show ?thesis by (simp add: delta_validated_def)
qed

text \<open>A table of one delta.\<close>

definition val_example_delta :: delta where
  "val_example_delta = delta_default\<lparr>delta_id := mk_sid 1 1 0 0, delta_date := date_ctor6 1999 2 28 23 59 58, user := ''joe'', seq := 1\<rparr>"

definition val_example :: sccs_file where
  "val_example = (file_start new_name READ)\<lparr>checksum_valid := True, users := [''joe''],
     sf_table := table_add val_example_delta table_empty\<rparr>"

lemma val_example_simps:
  "seq val_example_delta = 1" "prev_seq val_example_delta = 0" "\<not> removed val_example_delta"
  "date_valid (delta_date val_example_delta)" "user val_example_delta = ''joe''"
  "inserted val_example_delta = 0" "deleted val_example_delta = 0" "unchanged val_example_delta = 0"
  by (simp_all add: val_example_delta_def delta_default_def removed_def) code_simp

lemma val_example_at: "delta_at_seq (table_add val_example_delta table_empty) (Suc 0) = Inr val_example_delta"
  by (simp add: delta_at_seq_def stl_delta_at_seq_def val_example_simps)

lemma val_example_loop_free:
  "check_loop_free (table_add val_example_delta table_empty) (Suc 0) {} {} = Inr (True, {Suc 0}, {})"
  by (simp add: check_loop_free_def lf_scan_unfold safe_predecessor_def delta_at_seq_exists_def val_example_at
      val_example_simps numeral_2_eq_2 numeral_3_eq_3)

lemma val_example_valid: "validate val_example = Inr True"
  by (simp add: validate_def val_example_def selected_def val_example_simps val_start_def val_delta_def val_example_at
      val_example_loop_free delta_fields_valid_def valid_username_def Let_def)

theorem validate_sound_witness:
  "\<exists>self. delta_at_seq (sf_table val_example) 1 = Inr self \<and> descends (sf_table val_example) (seq self) 0"
proof -
  have m: "val_example_delta \<in> set (selected Current (sf_table val_example))"
    by (simp add: val_example_def selected_def val_example_simps)
  have "\<exists>self. delta_at_seq (sf_table val_example) (seq d) = Inr self \<and> descends (sf_table val_example) (seq self) 0"
    if "d \<in> set (selected Current (sf_table val_example))" for d
    using validate_sound [of val_example] val_example_valid that by blast
  from this [OF m] show ?thesis by (simp add: val_example_simps)
qed

end
