(* ===== verification/Edit_Commands.thy ===== *)
theory Edit_Commands
  imports Command_Line Add_Delta Sfile_Admin Sfile_Ops Validate
begin

text \<open>
  The commands that change files: \<open>delta\<close> (delta.cc), \<open>unget\<close> (unget.cc), \<open>rmdel\<close> (rmdel.cc),
  \<open>cdc\<close> (cdc.cc), \<open>admin\<close> (admin.cc) and \<open>get\<close> (get.cc), each with its options, its start and the
  body of its loop. Error messages and the text of \<open>-V\<close> are left out; with \<open>-s\<close> the standard output
  is dropped. Changing the user before a file is removed or written has no effect here.
\<close>

type_synonym 'o switch = "'o \<Rightarrow> char \<times> string \<Rightarrow> (int + 'o) res"

definition go_on :: "'o \<Rightarrow> (int + 'o) res" where
  "go_on x = Inr (Inr x)"

definition stop_with :: "int \<Rightarrow> (int + 'o) res" where
  "stop_with status = Inr (Inl status)"

definition say_unless :: "bool \<Rightarrow> string \<Rightarrow> world \<Rightarrow> world" where
  "say_unless silent t w = (if silent then w else say t w)"

text \<open>
  What \<open>start_update\<close> does to an x-file that an earlier run has left: it is renamed, which is taken
  to succeed. The x-file that the update itself writes is renamed to the s-file at the end, or removed by the
  destructor when the update fails.
\<close>

definition start_xfile :: "sccs_name \<Rightarrow> directory \<Rightarrow> directory" where
  "start_xfile nm dir =
     (let x = sub_file (CHR ''x'') nm in
      case dir x of None \<Rightarrow> dir | Some c \<Rightarrow> dir(x := None, x @ ''.bak'' \<mapsto> c))"

section \<open>unget\<close>

record unget_options =
  uo_rid :: sid
  uo_silent :: bool
  uo_keep :: bool

definition unget_start :: unget_options where
  "unget_start = \<lparr>uo_rid = null_sid, uo_silent = False, uo_keep = False\<rparr>"

definition unget_option :: "unget_options switch" where
  "unget_option opt ca =
     (case ca of (c, a) \<Rightarrow>
        if c = CHR ''r'' then
          let r = sid_of_string a in if sid_valid r then go_on (opt\<lparr>uo_rid := r\<rparr>) else stop_with 2
        else if c = CHR ''s'' then go_on (opt\<lparr>uo_silent := True\<rparr>)
        else if c = CHR ''n'' then go_on (opt\<lparr>uo_keep := True\<rparr>)
        else if c = CHR ''V'' then go_on opt
        else stop_with 2)"

definition unget_file :: "os \<Rightarrow> unget_options \<Rightarrow> bool \<Rightarrow> world \<Rightarrow> sccs_name \<Rightarrow> outcome res \<times> world" where
  "unget_file os opt unique w nm =
     (case open_locks os (w_dir w) nm PFILE_UPDATE of
        Inl e \<Rightarrow> (Inl e, w)
      | Inr p \<Rightarrow>
          (case find_sid (os_user os) p (uo_rid opt) of
             FOUND k \<Rightarrow>
               (case print_lock_sid (edit_locks p ! k) of
                  Inl e \<Rightarrow> (Inl e, w)
                | Inr t \<Rightarrow>
                    let w = say_unless (uo_silent opt) (file_heading unique nm @ t @ [newline]) w in
                    (case pfile_update (sub_file (CHR ''q'') nm) (sub_file (CHR ''p'') nm) True
                            (edit_locks (delete_lock k p)) (w_dir w) of
                       (r, dir) \<Rightarrow>
                         (Inr (case r of Inl e \<Rightarrow> Status 1 | Inr _ \<Rightarrow> Keep),
                          w\<lparr>w_dir := (if uo_keep opt then dir else dir(gname nm := None))\<rparr>)))
           | _ \<Rightarrow> (Inr (Status 1), w)))"

definition unget_main :: "os \<Rightarrow> string list \<Rightarrow> world \<Rightarrow> int res \<times> world" where
  "unget_main os =
     run_command os unget_option unget_start ''r!snV'' 2
       (\<lambda>opt it w. if it_source it = NONE then stop_with 1 else go_on w) (unget_file os) (\<lambda>w. w)"

section \<open>sact\<close>

definition sact_lock :: "edit_lock \<Rightarrow> string res" where
  "sact_lock l =
     bindE (sid_print (el_got l)) (\<lambda>g.
     bindE (sid_print (el_delta l)) (\<lambda>d.
     bindE (date_print (el_date l)) (\<lambda>dt.
       Inr (g @ '' '' @ d @ '' '' @ el_user l @ '' '' @ dt @ [newline]))))"

definition sact_file :: "os \<Rightarrow> bool \<Rightarrow> world \<Rightarrow> sccs_name \<Rightarrow> outcome res \<times> world" where
  "sact_file os unique w nm =
     (case bindE (open_locks os (w_dir w) nm PFILE_READ) (\<lambda>p.
             foldE (\<lambda>t l. bindE (sact_lock l) (\<lambda>x. Inr (t @ x)))
               (if edit_locks p = [] then [] else file_heading unique nm) (edit_locks p)) of
        Inl e \<Rightarrow> (Inl e, w)
      | Inr t \<Rightarrow> (Inr Keep, say t w))"

definition sact_main :: "os \<Rightarrow> string list \<Rightarrow> world \<Rightarrow> int res \<times> world" where
  "sact_main os =
     run_command os (\<lambda>opt ca. go_on opt) () ''V'' 2
       (\<lambda>opt it w. if it_source it = NONE then stop_with 1 else go_on w) (\<lambda>opt. sact_file os) (\<lambda>w. w)"

section \<open>delta\<close>

record delta_options =
  do_rid :: sid
  do_silent :: bool
  do_keep :: bool
  do_mrs :: "string option"
  do_comments :: "string option"
  do_display :: bool

definition delta_start :: delta_options where
  "delta_start = \<lparr>do_rid = null_sid, do_silent = False, do_keep = False, do_mrs = None, do_comments = None, do_display = False\<rparr>"

definition delta_option :: "delta_options switch" where
  "delta_option opt ca =
     (case ca of (c, a) \<Rightarrow>
        if c = CHR ''r'' then
          let r = sid_of_string a in if sid_valid r then go_on (opt\<lparr>do_rid := r\<rparr>) else stop_with 1
        else if c = CHR ''s'' then go_on (opt\<lparr>do_silent := True\<rparr>)
        else if c = CHR ''n'' then go_on (opt\<lparr>do_keep := True\<rparr>)
        else if c = CHR ''p'' then go_on (opt\<lparr>do_display := True\<rparr>)
        else if c = CHR ''m'' then go_on (opt\<lparr>do_mrs := Some a\<rparr>)
        else if c = CHR ''y'' then go_on (opt\<lparr>do_comments := Some a\<rparr>)
        else if c = CHR ''V'' then go_on opt
        else stop_with 1)"

text \<open>\<open>suppress_mrs\<close>: the option \<open>-m\<close> was given without an argument.\<close>

definition suppress_mrs :: "delta_options \<Rightarrow> bool" where
  "suppress_mrs opt \<longleftrightarrow> do_mrs opt = Some []"

text \<open>The state of the loop; \<open>dl_lists\<close> is \<open>None\<close> before the first file.\<close>

record delta_loop_state =
  dl_lists :: "(string list \<times> string list) option"
  dl_world :: world

text \<open>The MRs and comments, for which the first file may prompt.\<close>

definition delta_prompts :: "delta_options \<Rightarrow> sccs_file \<Rightarrow> string \<Rightarrow> (string list \<times> string list) \<times> string" where
  "delta_prompts opt f stdin =
     (case (case do_mrs opt of Some m \<Rightarrow> (m, stdin) | None \<Rightarrow> if mr_required f then prompt_user stdin else ([], stdin)) of
        (m, stdin) \<Rightarrow>
          (case (case do_comments opt of Some c \<Rightarrow> (c, stdin) | None \<Rightarrow> prompt_user stdin) of
             (c, stdin) \<Rightarrow> ((split_mrs m, split_comments c), stdin)))"

text \<open>The test of the MRs: whether the delta is refused, and whether the SID is printed.\<close>

definition delta_mrs_refused :: "os \<Rightarrow> delta_options \<Rightarrow> sccs_file \<Rightarrow> string list \<Rightarrow> (bool \<times> bool) res" where
  "delta_mrs_refused os opt f mr_list =
     (if \<not> suppress_mrs opt \<and> mr_required f then
        if mr_list = [] then Inr (True, False)
        else bindE (check_mrs os f mr_list) (\<lambda>bad. Inr (bad, bad))
      else Inr (mr_list \<noteq> [], mr_list \<noteq> []))"

text \<open>Whether \<open>add_delta\<close> comes as far as \<open>start_update\<close>.\<close>

definition delta_reaches :: "os \<Rightarrow> sccs_file \<Rightarrow> string \<Rightarrow> edit_lock \<Rightarrow> string list \<Rightarrow> string list \<Rightarrow> bool" where
  "delta_reaches os f content it mr_list comment_list \<longleftrightarrow>
     (case bindE (add_delta_input f content) (\<lambda>_.
           bindE (add_delta_state f it) (\<lambda>(got, st).
           bindE (add_delta_dfile (os_canonify os) f st) (\<lambda>_.
             add_delta_new (os_now os) (os_user os) mr_list comment_list it got st f))) of
        Inl _ \<Rightarrow> False | Inr _ \<Rightarrow> True)"

definition delta_add ::
  "os \<Rightarrow> delta_options \<Rightarrow> sccs_file \<Rightarrow> sccs_pfile \<Rightarrow> nat \<Rightarrow> string list \<Rightarrow> string list \<Rightarrow> world \<Rightarrow> outcome res \<times> world" where
  "delta_add os opt f p k mr_list comment_list w =
     (let g = gname (sf_name f) in
      if \<not> authorised (os_user os) (os_group os) (users f) then (Inr (Status 1), w)
      else
        (case w_dir w g of
           None \<Rightarrow> (Inr (Status 1), w)
         | Some content \<Rightarrow>
             (case add_delta (os_line_max os) (os_diff os) (os_now os) (os_user os) (os_canonify os) f content p k
                     mr_list comment_list (do_display opt)
                     (if delta_reaches os f content (edit_locks p ! k) mr_list comment_list
                      then start_xfile (sf_name f) (w_dir w) else w_dir w) of
                (Inr r, dir) \<Rightarrow>
                  (Inr Keep,
                   say_unless (do_silent opt) (ar_output r) (w\<lparr>w_dir := (if do_keep opt then dir else dir(g := None))\<rparr>))
              | (Inl (Failed e), dir) \<Rightarrow> (Inr (Status 1), w\<lparr>w_dir := dir\<rparr>)
              | (Inl e, dir) \<Rightarrow> (Inl e, w\<lparr>w_dir := dir\<rparr>))))"

definition delta_file :: "os \<Rightarrow> delta_options \<Rightarrow> bool \<Rightarrow> delta_loop_state \<Rightarrow> sccs_name \<Rightarrow> outcome res \<times> delta_loop_state" where
  "delta_file os opt unique s nm =
     (let w = dl_world s in
      case bindE (open_sfile os (w_dir w) nm UPDATE) (\<lambda>f. bindE (open_locks os (w_dir w) nm PFILE_UPDATE) (\<lambda>p. Inr (f, p))) of
        Inl e \<Rightarrow> (Inl e, s)
      | Inr (f, p) \<Rightarrow>
          (case (case dl_lists s of Some l \<Rightarrow> (l, w_stdin w) | None \<Rightarrow> delta_prompts opt f (w_stdin w)) of
             ((mr_list, comment_list), stdin) \<Rightarrow>
               let w = w\<lparr>w_stdin := stdin\<rparr>; s = \<lparr>dl_lists = Some (mr_list, comment_list), dl_world = w\<rparr> in
               (case find_sid (os_user os) p (do_rid opt) of
                  FOUND k \<Rightarrow>
                    (case bindE (delta_mrs_refused os opt f mr_list) (\<lambda>(bad, show).
                            if show then bindE (sid_print (el_delta (edit_locks p ! k))) (\<lambda>t. Inr (bad, t @ [newline]))
                            else Inr (bad, [])) of
                       Inl e \<Rightarrow> (Inl e, s)
                     | Inr (bad, t) \<Rightarrow>
                         if bad then (Inr (Status 1), s\<lparr>dl_world := say_unless (do_silent opt) t w\<rparr>)
                         else
                           (case delta_add os opt f p k mr_list comment_list w of
                              (r, w) \<Rightarrow> (r, s\<lparr>dl_world := w\<rparr>)))
                | _ \<Rightarrow> (Inr (Status 1), s))))"

definition delta_main :: "os \<Rightarrow> string list \<Rightarrow> world \<Rightarrow> int res \<times> world" where
  "delta_main os =
     run_command os delta_option delta_start ''r!sng!m!y!pV'' 1
       (\<lambda>opt it w. if it_source it = NONE then stop_with 1 else go_on \<lparr>dl_lists = None, dl_world = w\<rparr>)
       (delta_file os) dl_world"

section \<open>rmdel\<close>

definition rmdel_option :: "sid switch" where
  "rmdel_option rid ca =
     (if fst ca = CHR ''r'' then
        let r = sid_of_string (snd ca) in if sid_valid r then go_on r else stop_with 2
      else go_on rid)"

text \<open>Whether \<open>rmdel\<close> comes as far as \<open>start_update\<close>.\<close>

definition rmdel_reaches :: "sccs_file \<Rightarrow> sid \<Rightarrow> bool" where
  "rmdel_reaches f rid \<longleftrightarrow>
     edit_mode_permitted f True = Inr ()
     \<and> (case find_delta f rid of None \<Rightarrow> False | Some d \<Rightarrow> rm_check (seq d) (selected Current (sf_table f)) = Inr ())"

definition rmdel_file :: "os \<Rightarrow> sid \<Rightarrow> bool \<Rightarrow> world \<Rightarrow> sccs_name \<Rightarrow> outcome res \<times> world" where
  "rmdel_file os rid unique w nm =
     (case bindE (open_sfile os (w_dir w) nm UPDATE) (\<lambda>f. bindE (open_locks os (w_dir w) nm PFILE_READ) (\<lambda>p. Inr (f, p))) of
        Inl e \<Rightarrow> (Inl e, w)
      | Inr (f, p) \<Rightarrow>
          if is_locked p rid then (Inr (Status 1), w)
          else
            let d = (if rmdel_reaches f rid then start_xfile nm (w_dir w) else w_dir w) in
            (case rmdel f rid of
               Inr (new, f') \<Rightarrow> (Inr Keep, w\<lparr>w_dir := d(sname nm \<mapsto> new)\<rparr>)
             | Inl (Failed e) \<Rightarrow> (Inr (Status 1), w\<lparr>w_dir := d\<rparr>)
             | Inl e \<Rightarrow> (Inl e, w\<lparr>w_dir := d\<rparr>)))"

definition rmdel_main :: "os \<Rightarrow> string list \<Rightarrow> world \<Rightarrow> int res \<times> world" where
  "rmdel_main os =
     run_command os rmdel_option null_sid ''r!V'' 2
       (\<lambda>rid it w. if \<not> sid_valid rid then stop_with 2 else if it_source it = NONE then stop_with 1 else go_on w)
       (rmdel_file os) (\<lambda>w. w)"

section \<open>cdc\<close>

record cdc_options =
  co_rid :: sid
  co_mrs :: string
  co_comments :: "string option"

definition cdc_start :: cdc_options where
  "cdc_start = \<lparr>co_rid = null_sid, co_mrs = [], co_comments = None\<rparr>"

definition cdc_option :: "cdc_options switch" where
  "cdc_option opt ca =
     (case ca of (c, a) \<Rightarrow>
        if c = CHR ''r'' then
          let r = sid_of_string a in if sid_valid r then go_on (opt\<lparr>co_rid := r\<rparr>) else stop_with 2
        else if c = CHR ''m'' then go_on (opt\<lparr>co_mrs := a\<rparr>)
        else if c = CHR ''y'' then go_on (opt\<lparr>co_comments := Some a\<rparr>)
        else if c = CHR ''V'' then go_on opt
        else stop_with 2)"

record cdc_loop_state =
  cl_first :: bool
  cl_stdin_used :: bool
  cl_mrs :: "string list"
  cl_comments :: "string list"
  cl_world :: world

definition cdc_begin :: "cdc_options \<Rightarrow> sccs_file_iterator \<Rightarrow> world \<Rightarrow> (int + cdc_loop_state) res" where
  "cdc_begin opt it w =
     (let begin = (\<lambda>c w. go_on \<lparr>cl_first = True, cl_stdin_used = (it_source it = STDIN), cl_mrs = split_mrs (co_mrs opt),
                               cl_comments = split_comments c, cl_world = w\<rparr>) in
      if \<not> sid_valid (co_rid opt) then stop_with 1
      else if it_source it = NONE then stop_with 1
      else
        (case co_comments opt of
           Some c \<Rightarrow> begin c w
         | None \<Rightarrow>
             if it_source it = STDIN then stop_with 1
             else (case prompt_user (w_stdin w) of (c, r) \<Rightarrow> begin c (w\<lparr>w_stdin := r\<rparr>))))"

text \<open>Whether the MRs are refused.\<close>

definition cdc_mrs_refused :: "os \<Rightarrow> sccs_file \<Rightarrow> string list \<Rightarrow> bool res" where
  "cdc_mrs_refused os f mr_list =
     (if mr_list \<noteq> [] then (if mr_required f then check_mrs os f mr_list else Inr True) else Inr (mr_required f))"

text \<open>The change itself and the update of the s-file; \<open>None\<close> when it does not come to the update.\<close>

definition cdc_update :: "os \<Rightarrow> sid \<Rightarrow> sccs_file \<Rightarrow> string list \<Rightarrow> string list \<Rightarrow> string res option" where
  "cdc_update os rid f mr_list comment_list =
     (if find_delta f rid = None \<or> edit_mode_permitted f True \<noteq> Inr () then None
      else Some (sfile_update
              (f\<lparr>sf_table := (sf_table f)\<lparr>items := change_first (\<lambda>x. \<not> removed x \<and> delta_id x = rid)
                  (\<lambda>x. cdc (os_now os) (os_user os) x mr_list comment_list) (items (sf_table f))\<rparr>\<rparr>)))"

definition cdc_file :: "os \<Rightarrow> cdc_options \<Rightarrow> bool \<Rightarrow> cdc_loop_state \<Rightarrow> sccs_name \<Rightarrow> outcome res \<times> cdc_loop_state" where
  "cdc_file os opt unique s nm =
     (let w = cl_world s in
      case open_sfile os (w_dir w) nm UPDATE of
        Inl e \<Rightarrow> (Inl e, s)
      | Inr f \<Rightarrow>
          let ask = (cl_first s \<and> mr_required f \<and> cl_mrs s = []); s = s\<lparr>cl_first := False\<rparr> in
          if ask \<and> cl_stdin_used s then (Inr (Return 1), s)
          else
            let s = (if ask then (case prompt_user (w_stdin w) of
                                    (m, r) \<Rightarrow> s\<lparr>cl_mrs := split_mrs m, cl_world := w\<lparr>w_stdin := r\<rparr>\<rparr>) else s) in
            (case cdc_mrs_refused os f (cl_mrs s) of
               Inl e \<Rightarrow> (Inl e, s)
             | Inr True \<Rightarrow> (Inr (Status 1), s)
             | Inr False \<Rightarrow>
                 (case cdc_update os (co_rid opt) f (cl_mrs s) (cl_comments s) of
                    None \<Rightarrow> (Inr (Status 1), s)
                  | Some r \<Rightarrow>
                      let d = start_xfile nm (w_dir w); put = (\<lambda>d. s\<lparr>cl_world := (cl_world s)\<lparr>w_dir := d\<rparr>\<rparr>) in
                      (case r of
                         Inr new \<Rightarrow> (Inr Keep, put (d(sname nm \<mapsto> new)))
                       | Inl (Failed e) \<Rightarrow> (Inr (Status 1), put d)
                       | Inl e \<Rightarrow> (Inl e, put d)))))"

definition cdc_main :: "os \<Rightarrow> string list \<Rightarrow> world \<Rightarrow> int res \<times> world" where
  "cdc_main os = run_command os cdc_option cdc_start ''r!m!y!V'' 2 cdc_begin (cdc_file os) cl_world"

section \<open>admin\<close>

record admin_options =
  ao_first_sid :: sid
  ao_got_r :: bool
  ao_new :: bool
  ao_binary :: bool
  ao_iname :: "string option"
  ao_comment :: "string option"
  ao_set_flags :: "string list"
  ao_unset_flags :: "string list"
  ao_add_users :: "string list"
  ao_erase_users :: "string list"
  ao_mrs :: "string option"
  ao_comments :: string
  ao_no_comments :: bool
  ao_check :: bool
  ao_reset :: bool

definition admin_start :: admin_options where
  "admin_start =
     \<lparr>ao_first_sid = sid_of_string ''1.1'', ao_got_r = False, ao_new = False, ao_binary = False, ao_iname = None,
      ao_comment = None, ao_set_flags = [], ao_unset_flags = [], ao_add_users = [], ao_erase_users = [], ao_mrs = None,
      ao_comments = [], ao_no_comments = False, ao_check = False, ao_reset = False\<rparr>"

text \<open>The first SID after \<open>-r\<close>: the first of a release, or the SID that is given.\<close>

definition admin_first_sid :: "string \<Rightarrow> sid res" where
  "admin_first_sid a =
     (let r = release_of_string (Some a) in
      if release_valid r then successor (sid_of_release r) else Inr (sid_of_string a))"

text \<open>\<open>narg\<close> is the number of arguments of the command.\<close>

definition admin_option :: "os \<Rightarrow> nat \<Rightarrow> admin_options switch" where
  "admin_option os narg opt ca =
     (case ca of (c, a) \<Rightarrow>
        if c = CHR ''n'' then go_on (opt\<lparr>ao_new := True\<rparr>)
        else if c = CHR ''b'' then
          bindE (os_binary os) (\<lambda>ok. if ok then go_on (opt\<lparr>ao_binary := True\<rparr>) else stop_with 2)
        else if c = CHR ''i'' then go_on (opt\<lparr>ao_iname := Some (if a \<noteq> [] then a else ''-''), ao_new := True\<rparr>)
        else if c = CHR ''r'' then
          bindE (admin_first_sid a) (\<lambda>s.
            if release_valid (release_of_string (Some a)) \<or> sid_valid s
            then go_on (opt\<lparr>ao_first_sid := s, ao_got_r := True\<rparr>) else stop_with 1)
        else if c = CHR ''t'' then go_on (opt\<lparr>ao_comment := Some a\<rparr>)
        else if c = CHR ''f'' then go_on (opt\<lparr>ao_set_flags := ao_set_flags opt @ [a]\<rparr>)
        else if c = CHR ''d'' then go_on (opt\<lparr>ao_unset_flags := ao_unset_flags opt @ [a]\<rparr>)
        else if c = CHR ''a'' then go_on (opt\<lparr>ao_add_users := ao_add_users opt @ [a]\<rparr>)
        else if c = CHR ''e'' then go_on (opt\<lparr>ao_erase_users := ao_erase_users opt @ [a]\<rparr>)
        else if c = CHR ''m'' then go_on (opt\<lparr>ao_mrs := Some a\<rparr>)
        else if c = CHR ''y'' then go_on (opt\<lparr>ao_comments := a, ao_no_comments := (a = [])\<rparr>)
        else if c = CHR ''h'' then go_on (opt\<lparr>ao_check := True\<rparr>)
        else if c = CHR ''z'' then go_on (opt\<lparr>ao_reset := True\<rparr>)
        else if c = CHR ''V'' then (if narg = 2 then stop_with 0 else go_on opt)
        else stop_with 2)"

definition well_formed_sccsname :: "sccs_name \<Rightarrow> bool" where
  "well_formed_sccsname n =
     (let s = (case last_slash (sname n) of Some i \<Rightarrow> drop (i + 1) (sname n) | None \<Rightarrow> sname n) in
      char_at s 0 = CHR ''s'' \<and> char_at s 1 = CHR ''.'')"

definition admin_mode :: "admin_options \<Rightarrow> sccs_file_open_mode" where
  "admin_mode opt =
     (if ao_check opt then READ else if ao_new opt then CREATE else if ao_reset opt then FIX_CHECKSUM else UPDATE)"

text \<open>The state of the loop: whether no file was handled yet, the MRs and comments, and \<open>suppress_mrs\<close>.\<close>

record admin_loop_state =
  al_first :: bool
  al_mrs :: "string list"
  al_comments :: "string list"
  al_suppress_mrs :: bool
  al_world :: world

definition admin_begin :: "admin_options \<Rightarrow> sccs_file_iterator \<Rightarrow> world \<Rightarrow> (int + admin_loop_state) res" where
  "admin_begin opt it w =
     (if ao_comment opt = Some [] \<and> ao_new opt then stop_with 1
      else if it_source it = NONE then stop_with 1
      else if ao_got_r opt \<and> ao_iname opt = None then stop_with 1
      else go_on \<lparr>al_first = True, al_mrs = [], al_comments = [], al_suppress_mrs = (ao_mrs opt \<noteq> None), al_world = w\<rparr>)"

text \<open>\<open>admin -h\<close>: the checksum and the validation.\<close>

definition admin_check :: "sccs_file \<Rightarrow> outcome res" where
  "admin_check f = bindE (validate f) (\<lambda>ok. Inr (if checksum_valid f \<and> ok then Keep else Status 1))"

text \<open>The file that \<open>-t\<close> names.\<close>

definition admin_description :: "admin_options \<Rightarrow> directory \<Rightarrow> string option option res" where
  "admin_description opt dir =
     (case ao_comment opt of
        None \<Rightarrow> Inr None
      | Some t \<Rightarrow> if t = [] then Inr (Some None)
                  else (case dir t of Some s \<Rightarrow> Inr (Some (Some s)) | None \<Rightarrow> admin_fail))"

text \<open>The MRs and comments of the first new file; \<open>None\<close> when MRs are given but not enabled.\<close>

definition admin_first_lists :: "admin_options \<Rightarrow> sccs_file \<Rightarrow> admin_loop_state \<Rightarrow> admin_loop_state option" where
  "admin_first_lists opt f s =
     (let ms = (case ao_mrs opt of Some m \<Rightarrow> m | None \<Rightarrow> []) in
      if \<not> mr_required f \<and> ms \<noteq> [] then None
      else Some (s\<lparr>al_mrs := split_mrs ms, al_suppress_mrs := (al_suppress_mrs s \<and> split_mrs ms = []),
                   al_comments := split_comments (ao_comments opt)\<rparr>))"

definition admin_mrs_refused :: "os \<Rightarrow> sccs_file \<Rightarrow> admin_loop_state \<Rightarrow> bool res" where
  "admin_mrs_refused os f s =
     (if \<not> mr_required f then Inr False
      else if \<not> al_suppress_mrs s \<and> al_mrs s = [] then Inr True
      else check_mrs os f (al_mrs s))"

text \<open>The initial file, its executable bit, and the rest of the standard input.\<close>

definition admin_initial :: "os \<Rightarrow> admin_options \<Rightarrow> world \<Rightarrow> ((string \<times> bool) option \<times> string) option" where
  "admin_initial os opt w =
     (case ao_iname opt of
        None \<Rightarrow> Some (None, w_stdin w)
      | Some n \<Rightarrow>
          if n = ''-'' then Some (Some (w_stdin w, os_xbits os n), [])
          else map_option (\<lambda>s. (Some (s, os_xbits os n), w_stdin w)) (w_dir w n))"

text \<open>The creation of one file, which must not exist. The default comment that \<open>create\<close> makes stays in the list for the next file.\<close>

definition admin_create :: "os \<Rightarrow> admin_options \<Rightarrow> sccs_file \<Rightarrow> admin_loop_state \<Rightarrow> outcome res \<times> admin_loop_state" where
  "admin_create os opt f s =
     (let s' = s\<lparr>al_comments := starting_comments (os_now os) (os_user os) (ao_no_comments opt) (al_comments s)\<rparr>;
          w = al_world s' in
      case admin_initial os opt w of
        None \<Rightarrow> (Inr (Status 1), s')
      | Some (initial, stdin) \<Rightarrow>
          let w = w\<lparr>w_stdin := stdin\<rparr>; nm = sf_name f in
          if w_dir w (sname nm) \<noteq> None then (Inr (Status 1), s'\<lparr>al_world := w\<rparr>)
          else
          let w = w\<lparr>w_dir := start_xfile nm (w_dir w)\<rparr> in
          (case create (os_binary os) (os_line_max os) (os_now os) (os_user os) f (ao_first_sid opt) initial (al_mrs s)
                  (al_comments s) (ao_no_comments opt) (ao_binary opt) of
             Inr (new, f') \<Rightarrow> (Inr Keep, s'\<lparr>al_world := w\<lparr>w_dir := (w_dir w)(sname nm \<mapsto> new)\<rparr>\<rparr>)
           | Inl (Failed e) \<Rightarrow> (Inr (Status 1), s'\<lparr>al_world := w\<rparr>)
           | Inl e \<Rightarrow> (Inl e, s'\<lparr>al_world := w\<rparr>)))"

definition admin_new :: "os \<Rightarrow> admin_options \<Rightarrow> sccs_file \<Rightarrow> bool \<Rightarrow> admin_loop_state \<Rightarrow> outcome res \<times> admin_loop_state" where
  "admin_new os opt f me_first s =
     (if ao_iname opt \<noteq> None \<and> \<not> me_first then (Inr (Return 1), s)
      else
        (case (if me_first then admin_first_lists opt f s else Some s) of
           None \<Rightarrow> (Inr (Status 1), s)
         | Some s \<Rightarrow>
             (case admin_mrs_refused os f s of
                Inl e \<Rightarrow> (Inl e, s)
              | Inr True \<Rightarrow> (Inr (Status 1), s)
              | Inr False \<Rightarrow> admin_create os opt f s)))"

definition put_sfile :: "string res \<Rightarrow> sccs_name \<Rightarrow> admin_loop_state \<Rightarrow> outcome res \<times> admin_loop_state" where
  "put_sfile r nm s =
     (let d = start_xfile nm (w_dir (al_world s)); put = (\<lambda>d. s\<lparr>al_world := (al_world s)\<lparr>w_dir := d\<rparr>\<rparr>) in
      case r of
        Inr new \<Rightarrow> (Inr Keep, put (d(sname nm \<mapsto> new)))
      | Inl (Failed e) \<Rightarrow> (Inr (Status 1), put d)
      | Inl e \<Rightarrow> (Inl e, put d))"

definition admin_file :: "os \<Rightarrow> admin_options \<Rightarrow> bool \<Rightarrow> admin_loop_state \<Rightarrow> sccs_name \<Rightarrow> outcome res \<times> admin_loop_state" where
  "admin_file os opt unique s0 nm =
     (let me_first = al_first s0; s = s0\<lparr>al_first := False\<rparr>; w = al_world s in
      if \<not> well_formed_sccsname nm then (Inr (Status 1), s)
      else
        (case open_sfile os (w_dir w) nm (admin_mode opt) of
           Inl e \<Rightarrow> (Inl e, s)
         | Inr f \<Rightarrow>
             if ao_check opt then (admin_check f, s)
             else if ao_reset opt then put_sfile (sfile_update f) nm s
             else
               (case bindE (admin_description opt (w_dir w)) (\<lambda>desc.
                       admin f desc (ao_binary opt) (ao_set_flags opt) (ao_unset_flags opt) (ao_add_users opt) (ao_erase_users opt)) of
                  Inl (Failed e) \<Rightarrow> (Inr (Status 1), s)
                | Inl e \<Rightarrow> (Inl e, s)
                | Inr f \<Rightarrow>
                    if ao_new opt then admin_new os opt f me_first s else put_sfile (sfile_update f) nm s)))"

definition admin_main :: "os \<Rightarrow> string list \<Rightarrow> world \<Rightarrow> int res \<times> world" where
  "admin_main os av =
     run_command os (admin_option os (length av)) admin_start ''bni!r!t!f!d!a!e!m!y!hzV'' 2 admin_begin
       (admin_file os) al_world av"

section \<open>get\<close>

text \<open>The \<open>switch\<close>: the date of \<open>-c\<close> is parsed first.\<close>

definition get_switch :: "get_options switch" where
  "get_switch opt ca =
     bindE (if fst ca = CHR ''c'' then date_of_cutoff (snd ca) else Inr date_default) (\<lambda>d.
       case get_option (\<lambda>_. d) opt ca of
         Inl (Failed e) \<Rightarrow> stop_with (if fst ca = CHR ''a'' then 2 else 1)
       | Inl e \<Rightarrow> Inl e
       | Inr opt \<Rightarrow> go_on opt)"

text \<open>
  The options that hold while the files are handled: \<open>-g\<close> drops the name given with \<open>-G\<close>, and
  the first g-file takes it away from the files that follow.
\<close>

record get_loop_state =
  gl_options :: get_options
  gl_world :: world

definition get_begin :: "get_options \<Rightarrow> sccs_file_iterator \<Rightarrow> world \<Rightarrow> (int + get_loop_state) res" where
  "get_begin opt it w =
     (if it_source it = NONE then stop_with 1
      else go_on \<lparr>gl_options = (if go_no_output opt then opt\<lparr>go_gname := None\<rparr> else opt), gl_world = w\<rparr>)"

text \<open>Whether the body of the loop comes as far as the creation of the g-file.\<close>

definition get_reaches :: "os \<Rightarrow> get_options \<Rightarrow> sccs_file \<Rightarrow> directory \<Rightarrow> bool" where
  "get_reaches os gopt f dir \<longleftrightarrow>
     (case bindE (if go_edit gopt then open_pfile dir (sub_file (CHR ''p'') (sf_name f)) PFILE_APPEND
                  else Inr \<lparr>pmode = PFILE_APPEND, edit_locks = []\<rparr>) (\<lambda>p.
           bindE (get_choose gopt f) (\<lambda>choice.
             case choice of
               None \<Rightarrow> Inr None
             | Some (rid, retrieve) \<Rightarrow>
                 if go_edit gopt then get_new_sid (os_user os) (os_group os) gopt f p rid retrieve else Inr (Some null_sid))) of
        Inr (Some _) \<Rightarrow> \<not> go_stdout gopt \<and> \<not> go_no_output gopt
      | _ \<Rightarrow> False)"

definition get_one :: "os \<Rightarrow> get_options \<Rightarrow> bool \<Rightarrow> get_loop_state \<Rightarrow> sccs_name \<Rightarrow> outcome res \<times> get_loop_state" where
  "get_one os opt0 unique s nm =
     (let gopt = gl_options s;
          on_stdout = (\<not> go_silent gopt \<and> \<not> go_commentary_stderr gopt);
          w = say_unless (\<not> on_stdout) (file_heading unique nm) (gl_world s);
          s = s\<lparr>gl_world := w\<rparr> in
      case bindE (if go_edit gopt then open_locks os (w_dir w) nm PFILE_APPEND else Inr \<lparr>pmode = PFILE_APPEND, edit_locks = []\<rparr>)
             (\<lambda>_. open_sfile os (w_dir w) nm READ) of
        Inl e \<Rightarrow> (Inl e, s)
      | Inr f \<Rightarrow>
          let s' = (if get_reaches os gopt f (w_dir w) then s\<lparr>gl_options := gopt\<lparr>go_gname := None\<rparr>\<rparr> else s) in
          (case get_file (os_user os) (os_group os) (os_now os) (os_canonify os) (os_creatable os) gopt f (w_dir w) of
             Inl e \<Rightarrow> (Inl e, s')
           | Inr r \<Rightarrow>
               (Inr (if gr_failed r then Status 1 else Keep),
                s'\<lparr>gl_world := say_unless (\<not> on_stdout) (gr_commentary r) (say (gr_output r) (w\<lparr>w_dir := gr_dir r\<rparr>))\<rparr>)))"

definition get_main :: "os \<Rightarrow> string list \<Rightarrow> world \<Rightarrow> int res \<times> world" where
  "get_main os =
     run_command os get_switch get_options_default ''r!c!i!x!ebkl!psmngtw!a!DVG!L'' 1 get_begin (get_one os) gl_world"

end
