(* ===== verification/Prs.thy ===== *)
theory Prs
  imports Keywords "HOL-Library.Sublist"
begin

text \<open>
  \<open>prs\<close> (sf-prs.cc): the report on the deltas of an s-file after a format with data keywords.

  The report is a string. \<open>print_delta\<close> and \<open>print_delta_key\<close> call each other, because some
  keywords stand for a format of their own: the depth of the calls is an argument, and depth 2
  turns out to be enough. Reading one character past the end of a format gives a NUL here; in
  the program it is undefined. The expansion of file names is a parameter.
\<close>

section \<open>Printing parts\<close>

definition print_seq_list :: "seq_no list \<Rightarrow> string" where
  "print_seq_list ns = words_text (map show_nat (rev ns))"

definition print_string_list :: "string list \<Rightarrow> string" where
  "print_string_list ss = concat (map (\<lambda>s. s @ [newline]) ss)"

definition tab :: char where
  "tab = CHR 0x09"

definition print_flag2_bool :: "string \<Rightarrow> bool \<Rightarrow> string" where
  "print_flag2_bool s b = (if b then s @ [newline] else [])"

definition print_flag2_sid :: "string \<Rightarrow> sid \<Rightarrow> string res" where
  "print_flag2_sid s i = (if sid_valid i then bindE (sid_print i) (\<lambda>t. Inr (s @ [tab] @ t @ [newline])) else Inr [])"

definition print_flag2_list :: "string \<Rightarrow> release_list \<Rightarrow> string" where
  "print_flag2_list s l = (if rel_valid l then s @ [tab] @ rel_print l @ [newline] else [])"

definition print_flag2_release :: "string \<Rightarrow> release \<Rightarrow> string" where
  "print_flag2_release s r = (if release_valid r then s @ [tab] @ release_print r @ [newline] else [])"

definition print_flag2_string :: "string \<Rightarrow> string option \<Rightarrow> string" where
  "print_flag2_string nm s = (case s of Some t \<Rightarrow> nm @ [tab] @ t @ [newline] | None \<Rightarrow> [])"

definition print_flags :: "sccs_file_flags \<Rightarrow> string res" where
  "print_flags fl =
     bindE (print_flag2_sid ''default SID'' (default_sid fl)) (\<lambda>dflt.
       Inr (print_flag2_bool ''branch'' (fl_branch fl) @ print_flag2_release ''ceiling'' (fl_ceiling fl) @ dflt
            @ (if fl_encoded fl then ''encoded'' @ [newline] else [])
            @ print_flag2_release ''floor'' (fl_floor fl)
            @ print_flag2_bool ''id keywd err/warn'' (no_id_keywords_is_fatal fl)
            @ print_flag2_bool ''joint edit'' (joint_edit fl)
            @ (if all_locked fl then print_flag2_string ''locked releases'' (Some ''a'')
               else print_flag2_list ''locked releases'' (locked fl))
            @ print_flag2_string ''module'' (fl_module fl) @ print_flag2_bool ''null delta'' (null_deltas fl)
            @ print_flag2_string ''csect name'' (user_def fl) @ print_flag2_string ''type'' (fl_type fl)
            @ print_flag2_string ''validate MRs'' (mr_checker fl)))"

definition print_yesno :: "bool \<Rightarrow> string" where
  "print_yesno b = (if b then ''yes'' else ''no'')"

definition print_flag_pointer :: "string option \<Rightarrow> string" where
  "print_flag_pointer s = (case s of None \<Rightarrow> ''none'' | Some t \<Rightarrow> t)"

definition print_flag_string :: "string \<Rightarrow> string" where
  "print_flag_string s = (if s = [] then ''none'' else s)"

definition print_flag_list :: "release_list \<Rightarrow> string" where
  "print_flag_list l = (if rel_valid l then rel_print l else ''none'')"

definition print_flag_release :: "release \<Rightarrow> string" where
  "print_flag_release r = (if release_valid r then release_print r else ''none'')"

definition print_flag_sid :: "sid \<Rightarrow> string res" where
  "print_flag_sid i = (if sid_valid i then sid_print i else Inr ''none'')"

section \<open>Data keywords\<close>

text \<open>The body of the version at a delta, with its keywords substituted.\<close>

definition print_gotten_body :: "(string \<Rightarrow> string option) \<Rightarrow> sccs_file \<Rightarrow> delta \<Rightarrow> string res" where
  "print_gotten_body canonify f d =
     bindE (delta_at_seq (sf_table f) (seq d)) (\<lambda>dd.
     bindE (bindE (new_seq_state (highest_delta_seqno f)) (\<lambda>st.
              prepare_seqstate (sf_table f) st (seq d) rl_empty rl_empty date_default)) (\<lambda>st.
     bindE (do_get canonify f st
              \<lparr>sp_outname = ''standard output'', sp_module_name = get_module_name f, wstring = None, sp_out = [],
               sp_delta = dd, sp_out_lineno = 0, sp_now = date_default, found_id = False\<rparr>
              True False False False False) (\<lambda>(st, parms). Inr (sp_out parms))))"

text \<open>The lists of a delta, each with its own format.\<close>

definition print_delta_lists :: "(string \<Rightarrow> string res) \<Rightarrow> delta \<Rightarrow> string res" where
  "print_delta_lists pd d =
     bindE (if included_seqs d \<noteq> [] then pd '':Dn:'' else Inr []) (\<lambda>n.
     bindE (if excluded_seqs d \<noteq> [] then pd ''/:Dx:'' else Inr []) (\<lambda>x.
     bindE (if ignored_seqs d \<noteq> [] then pd ''/:Dg:'' else Inr []) (\<lambda>g.
       Inr (n @ x @ g))))"

text \<open>
  \<open>print_delta_key\<close>, with the printer for formats as an argument: \<open>None\<close> is a keyword that is
  not recognised. The first function has the cases of the \<open>switch\<close> about the file, from \<open>UN\<close> on.
\<close>

definition print_file_key ::
  "(string \<Rightarrow> string res) \<Rightarrow> (string \<Rightarrow> string option) \<Rightarrow> sccs_file \<Rightarrow> delta \<Rightarrow> string \<Rightarrow> string option res" where
  "print_file_key pd canonify f d k =
     (let fl = sf_flags f; known = (\<lambda>r. bindE r (\<lambda>t. Inr (Some t))); txt = (\<lambda>t. Inr (Some t)) in
      if k = ''UN'' then txt (if users f \<noteq> [] then print_string_list (users f) else ''none'' @ [newline])
      else if k = ''FL'' then known (print_flags fl)
      else if k = ''Y'' then txt (print_flag_pointer (fl_type fl))
      else if k = ''MF'' then txt (print_yesno (mr_checker fl \<noteq> None))
      else if k = ''MP'' then txt (print_flag_pointer (mr_checker fl))
      else if k = ''KF'' then txt (print_yesno (no_id_keywords_is_fatal fl))
      else if k = ''BF'' then txt (print_yesno (fl_branch fl))
      else if k = ''J'' then txt (print_yesno (joint_edit fl))
      else if k = ''LK'' then
        txt (if all_locked fl then ''a'' else if locked fl = [] then ''none'' else print_flag_list (locked fl))
      else if k = ''Q'' then txt (case user_def fl of Some t \<Rightarrow> t | None \<Rightarrow> [])
      else if k = ''M'' then txt (print_flag_string (get_module_name f))
      else if k = ''FB'' then txt (print_flag_release (fl_floor fl))
      else if k = ''CB'' then txt (print_flag_release (fl_ceiling fl))
      else if k = ''Ds'' then known (print_flag_sid (default_sid fl))
      else if k = ''ND'' then txt (print_yesno (null_deltas fl))
      else if k = ''FD'' then txt (if sf_comments f = [] then ''none'' @ [newline] else print_string_list (sf_comments f))
      else if k = ''BD'' then txt (emit_raw_body (sf_body f) [])
      else if k = ''GB'' then known (print_gotten_body canonify f d)
      else if k = ''W'' then known (pd ('':Z::M:'' @ [tab] @ '':I:''))
      else if k = ''A'' then known (pd '':Z::Y: :M: :I::Z:'')
      else if k = ''Z'' then txt (''@'' @ ''(#)'')
      else if k = ''F'' then known (base_part (sname (sf_name f)))
      else if k = ''PN'' then
        (case canonify (sname (sf_name f)) of Some p \<Rightarrow> txt p | None \<Rightarrow> Inl (Failed (Message ''canonify'')))
      else Inr None)"

definition print_delta_key ::
  "(string \<Rightarrow> string res) \<Rightarrow> (string \<Rightarrow> string option) \<Rightarrow> sccs_file \<Rightarrow> delta \<Rightarrow> string \<Rightarrow> string option res" where
  "print_delta_key pd canonify f d k =
     (let known = (\<lambda>r. bindE r (\<lambda>t. Inr (Some t))); txt = (\<lambda>t. Inr (Some t)) in
      if k = ''Dt'' then known (pd '':DT: :I: :D: :T: :P: :DS: :DP:'')
      else if k = ''DL'' then known (pd '':Li:/:Ld:/:Lu:'')
      else if k = ''Li'' then txt (show_pad 5 (inserted d))
      else if k = ''Ld'' then txt (show_pad 5 (deleted d))
      else if k = ''Lu'' then txt (show_pad 5 (unchanged d))
      else if k = ''DT'' then txt [delta_type d]
      else if k = ''I'' then known (sid_print (delta_id d))
      else if k = ''R'' then known (sid_printf (delta_id d) (CHR ''R'') False)
      else if k = ''L'' then known (sid_printf (delta_id d) (CHR ''L'') False)
      else if k = ''B'' then known (sid_printf (delta_id d) (CHR ''B'') False)
      else if k = ''S'' then known (sid_printf (delta_id d) (CHR ''S'') False)
      else if k = ''D'' then known (date_printf (delta_date d) (CHR ''D''))
      else if k = ''Dy'' then known (date_printf (delta_date d) (CHR ''y''))
      else if k = ''Dm'' then known (date_printf (delta_date d) (CHR ''o''))
      else if k = ''Dd'' then known (date_printf (delta_date d) (CHR ''d''))
      else if k = ''T'' then known (date_printf (delta_date d) (CHR ''T''))
      else if k = ''Th'' then known (date_printf (delta_date d) (CHR ''h''))
      else if k = ''Tm'' then known (date_printf (delta_date d) (CHR ''m''))
      else if k = ''Ts'' then known (date_printf (delta_date d) (CHR ''s''))
      else if k = ''P'' then txt (user d)
      else if k = ''DS'' then txt (show_nat (seq d))
      else if k = ''DP'' then txt (show_nat (prev_seq d))
      else if k = ''DI'' then known (print_delta_lists pd d)
      else if k = ''Dn'' then txt (print_seq_list (included_seqs d))
      else if k = ''Dx'' then txt (print_seq_list (excluded_seqs d))
      else if k = ''Dg'' then txt (print_seq_list (ignored_seqs d))
      else if k = ''MR'' then txt (print_string_list (mrs d))
      else if k = ''C'' then txt (print_string_list (comments d))
      else print_file_key pd canonify f d k)"

section \<open>Formats\<close>

text \<open>The loop over a format; \<open>keyf\<close> prints one keyword.\<close>

function format_loop :: "(string \<Rightarrow> string option res) \<Rightarrow> string \<Rightarrow> string \<Rightarrow> string res" where
  "format_loop keyf out [] = Inr out"
| "format_loop keyf out (c # s) =
     (if c = CHR 0x5C then
        (case s of
           [] \<Rightarrow> Inr (out @ [c])
         | e # r \<Rightarrow>
             if e = CHR ''n'' then (if r = [] then Inr out else format_loop keyf (out @ [newline]) r)
             else if e = CHR ''t'' then format_loop keyf (out @ [tab]) r
             else if e = CHR 0x5C then format_loop keyf (out @ [c]) r
             else format_loop keyf (out @ [c, e]) r)
      else if c \<noteq> CHR '':'' \<or> s = [] then format_loop keyf (out @ [c]) s
      else if char_at s 1 = CHR '':'' then
        bindE (keyf (take 1 s)) (\<lambda>t. case t of Some t \<Rightarrow> format_loop keyf (out @ t) (drop 2 s)
                                            | None \<Rightarrow> format_loop keyf (out @ '':'') s)
      else if char_at s 2 = CHR '':'' then
        bindE (keyf (take 2 s)) (\<lambda>t. case t of Some t \<Rightarrow> format_loop keyf (out @ t) (drop 3 s)
                                            | None \<Rightarrow> format_loop keyf (out @ '':'') s)
      else format_loop keyf (out @ '':'') s)"
  by pat_completeness auto
termination
  by (relation "measure (\<lambda>(keyf, out, s). length s)") auto

fun print_delta :: "nat \<Rightarrow> (string \<Rightarrow> string option) \<Rightarrow> sccs_file \<Rightarrow> delta \<Rightarrow> string \<Rightarrow> string res" where
  "print_delta 0 canonify f d fmt = Inl Diverged"
| "print_delta (Suc depth) canonify f d fmt =
     format_loop (print_delta_key (print_delta depth canonify f d) canonify f d) [] fmt"

section \<open>prs\<close>

datatype report_when = EARLIER | SIDONLY | LATER

fun prs_sidonly :: "(delta \<Rightarrow> string res) \<Rightarrow> sid \<Rightarrow> delta list \<Rightarrow> (bool \<times> string) res" where
  "prs_sidonly pd rid [] = Inr (False, [])"
| "prs_sidonly pd rid (d # ds) =
     (if \<not> sid_valid rid \<or> rid = delta_id d then bindE (pd d) (\<lambda>t. Inr (True, t @ [newline]))
      else prs_sidonly pd rid ds)"

fun prs_later :: "(delta \<Rightarrow> string res) \<Rightarrow> sid \<Rightarrow> sccs_date \<Rightarrow> bool \<Rightarrow> string \<Rightarrow> delta list \<Rightarrow> (bool \<times> string) res" where
  "prs_later pd rid cutoff matched out [] = Inr (matched, out)"
| "prs_later pd rid cutoff matched out (d # ds) =
     bindE (if date_valid cutoff then date_lt (delta_date d) cutoff else Inr False) (\<lambda>early.
       if early then Inr (matched, out)
       else bindE (pd d) (\<lambda>t.
         let out = out @ t @ [newline] in
         if sid_valid rid \<and> rid = delta_id d then Inr (True, out)
         else prs_later pd rid cutoff True out ds))"

fun prs_earlier :: "(delta \<Rightarrow> string res) \<Rightarrow> sid \<Rightarrow> sccs_date \<Rightarrow> bool \<Rightarrow> string \<Rightarrow> delta list \<Rightarrow> (bool \<times> string) res" where
  "prs_earlier pd rid cutoff matched out [] = Inr (matched, out)"
| "prs_earlier pd rid cutoff matched out (d # ds) =
     (if \<not> matched \<and> sid_valid rid \<and> rid \<noteq> delta_id d then prs_earlier pd rid cutoff matched out ds
      else bindE (if date_valid cutoff then date_lt cutoff (delta_date d) else Inr False) (\<lambda>late.
        if late then prs_earlier pd rid cutoff matched out ds
        else bindE (pd d) (\<lambda>t. prs_earlier pd rid cutoff True (out @ t @ [newline]) ds)))"

definition prs ::
  "(string \<Rightarrow> string option) \<Rightarrow> sccs_file \<Rightarrow> string \<Rightarrow> sid \<Rightarrow> sccs_date \<Rightarrow> report_when \<Rightarrow> delta_selector \<Rightarrow> (bool \<times> string) res" where
  "prs canonify f fmt rid cutoff cutoff_type selector =
     (let pd = (\<lambda>d. print_delta 2 canonify f d fmt); ds = selected selector (sf_table f) in
      case cutoff_type of
        SIDONLY \<Rightarrow> bindE (ASSERT (\<not> date_valid cutoff)) (\<lambda>_. prs_sidonly pd rid ds)
      | LATER \<Rightarrow> prs_later pd rid cutoff False [] ds
      | EARLIER \<Rightarrow> prs_earlier pd rid cutoff False [] ds)"

section \<open>The depth of the calls\<close>

text \<open>The formats that stand behind keywords.\<close>

definition inner_formats :: "string list" where
  "inner_formats = ['':DT: :I: :D: :T: :P: :DS: :DP:'', '':Li:/:Ld:/:Lu:'', '':Dn:'', ''/:Dx:'', ''/:Dg:'',
     '':Z::M:'' @ [tab] @ '':I:'', '':Z::Y: :M: :I::Z:'']"

lemma print_delta_lists_cong:
  "(\<And>x. x \<in> set inner_formats \<Longrightarrow> p x = q x) \<Longrightarrow> print_delta_lists p d = print_delta_lists q d"
  by (simp add: print_delta_lists_def inner_formats_def)

lemma print_delta_key_cong:
  assumes "\<And>x. x \<in> set inner_formats \<Longrightarrow> p x = q x"
  shows "print_delta_key p canonify f d k = print_delta_key q canonify f d k"
proof -
  have e: "p '':DT: :I: :D: :T: :P: :DS: :DP:'' = q '':DT: :I: :D: :T: :P: :DS: :DP:''"
      "p '':Li:/:Ld:/:Lu:'' = q '':Li:/:Ld:/:Lu:''" "p ('':Z::M:'' @ [tab] @ '':I:'') = q ('':Z::M:'' @ [tab] @ '':I:'')"
      "p '':Z::Y: :M: :I::Z:'' = q '':Z::Y: :M: :I::Z:''"
    by (rule assms, simp add: inner_formats_def)+
  have l: "print_delta_lists p d = print_delta_lists q d" by (rule print_delta_lists_cong) (rule assms)
  show ?thesis unfolding print_delta_key_def print_file_key_def e l ..
qed

text \<open>The loop depends on its printer only at the keywords that occur in the format.\<close>

lemma format_loop_cong:
  "(\<And>k. sublist k s \<Longrightarrow> p k = q k) \<Longrightarrow> format_loop p out s = format_loop q out s"
proof (induction s arbitrary: out rule: length_induct)
  case (1 s)
  show ?case
  proof (cases s)
    case (Cons c r)
    have sub: "sublist k s" if "sublist k (drop n r)" for k n
      using sublist_order.order.trans [OF that suffix_imp_sublist [OF suffix_drop [of n r]]] Cons
      by (simp add: sublist_Cons_right)
    have keys: "p (take n r) = q (take n r)" for n
      using sub [of "take n r" 0] prefix_imp_sublist [OF take_is_prefix [of n r]] "1.prems" by simp
    have ih: "format_loop p out' (drop n r) = format_loop q out' (drop n r)" for n out'
      using "1.IH" sub "1.prems" Cons by simp
    have ih1: "format_loop p out' t = format_loop q out' t" if "r = e # t" for e t out' using ih [of out' 1] that by simp
    show ?thesis
      unfolding Cons format_loop.simps using ih [of _ 0] ih1
      by (simp add: keys ih cong: option.case_cong split: list.split)
  qed simp
qed

lemma inner_keys:
  assumes "x \<in> set inner_formats" and "sublist k x"
  shows "k \<notin> {''Dt'', ''DL'', ''DI'', ''W'', ''A''}"
proof -
  have "list_all (\<lambda>x. \<not> sublist ''Dt'' x \<and> \<not> sublist ''DL'' x \<and> \<not> sublist ''DI'' x \<and> \<not> sublist ''W'' x \<and> \<not> sublist ''A'' x) inner_formats"
    by code_simp
  then show ?thesis using assms by (auto simp: list_all_iff)
qed

lemma print_delta_key_other:
  "k \<notin> {''Dt'', ''DL'', ''DI'', ''W'', ''A''} \<Longrightarrow> print_delta_key p canonify f d k = print_delta_key q canonify f d k"
  by (simp add: print_delta_key_def print_file_key_def Let_def)

text \<open>None of the keywords in the inner formats stands for another format, so depth 2 is enough.\<close>

lemma print_delta_depth: "print_delta (Suc (Suc n)) canonify f d fmt = print_delta 2 canonify f d fmt"
proof -
  have inner: "print_delta (Suc n) canonify f d x = print_delta 1 canonify f d x" if "x \<in> set inner_formats" for n x
    unfolding One_nat_def print_delta.simps
    by (rule format_loop_cong, rule print_delta_key_other, rule inner_keys [OF that])
  have "print_delta_key (print_delta (Suc n) canonify f d) canonify f d = print_delta_key (print_delta 1 canonify f d) canonify f d"
    by (rule ext, rule print_delta_key_cong) (rule inner)
  then show ?thesis unfolding numeral_2_eq_2 print_delta.simps One_nat_def by simp
qed

end
