(* ===== verification/Prt.thy ===== *)
theory Prt
  imports Prs
begin

text \<open>
  \<open>prt\<close> (sf-prt.cc): the listing of an s-file, and the cutoff that selects its deltas. The
  listing is a string; the pointer to the cutoff delta is an optional delta.
\<close>

section \<open>Cutoff\<close>

record cutoff =
  co_enabled :: bool
  co_most_recent_sid_only :: bool
  co_sid :: sid
  co_delta :: "delta option"
  co_first_accepted :: sccs_date
  co_last_accepted :: sccs_date

definition cutoff_default :: cutoff where
  "cutoff_default =
     \<lparr>co_enabled = False, co_most_recent_sid_only = False, co_sid = sid_default, co_delta = None,
      co_first_accepted = date_default, co_last_accepted = date_default\<rparr>"

text \<open>Whether the delta is excluded, and the new value of \<open>stop_now\<close>.\<close>

definition excludes_delta :: "cutoff \<Rightarrow> sccs_date \<Rightarrow> (bool \<times> bool) res" where
  "excludes_delta co date =
     (if \<not> co_enabled co then Inr (False, False)
      else
        bindE (if date_valid (co_first_accepted co) then date_lt date (co_first_accepted co) else Inr False) (\<lambda>early.
        if early then Inr (True, False)
        else
          bindE (if date_valid (co_last_accepted co) then date_gt date (co_last_accepted co) else Inr False) (\<lambda>late.
          if late then Inr (True, False)
          else
            (case co_delta co of
               None \<Rightarrow> Inr (False, False)
             | Some d \<Rightarrow>
                 bindE (date_le date (delta_date d)) (\<lambda>stop.
                 bindE (date_lt date (delta_date d)) (\<lambda>ex. Inr (ex, stop)))))))"

text \<open>
  \<open>cutoff::print\<close> returns as soon as one of the two dates has been printed; the date of the
  delta is not the one that is printed.
\<close>

definition cutoff_print_tail :: "cutoff \<Rightarrow> string res" where
  "cutoff_print_tail co =
     (case co_delta co of
        None \<Rightarrow> Inr (CHR 0x27 # [newline])
      | Some d \<Rightarrow>
          if date_valid (delta_date d) then
            bindE (date_printf (co_last_accepted co) (CHR ''D'')) (\<lambda>a.
            bindE (date_printf (co_last_accepted co) (CHR ''T'')) (\<lambda>b.
              Inr (CHR 0x27 # '' cutoff_delta->date='' @ CHR 0x27 # a @ '' '' @ b @ CHR 0x27 # [newline])))
          else Inr (CHR 0x27 # '' cutoff_delta->date='' @ CHR 0x27 # ''(invalid)'' @ CHR 0x27 # CHR 0x27 # [newline]))"

definition cutoff_print :: "cutoff \<Rightarrow> string res" where
  "cutoff_print co =
     (if \<not> co_enabled co then Inr (''cutoff: disabled'' @ [newline])
      else
        bindE (if sid_valid (co_sid co) then sid_print (co_sid co) else Inr ''(invalid)'') (\<lambda>s.
        let t = ''cutoff: enabled '' @ (if co_most_recent_sid_only co then ''most-recent-only '' else [])
                @ ''cutoff_sid='' @ CHR 0x27 # s @ CHR 0x27 # '' first_accepted='' @ [CHR 0x27] in
        if date_valid (co_first_accepted co) then
          bindE (date_printf (co_first_accepted co) (CHR ''D'')) (\<lambda>a. Inr (t @ a))
        else
          let t = t @ ''(invalid)'' @ CHR 0x27 # CHR 0x27 # '' last_accepted='' @ [CHR 0x27] in
          if date_valid (co_last_accepted co) then
            bindE (date_printf (co_last_accepted co) (CHR ''D'')) (\<lambda>a. Inr (t @ a))
          else bindE (cutoff_print_tail co) (\<lambda>r. Inr (t @ ''(invalid)'' @ CHR 0x27 # r))))"

section \<open>Parts of the listing\<close>

fun prt_string_list :: "string list \<Rightarrow> string \<Rightarrow> string \<Rightarrow> string" where
  "prt_string_list [] pre post = []"
| "prt_string_list [s] pre post = pre @ s"
| "prt_string_list (s # t # ss) pre post = pre @ s @ post @ prt_string_list (t # ss) pre post"

definition prt_strings :: "string list \<Rightarrow> string \<Rightarrow> string \<Rightarrow> string \<Rightarrow> string" where
  "prt_strings ss pre post dflt = (if ss = [] then pre @ dflt else prt_string_list ss pre post)"

definition prt_seq_list :: "seq_no list \<Rightarrow> string" where
  "prt_seq_list ns = words_text (map show_nat ns)"

text \<open>The printers of one flag: the text, and whether the flag counts.\<close>

definition prt_flag_text :: "string \<Rightarrow> string option \<Rightarrow> string \<times> nat" where
  "prt_flag_text nm s = (case s of Some t \<Rightarrow> ([tab] @ nm @ [tab] @ t @ [newline], 1) | None \<Rightarrow> ([], 0))"

definition prt_flag_bool :: "string \<Rightarrow> bool \<Rightarrow> string \<times> nat" where
  "prt_flag_bool nm b = (if b then ([tab] @ nm @ [tab, newline], 1) else ([], 0))"

definition prt_flag_release :: "string \<Rightarrow> release \<Rightarrow> string \<times> nat" where
  "prt_flag_release nm r = (if release_valid r then ([tab] @ nm @ [tab] @ release_print r @ [newline], 1) else ([], 0))"

definition prt_flag_sid :: "string \<Rightarrow> sid \<Rightarrow> (string \<times> nat) res" where
  "prt_flag_sid nm i =
     (if sid_valid i then bindE (sid_print i) (\<lambda>t. Inr ([tab] @ nm @ [tab] @ t @ [newline], 1)) else Inr ([], 0))"

definition prt_lock_flag :: "sccs_file_flags \<Rightarrow> string \<times> nat" where
  "prt_lock_flag fl =
     (if all_locked fl then ([tab] @ ''locked releases'' @ [tab] @ ''a'' @ [newline], 1)
      else if locked fl \<noteq> [] then ([tab] @ ''locked releases'' @ [tab] @ rel_print (locked fl) @ [newline], 1)
      else ([], 0))"

definition prt_flags :: "sccs_file \<Rightarrow> string res" where
  "prt_flags f =
     (let fl = sf_flags f in
      bindE (prt_flag_sid ''default SID'' (default_sid fl)) (\<lambda>dflt.
      let parts =
        [prt_flag_bool ''branch'' (fl_branch fl), prt_flag_release ''ceiling'' (fl_ceiling fl), dflt,
         (if fl_encoded fl then ([tab] @ ''encoded'', 1) else ([], 0)),
         prt_flag_release ''floor'' (fl_floor fl), prt_flag_bool ''id_keywd err/warn'' (no_id_keywords_is_fatal fl),
         prt_flag_bool ''joint edit'' (joint_edit fl), prt_lock_flag fl, prt_flag_text ''module'' (fl_module fl),
         prt_flag_bool ''null delta'' (null_deltas fl), prt_flag_text ''csect name'' (user_def fl),
         prt_flag_text ''type'' (fl_type fl), prt_flag_text ''validate MRs'' (mr_checker fl),
         (if flag_letters fl \<noteq> [] then ([tab, tab] @ print_substituted_flags_list f '' '' @ [newline], 1) else ([], 0))]
      in Inr ([newline] @ ''Flags --'' @ [newline] @ concat (map fst parts)
              @ (if sum_list (map snd parts) = 0 then [tab] @ ''none'' @ [newline] else []))))"

section \<open>prt\<close>

definition prt_list_line :: "string \<Rightarrow> string \<Rightarrow> bool \<Rightarrow> seq_no list \<Rightarrow> string" where
  "prt_list_line nl_sep nm have_list ns =
     (if ns \<noteq> [] then nl_sep @ nm @ [tab] @ prt_seq_list ns
      else if have_list then nl_sep @ nm @ [tab] else [])"

definition prt_delta :: "sccs_file \<Rightarrow> bool \<Rightarrow> bool \<Rightarrow> bool \<Rightarrow> delta \<Rightarrow> string res" where
  "prt_delta f enabled incl_excl_ignore first_line_only d =
     (let nl_sep = (if enabled then '' '' else [newline]) in
      bindE (sid_print (delta_id d)) (\<lambda>i.
      bindE (date_printf (delta_date d) (CHR ''D'')) (\<lambda>dt.
      bindE (date_printf (delta_date d) (CHR ''T'')) (\<lambda>tm.
        Inr ((if enabled then sname (sf_name f) @ '':'' @ [tab] else [newline])
             @ [delta_type d] @ '' '' @ i @ [tab] @ dt @ '' '' @ tm @ '' '' @ user d @ [tab]
             @ show_nat (seq d) @ '' '' @ show_nat (prev_seq d)
             @ [tab] @ show_pad 5 (inserted d) @ ''/'' @ show_pad 5 (deleted d) @ ''/'' @ show_pad 5 (unchanged d)
             @ (if first_line_only then []
                else (if incl_excl_ignore then
                        prt_list_line nl_sep ''Included:'' (have_includes d) (included_seqs d)
                        @ prt_list_line nl_sep ''Excluded:'' (have_excludes d) (excluded_seqs d)
                      else [])
                     @ (if mrs d \<noteq> [] then nl_sep @ prt_strings (mrs d) (''MRs:'' @ [tab]) nl_sep [] else [])
                     @ (if comments d \<noteq> [] then nl_sep @ prt_strings (comments d) [] nl_sep [] else []))
             @ [newline])))))"

fun prt_deltas :: "sccs_file \<Rightarrow> cutoff \<Rightarrow> delta_selector \<Rightarrow> bool \<Rightarrow> bool \<Rightarrow> delta list \<Rightarrow> string res" where
  "prt_deltas f co sel iei flo [] = Inr []"
| "prt_deltas f co sel iei flo (d # ds) =
     bindE (excludes_delta co (delta_date d)) (\<lambda>(ex, stop).
     bindE (if ex then Inr []
            else bindE (ASSERT (removed d \<longrightarrow> sel = All)) (\<lambda>_. prt_delta f (co_enabled co) iei flo d)) (\<lambda>t.
     bindE (if stop then Inr [] else prt_deltas f co sel iei flo ds) (\<lambda>r. Inr (t @ r))))"

text \<open>The cutoff once the most recent delta and the delta of its SID have been looked up.\<close>

definition prt_cutoff :: "sccs_file \<Rightarrow> cutoff \<Rightarrow> cutoff res" where
  "prt_cutoff f co =
     (if co_enabled co then
        bindE (if co_most_recent_sid_only co then
                 bindE (find_most_recent f) (\<lambda>(found, d, s). Inr (co\<lparr>co_sid := s, co_first_accepted := d\<rparr>))
               else Inr co) (\<lambda>co.
          Inr (if sid_valid (co_sid co) then co\<lparr>co_delta := find_delta f (co_sid co)\<rparr> else co))
      else Inr co)"

definition prt ::
  "sccs_file \<Rightarrow> cutoff \<Rightarrow> delta_selector \<Rightarrow> bool \<Rightarrow> bool \<Rightarrow> bool \<Rightarrow> bool \<Rightarrow> bool \<Rightarrow> bool \<Rightarrow> bool \<Rightarrow> string res" where
  "prt f exclude sel pbody ptable pflags incl_excl_ignore first_line_only pdesc pusers =
     bindE (if ptable then
              bindE (prt_cutoff f exclude) (\<lambda>co.
                prt_deltas f co sel incl_excl_ignore first_line_only (selected sel (sf_table f)))
            else Inr []) (\<lambda>table.
     bindE (if pflags then prt_flags f else Inr []) (\<lambda>fl.
       Inr (table
            @ (if pusers then [newline] @ '' Users allowed to make deltas -- '' @ [newline]
                 @ prt_strings (users f) [tab] [newline] ''everyone'' @ [newline] else [])
            @ fl
            @ (if pdesc then [newline] @ ''Description --'' @ [newline]
                 @ prt_strings (sf_comments f) [tab] [newline] ''none'' @ [newline] else [])
            @ (if pbody then print_body (unlines (sf_body f)) else []))))"

end
