(* ===== verification/Report_Commands.thy ===== *)
theory Report_Commands
  imports Command_Line Prt Validate
begin

text \<open>
  The commands that only read: \<open>prs\<close> (prs.cc), \<open>prt\<close> (prt.cc) and \<open>val\<close> (val.cc), with the
  exit codes of \<open>val\<close> (valcodes.h). Error messages and the text of \<open>-V\<close> are left out.
\<close>

section \<open>prs\<close>

record prs_options =
  ro_format :: string
  ro_rid :: sid
  ro_when :: report_when
  ro_selector :: delta_selector
  ro_cutoff :: sccs_date
  ro_default :: bool

definition prs_start :: prs_options where
  "prs_start =
     \<lparr>ro_format = '':Dt:'' @ [tab] @ '':DL:'' @ [newline] @ ''MRs:'' @ [newline] @ '':MR:COMMENTS:'' @ [newline] @ '':C:'',
      ro_rid = null_sid, ro_when = SIDONLY, ro_selector = Current, ro_cutoff = date_default, ro_default = True\<rparr>"

definition prs_option :: "prs_options \<Rightarrow> char \<times> string \<Rightarrow> (int + prs_options) res" where
  "prs_option opt ca =
     (case ca of (c, a) \<Rightarrow>
        if c = CHR ''d'' then Inr (Inr (opt\<lparr>ro_format := a, ro_default := False\<rparr>))
        else if c = CHR ''D'' then Inr (Inr (opt\<lparr>ro_default := False\<rparr>))
        else if c = CHR ''r'' then
          (if a \<noteq> [] then
             let r = sid_of_string a in
             if \<not> sid_valid r \<or> partial_sid r then Inr (Inl 2) else Inr (Inr (opt\<lparr>ro_rid := r, ro_default := False\<rparr>))
           else Inr (Inr (opt\<lparr>ro_default := False\<rparr>)))
        else if c = CHR ''c'' then
          bindE (date_of_cutoff a) (\<lambda>d. if date_valid d then Inr (Inr (opt\<lparr>ro_cutoff := d\<rparr>)) else Inr (Inl 2))
        else if c = CHR ''e'' then Inr (Inr (opt\<lparr>ro_when := EARLIER, ro_default := False\<rparr>))
        else if c = CHR ''l'' then Inr (Inr (opt\<lparr>ro_when := LATER, ro_default := False\<rparr>))
        else if c = CHR ''a'' then Inr (Inr (opt\<lparr>ro_selector := All\<rparr>))
        else if c = CHR ''V'' then Inr (Inr opt)
        else Inr (Inl 2))"

definition prs_begin :: "prs_options \<Rightarrow> sccs_file_iterator \<Rightarrow> world \<Rightarrow> (int + world) res" where
  "prs_begin opt it w =
     (if ro_when opt = SIDONLY \<and> date_valid (ro_cutoff opt) then Inr (Inl 2)
      else if it_source it = NONE then Inr (Inl 1)
      else Inr (Inr w))"

definition prs_file :: "os \<Rightarrow> prs_options \<Rightarrow> bool \<Rightarrow> world \<Rightarrow> sccs_name \<Rightarrow> outcome res \<times> world" where
  "prs_file os opt unique w nm =
     (case open_sfile os (w_dir w) nm READ of
        Inl e \<Rightarrow> (Inl e, w)
      | Inr f \<Rightarrow>
          let w = (if ro_default opt then say (sname nm @ '':'' @ [newline, newline]) w else w) in
          (case prs (os_canonify os) f (ro_format opt) (ro_rid opt) (ro_cutoff opt)
                  (if ro_default opt then EARLIER else ro_when opt) (ro_selector opt) of
             Inl (Failed e) \<Rightarrow> (Inr (Status 1), w)
           | Inl e \<Rightarrow> (Inl e, w)
           | Inr (found, t) \<Rightarrow>
               (Inr (if \<not> found \<and> sid_valid (ro_rid opt) then Status 1 else Keep), say t w)))"

definition prs_main :: "os \<Rightarrow> string list \<Rightarrow> world \<Rightarrow> int res \<times> world" where
  "prs_main os = run_command os prs_option prs_start ''d!Dr!elc!aV'' 2 prs_begin (prs_file os) (\<lambda>w. w)"

section \<open>prt\<close>

record prt_options =
  to_selector :: delta_selector
  to_body :: bool
  to_table :: bool
  to_flags :: bool
  to_lists :: bool
  to_first_line :: bool
  to_desc :: bool
  to_users :: bool
  to_exclude :: cutoff
  to_last_type :: char
  to_default :: bool

definition prt_start :: prt_options where
  "prt_start =
     \<lparr>to_selector = Current, to_body = False, to_table = False, to_flags = False, to_lists = False,
      to_first_line = False, to_desc = False, to_users = False, to_exclude = cutoff_default, to_last_type = NUL,
      to_default = True\<rparr>"

text \<open>\<open>-y\<close>: a cutoff SID, or the most recent delta.\<close>

definition prt_option_y :: "prt_options \<Rightarrow> string \<Rightarrow> (int + prt_options) res" where
  "prt_option_y opt a =
     (let co = (to_exclude opt)\<lparr>co_enabled := True\<rparr> in
      if a \<noteq> [] then
        let s = sid_of_string a in
        if \<not> sid_valid s \<or> partial_sid s then Inr (Inl 2)
        else Inr (Inr (opt\<lparr>to_exclude := co\<lparr>co_sid := s, co_most_recent_sid_only := False\<rparr>\<rparr>))
      else Inr (Inr (opt\<lparr>to_exclude := co\<lparr>co_most_recent_sid_only := True\<rparr>\<rparr>)))"

text \<open>\<open>-c\<close> and \<open>-r\<close>: a cutoff date.\<close>

definition prt_option_date :: "prt_options \<Rightarrow> char \<Rightarrow> string \<Rightarrow> (int + prt_options) res" where
  "prt_option_date opt c a =
     (let co = (to_exclude opt)\<lparr>co_enabled := True\<rparr> in
      if to_last_type opt \<noteq> NUL \<and> c \<noteq> to_last_type opt then Inr (Inl 2)
      else
        bindE (date_of_cutoff a) (\<lambda>d.
          if \<not> date_valid d then Inr (Inl 2)
          else Inr (Inr (opt\<lparr>to_last_type := c,
                             to_exclude := (if c = CHR ''r'' then co\<lparr>co_last_accepted := d\<rparr>
                                            else co\<lparr>co_first_accepted := d\<rparr>)\<rparr>))))"

definition prt_option :: "prt_options \<Rightarrow> char \<times> string \<Rightarrow> (int + prt_options) res" where
  "prt_option opt ca =
     (case ca of (c, a) \<Rightarrow>
        if c = CHR ''a'' then Inr (Inr (opt\<lparr>to_selector := All\<rparr>))
        else if c = CHR ''b'' then Inr (Inr (opt\<lparr>to_body := True, to_default := False\<rparr>))
        else if c = CHR ''d'' then Inr (Inr (opt\<lparr>to_table := True\<rparr>))
        else if c = CHR ''e'' then
          Inr (Inr (opt\<lparr>to_table := True, to_lists := True, to_users := True, to_flags := True, to_desc := True\<rparr>))
        else if c = CHR ''f'' then Inr (Inr (opt\<lparr>to_flags := True, to_default := False\<rparr>))
        else if c = CHR ''i'' then Inr (Inr (opt\<lparr>to_lists := True, to_first_line := False\<rparr>))
        else if c = CHR ''s'' then Inr (Inr (opt\<lparr>to_first_line := True, to_lists := False\<rparr>))
        else if c = CHR ''t'' then Inr (Inr (opt\<lparr>to_desc := True, to_default := False\<rparr>))
        else if c = CHR ''u'' then Inr (Inr (opt\<lparr>to_users := True, to_default := False\<rparr>))
        else if c = CHR ''V'' then Inr (Inr opt)
        else if c = CHR ''y'' then prt_option_y opt a
        else if c = CHR ''c'' \<or> c = CHR ''r'' then prt_option_date opt c a
        else Inr (Inl 2))"

definition prt_file :: "os \<Rightarrow> prt_options \<Rightarrow> bool \<Rightarrow> world \<Rightarrow> sccs_name \<Rightarrow> outcome res \<times> world" where
  "prt_file os opt unique w nm =
     (let w = say ((if co_enabled (to_exclude opt) then [] else newline # sname nm @ '':'') @ [newline]) w in
      case open_sfile os (w_dir w) nm READ of
        Inl e \<Rightarrow> (Inl e, w)
      | Inr f \<Rightarrow>
          (case prt f (to_exclude opt) (to_selector opt) (to_body opt) (to_default opt \<or> to_table opt) (to_flags opt)
                  (to_lists opt) (to_first_line opt) (to_desc opt) (to_users opt) of
             Inl (Failed e) \<Rightarrow> (Inr (Status 1), w)
           | Inl e \<Rightarrow> (Inl e, w)
           | Inr t \<Rightarrow> (Inr Keep, say t w)))"

definition prt_main :: "os \<Rightarrow> string list \<Rightarrow> world \<Rightarrow> int res \<times> world" where
  "prt_main os =
     run_command os prt_option prt_start ''abdefistuVc!r!y!'' 2
       (\<lambda>opt it w. if it_source it = NONE then Inr (Inl 1) else Inr (Inr w)) (prt_file os) (\<lambda>w. w)"

section \<open>val\<close>

definition Val_MissingFile :: int where "Val_MissingFile = 128"
definition Val_InvalidOption :: int where "Val_InvalidOption = 64"
definition Val_CorruptFile :: int where "Val_CorruptFile = 32"
definition Val_CannotOpenOrWrongFormat :: int where "Val_CannotOpenOrWrongFormat = 16"
definition Val_InvalidSID :: int where "Val_InvalidSID = 8"
definition Val_NoSuchSID :: int where "Val_NoSuchSID = 4"
definition Val_MismatchedY :: int where "Val_MismatchedY = 2"
definition Val_MismatchedM :: int where "Val_MismatchedM = 1"

lemmas val_codes = Val_MissingFile_def Val_InvalidOption_def Val_CorruptFile_def Val_CannotOpenOrWrongFormat_def
  Val_InvalidSID_def Val_NoSuchSID_def Val_MismatchedY_def Val_MismatchedM_def

definition problem :: "int \<Rightarrow> int \<Rightarrow> int" where
  "problem rv newprob = (if newprob > rv then newprob else rv)"

record val_options =
  vo_rid :: "sid option"
  vo_module :: "string option"
  vo_type :: "string option"
  vo_retval :: int

definition val_options_start :: val_options where
  "val_options_start = \<lparr>vo_rid = None, vo_module = None, vo_type = None, vo_retval = 0\<rparr>"

definition val_option :: "val_options \<Rightarrow> char \<times> string \<Rightarrow> (int + val_options) res" where
  "val_option opt ca =
     (case ca of (c, a) \<Rightarrow>
        let dup = (\<lambda>old. if old = None then vo_retval opt else problem (vo_retval opt) Val_InvalidOption) in
        if c = CHR ''r'' then
          let s = sid_of_string a; rv = dup (map_option (\<lambda>_. []) (vo_rid opt)) in
          Inr (Inr (opt\<lparr>vo_rid := Some s, vo_retval := (if sid_valid s then rv else problem rv Val_InvalidSID)\<rparr>))
        else if c = CHR ''s'' then Inr (Inr opt)
        else if c = CHR ''m'' then Inr (Inr (opt\<lparr>vo_module := Some a, vo_retval := dup (vo_module opt)\<rparr>))
        else if c = CHR ''y'' then Inr (Inr (opt\<lparr>vo_type := Some a, vo_retval := dup (vo_type opt)\<rparr>))
        else if c = CHR ''V'' then Inr (Inr opt)
        else Inr (Inl (problem (vo_retval opt) Val_InvalidOption)))"

text \<open>The state of the loop is the status so far.\<close>

definition val_begin :: "val_options \<Rightarrow> sccs_file_iterator \<Rightarrow> world \<Rightarrow> (int + int \<times> world) res" where
  "val_begin opt it w =
     (if it_source it = NONE then Inr (Inl (problem (vo_retval opt) Val_MissingFile)) else Inr (Inr (vo_retval opt, w)))"

text \<open>The tests of one open file, in the order of the code, each with the code of its failure.\<close>

definition val_problems :: "val_options \<Rightarrow> sccs_file \<Rightarrow> bool \<Rightarrow> (bool \<times> int) list" where
  "val_problems opt f ok =
     [(case vo_rid opt of Some s \<Rightarrow> sid_valid s \<and> find_delta f s = None | None \<Rightarrow> False, Val_NoSuchSID),
      (case vo_module opt of Some m \<Rightarrow> get_module_name f \<noteq> m | None \<Rightarrow> False, Val_MismatchedM),
      (case vo_type opt of Some y \<Rightarrow> (case fl_type (sf_flags f) of Some t \<Rightarrow> t | None \<Rightarrow> []) \<noteq> y | None \<Rightarrow> False, Val_MismatchedY),
      (\<not> ok, Val_CorruptFile)]"

definition val_tests :: "val_options \<Rightarrow> sccs_file \<Rightarrow> int \<Rightarrow> int res" where
  "val_tests opt f rv =
     bindE (validate f) (\<lambda>ok.
       Inr (foldl (\<lambda>rv (bad, code). if bad then problem rv code else rv) rv (val_problems opt f ok)))"

text \<open>
  The \<open>catch\<close> clauses: a missing file, a constructor that failed and a corrupt file have their own
  codes; \<open>None\<close> when the program is aborted. What the tests found before is less than
  \<open>Val_CorruptFile\<close>, so that it does not show in the result.
\<close>

definition val_caught :: "int \<Rightarrow> cssc_error \<Rightarrow> int option" where
  "val_caught rv e =
     (if e = Fatal (Message ''Cannot open SCCS file'') then Some (problem rv Val_CannotOpenOrWrongFormat)
      else map_option (\<lambda>_. problem rv Val_CorruptFile) (exit_value e))"

text \<open>The body of the loop; its result is the new status.\<close>

definition val_file :: "os \<Rightarrow> val_options \<Rightarrow> int \<times> world \<Rightarrow> sccs_name \<Rightarrow> outcome res \<times> (int \<times> world)" where
  "val_file os opt s nm =
     (case s of (rv, w) \<Rightarrow>
        (case bindE (open_sfile os (w_dir w) nm READ) (\<lambda>f. val_tests opt f rv) of
           Inr n \<Rightarrow> (Inr (Status n), (n, w))
         | Inl e \<Rightarrow> (case val_caught rv e of None \<Rightarrow> (Inl e, s) | Some n \<Rightarrow> (Inr (Status n), (n, w)))))"

definition val_main :: "os \<Rightarrow> string list \<Rightarrow> world \<Rightarrow> int res \<times> world" where
  "val_main os av w =
     (case parse_arguments val_option val_options_start ''sV!m!r!y!'' 0 av of
        Inl e \<Rightarrow> (Inl e, w)
      | Inr (Inl status) \<Rightarrow> (Inr status, w)
      | Inr (Inr (opt, args)) \<Rightarrow>
          (case new_file_iterator os (w_stdin w) args of
             Inl e \<Rightarrow> (Inl e, w)
           | Inr (it, stdin) \<Rightarrow>
               (case val_begin opt it (w\<lparr>w_stdin := stdin\<rparr>) of
                  Inl e \<Rightarrow> (Inl e, w)
                | Inr (Inl status) \<Rightarrow> (Inr status, w\<lparr>w_stdin := stdin\<rparr>)
                | Inr (Inr (rv, w)) \<Rightarrow>
                    (case command_loop (val_file os opt) rv (rv, w) (it_files it) of (r, (_, w)) \<Rightarrow> (r, w)))))"

section \<open>Lemmas\<close>

lemma problem_max: "problem a b = max a b"
  by (simp add: problem_def max_def)

text \<open>The status of \<open>val\<close> is the greatest code that was met, and it never falls.\<close>

lemma val_fold_max:
  "foldl (\<lambda>rv (bad, code). if bad then problem rv code else rv) rv ps = foldl max rv (map snd (filter fst ps))"
  by (induction ps arbitrary: rv) (auto simp: problem_max)

lemma foldl_max_ge: "(rv :: int) \<le> foldl max rv xs \<and> (\<forall>x \<in> set xs. x \<le> foldl max rv xs)"
proof (induction xs arbitrary: rv)
  case (Cons x xs)
  from Cons [of "max rv x"] show ?case by auto
qed simp

lemma val_tests_ge: "val_tests opt f rv = Inr n \<Longrightarrow> rv \<le> n"
  using foldl_max_ge by (auto simp: val_tests_def bindE_eq_Inr val_fold_max)

lemma val_file_ge: "val_file os opt (rv, w) nm = (Inr out, (n, w')) \<Longrightarrow> out = Status n \<and> rv \<le> n \<and> w' = w"
  by (auto simp: val_file_def val_caught_def bindE_eq_Inr problem_max dest!: val_tests_ge
      split: sum.splits option.splits if_splits)

end
