(* ===== verification/Command_Effects.thy ===== *)
theory Command_Effects
  imports Edit_Commands Report_Commands
begin

text \<open>
  What the commands do to the files: each changes only files that belong to the s-files that its
  command line names, and the reports change none.
\<close>

section \<open>Parts of the bodies\<close>

text \<open>A result that satisfies a predicate when it is not an error, step by step through the code.\<close>

definition leaves :: "('a \<Rightarrow> bool) \<Rightarrow> 'a res \<Rightarrow> bool" where
  "leaves P m \<longleftrightarrow> (\<forall>a. m = Inr a \<longrightarrow> P a)"

named_theorems leaves_rules

lemma leaves_value [leaves_rules]: "P a \<Longrightarrow> leaves P (Inr a)"
  by (simp add: leaves_def)

lemma leaves_error [leaves_rules]: "leaves P (Inl e)"
  by (simp add: leaves_def)

lemma leaves_bind [leaves_rules]: "(\<And>a. m = Inr a \<Longrightarrow> leaves P (k a)) \<Longrightarrow> leaves P (bindE m k)"
  by (auto simp: leaves_def bindE_eq_Inr)

lemma leaves_if [leaves_rules]: "(b \<Longrightarrow> leaves P m) \<Longrightarrow> (\<not> b \<Longrightarrow> leaves P n) \<Longrightarrow> leaves P (if b then m else n)"
  by simp

lemma leaves_option [leaves_rules]:
  "(c = None \<Longrightarrow> leaves P m) \<Longrightarrow> (\<And>a. c = Some a \<Longrightarrow> leaves P (k a)) \<Longrightarrow> leaves P (case c of None \<Rightarrow> m | Some a \<Rightarrow> k a)"
  by (cases c) auto

lemma leaves_pair [leaves_rules]: "(\<And>a b. c = (a, b) \<Longrightarrow> leaves P (k a b)) \<Longrightarrow> leaves P (case c of (a, b) \<Rightarrow> k a b)"
  by (cases c) auto

lemma leaves_sum [leaves_rules]:
  "(\<And>e. c = Inl e \<Longrightarrow> leaves P (l e)) \<Longrightarrow> (\<And>a. c = Inr a \<Longrightarrow> leaves P (k a)) \<Longrightarrow> leaves P (case c of Inl e \<Rightarrow> l e | Inr a \<Rightarrow> k a)"
  by (cases c) auto

lemma leaves_kind [leaves_rules]:
  "(\<And>d. e = Corrupt d \<Longrightarrow> leaves P (a d)) \<Longrightarrow> (e = Assertion \<Longrightarrow> leaves P b) \<Longrightarrow> (\<And>d. e = Fatal d \<Longrightarrow> leaves P (c d)) \<Longrightarrow>
   (\<And>d. e = Failed d \<Longrightarrow> leaves P (g d)) \<Longrightarrow> (e = Diverged \<Longrightarrow> leaves P h) \<Longrightarrow>
   leaves P (case e of Corrupt d \<Rightarrow> a d | Assertion \<Rightarrow> b | Fatal d \<Rightarrow> c d | Failed d \<Rightarrow> g d | Diverged \<Rightarrow> h)"
  by (cases e) auto

lemma w_dir_say [simp]: "w_dir (say t w) = w_dir w" "w_dir (say_unless b t w) = w_dir w"
  by (simp_all add: say_def say_unless_def)

lemma open_sfile_name: "open_sfile os dir nm m = Inr f \<Longrightarrow> sf_name f = nm"
  by (auto simp: open_sfile_def sccs_file_ctor_def bindE_eq_Inr file_start_def Let_def split: if_splits)



text \<open>The same for the state that a body leaves, with or without an error.\<close>

definition ends_in :: "('s \<Rightarrow> bool) \<Rightarrow> 'r \<times> 's \<Rightarrow> bool" where
  "ends_in P q \<longleftrightarrow> P (snd q)"

named_theorems ends_rules

lemma ends_value [ends_rules]: "P s \<Longrightarrow> ends_in P (r, s)"
  by (simp add: ends_in_def)

lemma ends_if [ends_rules]: "(b \<Longrightarrow> ends_in P m) \<Longrightarrow> (\<not> b \<Longrightarrow> ends_in P n) \<Longrightarrow> ends_in P (if b then m else n)"
  by simp

lemma ends_option [ends_rules]:
  "(c = None \<Longrightarrow> ends_in P m) \<Longrightarrow> (\<And>a. c = Some a \<Longrightarrow> ends_in P (k a)) \<Longrightarrow> ends_in P (case c of None \<Rightarrow> m | Some a \<Rightarrow> k a)"
  by (cases c) auto

lemma ends_pair [ends_rules]: "(\<And>a b. c = (a, b) \<Longrightarrow> ends_in P (k a b)) \<Longrightarrow> ends_in P (case c of (a, b) \<Rightarrow> k a b)"
  by (cases c) auto

lemma ends_sum [ends_rules]:
  "(\<And>e. c = Inl e \<Longrightarrow> ends_in P (l e)) \<Longrightarrow> (\<And>a. c = Inr a \<Longrightarrow> ends_in P (k a)) \<Longrightarrow>
   ends_in P (case c of Inl e \<Rightarrow> l e | Inr a \<Rightarrow> k a)"
  by (cases c) auto

lemma ends_bool [ends_rules]:
  "(c \<Longrightarrow> ends_in P m) \<Longrightarrow> (\<not> c \<Longrightarrow> ends_in P n) \<Longrightarrow> ends_in P (case c of True \<Rightarrow> m | False \<Rightarrow> n)"
  by (cases c) auto

lemma ends_find [ends_rules]:
  "(\<And>n. c = FOUND n \<Longrightarrow> ends_in P (k n)) \<Longrightarrow> (c = NOT_FOUND \<Longrightarrow> ends_in P m) \<Longrightarrow> (c = AMBIGUOUS \<Longrightarrow> ends_in P n') \<Longrightarrow>
   ends_in P (case c of FOUND n \<Rightarrow> k n | NOT_FOUND \<Rightarrow> m | AMBIGUOUS \<Rightarrow> n')"
  by (cases c) auto

lemma ends_kind [ends_rules]:
  "(\<And>d. e = Corrupt d \<Longrightarrow> ends_in P (a d)) \<Longrightarrow> (e = Assertion \<Longrightarrow> ends_in P b) \<Longrightarrow> (\<And>d. e = Fatal d \<Longrightarrow> ends_in P (c d)) \<Longrightarrow>
   (\<And>d. e = Failed d \<Longrightarrow> ends_in P (g d)) \<Longrightarrow> (e = Diverged \<Longrightarrow> ends_in P h) \<Longrightarrow>
   ends_in P (case e of Corrupt d \<Rightarrow> a d | Assertion \<Rightarrow> b | Fatal d \<Rightarrow> c d | Failed d \<Rightarrow> g d | Diverged \<Rightarrow> h)"
  by (cases e) auto



text \<open>The files that an update of the s-file touches: the x-file of an earlier run is renamed.\<close>

definition update_files :: "sccs_name \<Rightarrow> string set" where
  "update_files nm = {sname nm, sub_file (CHR ''x'') nm, sub_file (CHR ''x'') nm @ ''.bak''}"

lemma start_xfile_confined [simp]: "x \<notin> update_files nm \<Longrightarrow> start_xfile nm dir x = dir x"
  by (simp add: start_xfile_def update_files_def Let_def split: option.splits)

lemma sname_updated [simp]: "sname nm \<in> update_files nm"
  by (simp add: update_files_def)





section \<open>The commands\<close>

text \<open>A body is confined when what it ends in differs only in the files that it may touch.\<close>

lemma confined_bodyI:
  assumes "\<And>s nm. ok s \<Longrightarrow> ends_in (\<lambda>s'. ok s' \<and> (\<forall>x. x \<notin> touches nm \<longrightarrow> dir_of s' x = dir_of s x)) (body s nm)"
  shows "confined_body body dir_of ok touches"
  using assms by unfold_locales (auto simp: ends_in_def)








lemma admin_name: "admin f desc b sets unsets adds erases = Inr f' \<Longrightarrow> sf_name f' = sf_name f"
  by (auto simp: admin_def bindE_eq_Inr Let_def)

lemma admin_create_confined:
  "ends_in (\<lambda>s'. \<forall>x. x \<notin> update_files (sf_name f) \<longrightarrow> w_dir (al_world s') x = w_dir (al_world s) x) (admin_create os opt f s)"
  unfolding admin_create_def Let_def by (intro ends_rules) auto

lemma admin_first_lists_world: "admin_first_lists opt f s = Some s' \<Longrightarrow> al_world s' = al_world s"
  by (auto simp: admin_first_lists_def Let_def split: if_splits)

lemma admin_new_confined:
  "ends_in (\<lambda>s'. \<forall>x. x \<notin> update_files (sf_name f) \<longrightarrow> w_dir (al_world s') x = w_dir (al_world s) x) (admin_new os opt f me s)"
  unfolding admin_new_def
  by (intro ends_rules)
    (use admin_create_confined [of f] in \<open>fastforce simp: ends_in_def dest: admin_first_lists_world split: if_splits\<close>)+

lemma put_sfile_confined:
  "ends_in (\<lambda>s'. \<forall>x. x \<notin> update_files nm \<longrightarrow> w_dir (al_world s') x = w_dir (al_world s) x) (put_sfile r nm s)"
  unfolding put_sfile_def Let_def by (intro ends_rules) auto

interpretation admin: confined_body "admin_file os opt u" "\<lambda>s. w_dir (al_world s)" "\<lambda>_. True" "update_files" for os opt u
proof (rule confined_bodyI)
  fix s :: admin_loop_state and nm :: sccs_name
  let ?P = "\<lambda>s'. True \<and> (\<forall>x. x \<notin> update_files nm \<longrightarrow> w_dir (al_world s') x = w_dir (al_world s) x)"
  have "ends_in ?P (put_sfile r nm (s\<lparr>al_first := False\<rparr>))" for r
    using put_sfile_confined [of nm "s\<lparr>al_first := False\<rparr>" r] by simp
  moreover have "ends_in ?P (admin_new os opt f me (s\<lparr>al_first := False\<rparr>))"
    if "open_sfile os d nm m = Inr f0" "admin f0 desc b sets unsets adds erases = Inr f"
    for f me f0 d m desc b sets unsets adds erases
    using admin_new_confined [of f "s\<lparr>al_first := False\<rparr>" os opt me] admin_name [OF that(2)] open_sfile_name [OF that(1)]
    by simp
  ultimately show "ends_in ?P (admin_file os opt u s nm)"
    unfolding admin_file_def Let_def
    by (intro ends_rules) (auto simp: bindE_eq_Inr)
qed




section \<open>Whole commands\<close>













end
