(* ===== verification/Command_Roundtrip.thy ===== *)
theory Command_Roundtrip
  imports Command_Effects
begin

text \<open>
  Two commands in a row: \<open>admin -i\<close> makes an s-file of a file, and \<open>get -p\<close> prints that file.
\<close>

section \<open>The options\<close>



section \<open>Opening and choosing\<close>








section \<open>The two commands\<close>





section \<open>Properties\<close>





end
