(* ===== verification/Sfile_Types.thy ===== *)
theory Sfile_Types
  imports Sfile_Update
begin

text \<open>
  What the parser of s-files guarantees (parser.cc and the constructor in sccsfile.cc): the values of an
  opened file are in the ranges of their C++ types and of the tests that the parser makes, so
  that the rest of the program can rely on them.
\<close>

section \<open>Ranges\<close>

definition u16_list :: "nat list \<Rightarrow> bool" where
  "u16_list ns \<longleftrightarrow> (\<forall>n \<in> set ns. n \<le> 65535)"

definition short_range :: "int \<Rightarrow> bool" where
  "short_range n \<longleftrightarrow> - 32768 \<le> n \<and> n \<le> 32767"

definition sid_typed :: "sid \<Rightarrow> bool" where
  "sid_typed s \<longleftrightarrow> short_range (rel s) \<and> short_range (level s) \<and> short_range (branch s) \<and> short_range (sequence s)"

definition delta_typed :: "delta \<Rightarrow> bool" where
  "delta_typed d \<longleftrightarrow>
     delta_wf d
     \<and> sid_valid (delta_id d) \<and> sid_typed (delta_id d)
     \<and> date_valid (delta_date d) \<and> 1969 \<le> year (delta_date d) \<and> year (delta_date d) < 2069
     \<and> seq d \<le> 65535 \<and> prev_seq d \<le> 65535
     \<and> u16_list (included_seqs d) \<and> u16_list (excluded_seqs d) \<and> u16_list (ignored_seqs d)
     \<and> inserted d < 2 ^ 64 \<and> deleted d < 2 ^ 64 \<and> unchanged d < 2 ^ 64"

definition flags_typed :: "sccs_file_flags \<Rightarrow> bool" where
  "flags_typed fl \<longleftrightarrow>
     (release_valid (fl_floor fl) \<or> fl_floor fl = release_default)
     \<and> (release_valid (fl_ceiling fl) \<or> fl_ceiling fl = release_default)
     \<and> (sid_valid (default_sid fl) \<or> default_sid fl = null_sid)
     \<and> sorted (map char_int (flag_letters fl)) \<and> distinct (flag_letters fl)"

lemma u16_list_simps [simp]: "u16_list []" "u16_list (ns @ [n]) \<longleftrightarrow> u16_list ns \<and> n \<le> 65535"
  by (auto simp: u16_list_def)

lemma strict_atous_range: "strict_atous s = Inr n \<Longrightarrow> n \<le> 65535"
proof -
  have "strict_atous_loop m e s = Inr n \<Longrightarrow> n \<le> 65535" for m e
    by (induction m e s rule: strict_atous_loop.induct) (auto simp: u16_of_def Let_def split: if_splits)
  then show "strict_atous s = Inr n \<Longrightarrow> n \<le> 65535" by (simp add: strict_atous_def)
qed

lemma seq_numbers_range: "seq_numbers s = Inr ns \<Longrightarrow> u16_list ns"
proof (induction s arbitrary: ns rule: seq_numbers.induct)
  case (1 s)
  then show ?case
    by (subst (asm) (2) seq_numbers.simps)
       (fastforce simp: bindE_eq_Inr u16_list_def split: prod.splits option.splits dest: strict_atous_range)
qed

lemma strict_atoul_idu_range: "strict_atoul_idu s = Inr n \<Longrightarrow> n < 2 ^ 64"
  by (auto simp: strict_atoul_idu_def strtoul_def Let_def split: if_splits prod.splits)

lemma short_of_range: "short_range (short_of n)"
  using signed_take_bit_int_greater_eq_minus_exp [of 15 n] signed_take_bit_int_less_exp [of 15 n]
  by (simp add: short_of_def short_range_def)

lemma short_range_minus_1: "short_range (- 1)"
  by (simp add: short_range_def)

lemma get_id_comp_range: "short_range (fst (get_id_comp s))"
proof -
  have "short_range (fst (get_id_comp_loop n s))" for n
    by (induction n s rule: get_id_comp_loop.induct) (auto simp: short_of_range short_range_minus_1)
  then show ?thesis by (simp add: get_id_comp_def)
qed

lemma sid_of_string_typed: "sid_typed (sid_of_string s)"
proof -
  obtain r s1 where r: "get_id_comp s = (r, s1)" by fastforce
  obtain l s2 where l: "get_id_comp s1 = (l, s2)" by fastforce
  obtain b s3 where b: "get_id_comp s2 = (b, s3)" by fastforce
  obtain q s4 where q: "get_id_comp s3 = (q, s4)" by fastforce
  have "short_range r" "short_range l" "short_range b" "short_range q"
    using get_id_comp_range [of s] get_id_comp_range [of s1] get_id_comp_range [of s2] get_id_comp_range [of s3] r l b q
    by simp_all
  then show ?thesis by (simp add: sid_of_string_def sid_typed_def r l b q short_range_minus_1)
qed

lemma date_ctor6_year [simp]: "year (date_ctor6 y mo d h mi s) = y"
  by (simp add: date_ctor6_def update_yearday_def)

lemma y2k_window_range: "y2k_window y = Inr z \<Longrightarrow> 1969 \<le> z \<and> z < 2069"
  by (auto simp: y2k_window_def Let_def bindE_eq_Inr ASSERT_def split: if_splits)

lemma date_of_strings_year:
  assumes "date_of_strings a b = Inr d" and "date_valid d"
  shows "1969 \<le> year d \<and> year d < 2069"
proof -
  have "d \<noteq> date_default" using assms(2) by (auto simp: date_valid_def date_default_def)
  with assms(1) show ?thesis
    by (auto simp: date_of_strings_def Let_def bindE_eq_Inr split: if_splits dest: y2k_window_range)
qed

section \<open>The deltas\<close>

lemma parse_d_line_typed:
  assumes "parse_d_line l d = Inr d'" and "delta_wf d"
  obtains t i dt us s p where "d' = d\<lparr>delta_type := t, delta_id := i, delta_date := dt, user := us, seq := s, prev_seq := p\<rparr>"
    "is_valid_delta_type t" "sid_valid i" "sid_typed i" "date_valid dt" "1969 \<le> year dt" "year dt < 2069" "s \<le> 65535" "p \<le> 65535"
proof -
  let ?args = "linebuf_split (drop 3 l) 7 (CHR '' '')"
  let ?new = "\<lambda>dt s p. (d\<lparr>delta_type := char_at (?args ! 0) 0\<rparr>)\<lparr>delta_id := sid_of_string (?args ! 1), delta_date := dt,
      user := ?args ! 4, seq := s, prev_seq := p\<rparr>"
  have "\<exists>dt s p. date_of_strings (?args ! 2) (?args ! 3) = Inr dt \<and> date_valid dt \<and> strict_atous (?args ! 5) = Inr s
      \<and> strict_atous (?args ! 6) = Inr p \<and> sid_valid (sid_of_string (?args ! 1)) \<and> is_valid_delta_type (char_at (?args ! 0) 0)
      \<and> d' = ?new dt s p"
    using assms(1) by (clarsimp simp: parse_d_line_def Let_def set_type_def bindE_eq_Inr split: if_splits)
  then obtain dt s p where *: "date_of_strings (?args ! 2) (?args ! 3) = Inr dt" "date_valid dt" "strict_atous (?args ! 5) = Inr s"
    "strict_atous (?args ! 6) = Inr p" "sid_valid (sid_of_string (?args ! 1))" "is_valid_delta_type (char_at (?args ! 0) 0)"
    "d' = ?new dt s p"
    by blast
  show thesis
    by (rule that [where t = "char_at (?args ! 0) 0" and i = "sid_of_string (?args ! 1)" and dt = dt and us = "?args ! 4" and s = s and p = p])
       (use * date_of_strings_year [OF *(1,2)] strict_atous_range [OF *(3)] strict_atous_range [OF *(4)] sid_of_string_typed in simp_all)
qed

lemma add_seq_typed: "delta_typed d \<Longrightarrow> n \<le> 65535 \<Longrightarrow> delta_typed (add_seq c n d)"
  by (auto simp: delta_typed_def delta_wf_def add_seq_def add_include_def add_exclude_def add_ignore_def)

lemma add_seqs_typed:
  "delta_typed d \<Longrightarrow> u16_list ns \<Longrightarrow> delta_typed (foldl (\<lambda>d n. add_seq c n d) d ns)"
  by (induction ns arbitrary: d) (simp_all add: add_seq_typed u16_list_def)

lemma set_has_typed: "set_has c d = Inr d' \<Longrightarrow> delta_typed d \<Longrightarrow> delta_typed d'"
proof -
  assume "set_has c d = Inr d'"
  then have "d' \<in> {d\<lparr>have_includes := True\<rparr>, d\<lparr>have_excludes := True\<rparr>, d\<lparr>have_ignores := True\<rparr>}"
    by (simp add: set_has_def set_has_includes_def set_has_excludes_def set_has_ignores_def split: if_splits)
  then show "delta_typed d \<Longrightarrow> delta_typed d'" by (elim insertE) (simp_all add: delta_typed_def delta_wf_def)
qed

lemma seq_line_typed: "seq_line (l, r, d) c = Inr (l', r', d') \<Longrightarrow> delta_typed d \<Longrightarrow> delta_typed d'"
  by (auto simp: seq_line_def bindE_eq_Inr next_line_Inr split: if_splits
      dest!: set_has_typed seq_numbers_range intro: add_seqs_typed)

lemma notes_loop_typed: "notes_loop l r d = Inr (l', r', d') \<Longrightarrow> delta_typed d \<Longrightarrow> delta_typed d'"
proof (induction r arbitrary: l d)
  case Nil
  then show ?case by (subst (asm) notes_loop.simps) (auto split: if_splits)
next
  case (Cons a r)
  have "delta_typed (note_line l d)" using Cons.prems
    by (auto simp: note_line_def add_mr_def add_comment_def delta_typed_def delta_wf_def)
  then show ?case
    using Cons by (cases "line_type l = CHR ''m'' \<or> line_type l = CHR ''c''") (auto simp: notes_loop_step)
qed

lemma read_delta_typed:
  assumes "read_delta l r = Inr (d, r')"
  shows "delta_typed d"
proof -
  have "\<exists>i dd u l1 d1 l2 r2 l3 r3 d3 l4 r4 a b c. strict_atoul_idu a = Inr i \<and> strict_atoul_idu b = Inr dd \<and> strict_atoul_idu c = Inr u
      \<and> parse_d_line l1 (set_idu i dd u delta_default) = Inr d1
      \<and> foldE seq_line (l2, r2, d1) [CHR ''i'', CHR ''x'', CHR ''g''] = Inr (l3, r3, d3)
      \<and> notes_loop l3 r3 d3 = Inr (l4, r4, d)"
    using assms by (clarsimp simp: read_delta_def bindE_eq_Inr Let_def simp del: foldE.simps split: if_splits) blast
  then obtain i dd u l1 d1 l2 r2 l3 r3 d3 l4 r4 where
    idu: "i < 2 ^ 64" "dd < 2 ^ 64" "u < 2 ^ 64"
    and p: "parse_d_line l1 (set_idu i dd u delta_default) = Inr d1"
    and f: "foldE seq_line (l2, r2, d1) [CHR ''i'', CHR ''x'', CHR ''g''] = Inr (l3, r3, d3)"
    and n: "notes_loop l3 r3 d3 = Inr (l4, r4, d)"
    using strict_atoul_idu_range by blast
  have "delta_wf (set_idu i dd u delta_default)" using delta_wf_ctors(1) by (simp add: delta_wf_def set_idu_def)
  from p this have d1: "delta_typed d1"
    by (rule parse_d_line_typed) (use idu in \<open>simp add: delta_typed_def delta_wf_def set_idu_def delta_default_def\<close>)
  have "delta_typed (snd (snd (l3, r3, d3)))"
    by (rule foldE_keeps [where P = "\<lambda>s. delta_typed (snd (snd s))", OF _ _ f]) (auto simp: d1 dest: seq_line_typed)
  then show ?thesis using notes_loop_typed [OF n] by simp
qed

lemma items_empty: "items table_empty = []"
  by (simp add: table_empty_def)

lemma read_deltas_typed:
  assumes "read_deltas l r t = Inr (l', r', Some t')"
    and "\<And>u. t = Some u \<Longrightarrow> table_wf u \<and> items u \<noteq> [] \<and> (\<forall>d \<in> set (items u). delta_typed d)"
  shows "table_wf t' \<and> items t' \<noteq> [] \<and> (\<forall>d \<in> set (items t'). delta_typed d)"
  using assms
proof (induction l r t rule: read_deltas.induct)
  case (1 l r t)
  show ?case
  proof (cases "line_type l = CHR ''s''")
    case True
    then obtain d l1 r1 where d: "read_delta l r = Inr (d, l1 # r1)"
      and rest: "read_deltas l1 r1 (Some (table_add d (case t of None \<Rightarrow> table_empty | Some u \<Rightarrow> u))) = Inr (l', r', Some t')"
      using "1.prems"(1) by (subst (asm) read_deltas.simps) (auto split: sum.splits list.splits)
    let ?u = "table_add d (case t of None \<Rightarrow> table_empty | Some u \<Rightarrow> u)"
    have u: "table_wf ?u \<and> items ?u \<noteq> [] \<and> (\<forall>d \<in> set (items ?u). delta_typed d)"
      using read_delta_typed [OF d] "1.prems"(2) items_empty
      by (cases t) (auto simp: table_wf_add)
    show ?thesis by (rule "1.IH" [OF True d refl refl rest]) (use u in auto)
  next
    case False
    then show ?thesis using "1.prems" by (subst (asm) read_deltas.simps) simp
  qed
qed

section \<open>The flags\<close>

lemma insert_letter_set [simp]: "set (insert_letter c xs) = insert c (set xs)"
  by (induction xs) auto

lemma insert_letter_sorted:
  "sorted (map char_int xs) \<Longrightarrow> distinct xs \<Longrightarrow>
     sorted (map char_int (insert_letter c xs)) \<and> distinct (insert_letter c xs)"
proof (induction xs)
  case (Cons x xs)
  have "char_int c \<noteq> char_int x" if "c \<noteq> x" using that int_char_char_int by metis
  then show ?case using Cons by (auto simp: le_less)
qed simp

lemma letters_of_sorted: "sorted (map char_int (letters_of s)) \<and> distinct (letters_of s)"
proof -
  have "sorted (map char_int xs) \<Longrightarrow> distinct xs \<Longrightarrow>
      sorted (map char_int (foldl (\<lambda>xs c. insert_letter c xs) xs s)) \<and> distinct (foldl (\<lambda>xs c. insert_letter c xs) xs s)" for xs
    by (induction s arbitrary: xs) (simp_all add: insert_letter_sorted)
  then show ?thesis by (simp add: letters_of_def)
qed

lemma apply_flag_typed:
  assumes "apply_flag fl x = Inr fl'" and "flags_typed fl"
  shows "flags_typed fl'"
proof -
  obtain c arg where x: "x = (c, arg)" by fastforce
  note d = set_type_flag_def set_mr_checker_flag_def set_module_flag_def set_user_flag_def set_reserved_flag_def
    set_expanded_keyword_flag_def
  have keep: "flags_typed fl'" if "fl_floor fl' = fl_floor fl" "fl_ceiling fl' = fl_ceiling fl" "default_sid fl' = default_sid fl"
      "flag_letters fl' = flag_letters fl \<or> (\<exists>s. flag_letters fl' = letters_of s)"
    using that assms(2) letters_of_sorted by (auto simp: flags_typed_def)
  consider "c = CHR ''f''" | "c = CHR ''c''" | "c = CHR ''d''" | "c \<notin> {CHR ''f'', CHR ''c'', CHR ''d''}" by blast
  then show ?thesis
  proof cases
    case 4
    then show ?thesis
      using assms(1) unfolding x by (intro keep) (auto simp: apply_flag_def bindE_eq_Inr Let_def d split: if_splits)
  qed (use assms in \<open>auto simp: x apply_flag_def flags_typed_def Let_def bindE_eq_Inr split: if_splits\<close>)
qed

lemma apply_flags_typed: "apply_flags fl xs = Inr fl' \<Longrightarrow> flags_typed fl \<Longrightarrow> flags_typed fl'"
  unfolding apply_flags_def by (rule foldE_keeps [where P = flags_typed, OF apply_flag_typed])

section \<open>Property\<close>

lemma ctor_typed:
  assumes "sccs_file_ctor n m silent lock_ok xbits content = Inr f" and "m \<noteq> CREATE"
  shows "table_wf (sf_table f) \<and> items (sf_table f) \<noteq> [] \<and> list_all delta_typed (items (sf_table f))
     \<and> flags_typed (sf_flags f) \<and> highest_delta_seqno f \<le> 65535"
proof -
  have fs: "flags_typed (sf_flags (file_start n m))"
    by (simp add: flags_typed_def file_start_def flags_default_def)
  obtain opened fl where o: "parse_header READ (silent \<or> m = FIX_CHECKSUM) xbits content = Inr opened"
    and t: "or_table opened \<noteq> None" and fl: "apply_flags (sf_flags (file_start n m)) (or_flags opened) = Inr fl"
    and f: "sf_table f = the (or_table opened)" "sf_flags f = fl"
    using assms by (auto simp: sccs_file_ctor_def Let_def bindE_eq_Inr split: if_splits)
  obtain l1 r1 l2 r2 where "read_deltas l1 r1 None = Inr (l2, r2, or_table opened)"
    using o by (auto simp: parse_header_def Let_def bindE_eq_Inr split: if_splits)
  then have "read_deltas l1 r1 None = Inr (l2, r2, Some (sf_table f))" using t f(1) by auto
  from read_deltas_typed [OF this]
  have tab: "table_wf (sf_table f) \<and> items (sf_table f) \<noteq> [] \<and> (\<forall>d \<in> set (items (sf_table f)). delta_typed d)"
    by simp
  then have "high_seqno (sf_table f) = Max (insert 0 (seq ` set (items (sf_table f))))" and "\<forall>d \<in> set (items (sf_table f)). seq d \<le> 65535"
    by (simp_all add: table_wf_def delta_typed_def)
  then have "high_seqno (sf_table f) \<le> 65535" by simp
  with tab show ?thesis
    using apply_flags_typed [OF fl fs] f(2) by (simp add: list_all_iff highest_delta_seqno_def)
qed

text \<open>
  C17. Whatever an s-file holds: if the constructor does not reject it, then the table of deltas
  is consistent and not empty; every delta has one of the two type letters, a valid SID whose
  components are shorts, a valid date between 1969 and 2068, sequence numbers of 16 bits and
  counters of 64 bits, and its lists are only non-empty when their flag says so; the flags of the
  file have valid values; and the highest sequence number fits 16 bits.
\<close>

theorem opened_file_typed:
  assumes "sccs_file_ctor n m silent lock_ok xbits content = Inr f" and "m \<noteq> CREATE"
  shows "table_wf (sf_table f) \<and> items (sf_table f) \<noteq> [] \<and> list_all delta_typed (items (sf_table f))
     \<and> flags_typed (sf_flags f) \<and> highest_delta_seqno f \<le> 65535"
  using assms by (rule ctor_typed)

theorem opened_file_typed_witness:
  "\<exists>new f. sfile_update sample_file = Inr new
     \<and> sccs_file_ctor (sf_name sample_file) READ False True False new = Inr f \<and> items (sf_table f) = [sample_delta]
     \<and> flags_typed (sf_flags f) \<and> list_all delta_typed (items (sf_table f)) \<and> highest_delta_seqno f \<le> 65535"
proof -
  obtain new where new: "sfile_update sample_file = Inr new"
    and o: "sccs_file_ctor (sf_name sample_file) READ False True False new =
         Inr (sample_file\<lparr>sf_mode := READ, checksum_valid := True, xfile_created := False, edit_mode_ok := True\<rparr>)"
    using sfile_update_reads [OF sample_file_storable sample_body, of READ False] by (auto simp: sample_file_def file_start_def)
  from opened_file_typed [OF o] new o show ?thesis
    by (intro exI conjI) (assumption | simp add: sample_file_def table_empty_def)+
qed

end
