(* ===== verification/What.thy ===== *)
theory What
  imports Options
begin

text \<open>
  \<open>what\<close> (what.cc): the strings behind the marks of what-strings in a file, found through a buffer
  that keeps the last three characters of the previous read. The size of the buffer is a
  parameter; it is positive. The file is its contents, of which \<open>xread\<close> takes as many
  characters as it asks for, and \<open>xgetc\<close> one, which it returns as a \<open>char\<close>: plain characters are
  signed, so that the octet 255 is \<open>EOF\<close> there. The output is a string.
\<close>

definition terminator :: "char \<Rightarrow> bool" where
  "terminator c \<longleftrightarrow> c \<in> {CHR 0x22, CHR ''>'', newline, CHR 0x5C, NUL}"

text \<open>The loop of \<open>print_what\<close> that reads on from the file: \<open>False\<close> at the end of the file.\<close>

fun print_from_file :: "string \<Rightarrow> string \<Rightarrow> bool \<times> string \<times> string" where
  "print_from_file out [] = (False, out, [])"
| "print_from_file out (c # s) = 
     (if c = CHR 0xFF then (False, out, s)
      else if terminator c then (True, out, s)
      else print_from_file (out @ [c]) s)"

text \<open>
  \<open>print_what\<close> from a position of the buffer: the position where it stopped (\<open>None\<close> for the null
  pointer), the output and the rest of the file.
\<close>

definition print_what :: "string \<Rightarrow> nat \<Rightarrow> string \<Rightarrow> string \<Rightarrow> nat option \<times> string \<times> string" where
  "print_what buf s out rest =
     (let t = takeWhile (\<lambda>c. \<not> terminator c) (drop s buf); out = out @ [CHR 0x09] @ t in
      if s + length t < length buf then (Some (s + length t), out, rest)
      else
        (case print_from_file out rest of
           (True, out, rest) \<Rightarrow> (Some (length buf), out, rest)
         | (False, out, rest) \<Rightarrow> (None, out, rest)))"

text \<open>\<open>memchr\<close> for the mark's first character, from a position up to \<open>e\<close>.\<close>

definition next_at :: "string \<Rightarrow> nat \<Rightarrow> nat \<Rightarrow> nat option" where
  "next_at buf e i =
     (let k = i + length (takeWhile (\<lambda>c. c \<noteq> CHR 0x40) (drop i buf)) in if k < e then Some k else None)"

lemma next_at_ge: "next_at buf e i = Some k \<Longrightarrow> i \<le> k \<and> k < e"
  by (auto simp: next_at_def Let_def split: if_splits)

lemma print_what_ge: "print_what buf s out rest = (Some k, out', rest') \<Longrightarrow> s \<le> k \<or> length buf \<le> k"
  by (auto simp: print_what_def Let_def split: if_splits prod.splits bool.splits)

text \<open>The inner loop: whether the search is done, the matches, the output and the rest of the file.\<close>

function scan_buffer ::
  "bool \<Rightarrow> string \<Rightarrow> nat \<Rightarrow> nat \<Rightarrow> nat \<Rightarrow> string \<Rightarrow> string \<Rightarrow> bool \<times> nat \<times> string \<times> string" where
  "scan_buffer one_match buf e i n out rest =
     (case next_at buf e i of
        None \<Rightarrow> (False, n, out, rest)
      | Some k \<Rightarrow>
          if k + 3 < length buf \<and> take 4 (drop k buf) = CHR 0x40 # ''(#)'' then
            (case print_what buf (k + 4) out rest of
               (None, out, rest) \<Rightarrow> (True, n + 1, out @ [newline], rest)
             | (Some j, out, rest) \<Rightarrow>
                 if one_match then (True, n + 1, out @ [newline], rest)
                 else scan_buffer one_match buf e (j + 1) (n + 1) (out @ [newline]) rest)
          else scan_buffer one_match buf e (k + 1) n out rest)"
  by pat_completeness auto
termination
proof (relation "measure (\<lambda>(one_match, buf, e, i, n, out, rest). e + length buf - i)", goal_cases)
  case (2 one_match buf e i n out rest k a b j out' rest')
  then have "k < j" using print_what_ge [of buf "k + 4" out rest j out' rest'] by auto
  with 2 show ?case using next_at_ge [of buf e i k] by auto
next
  case (3 one_match buf e i n out rest k)
  then show ?case using next_at_ge [of buf e i k] by fastforce
qed simp

declare scan_buffer.simps [simp del]

lemma print_from_file_length: "print_from_file out s = (b, out', s') \<Longrightarrow> length s' \<le> length s"
  by (induction out s rule: print_from_file.induct) (auto split: if_splits)

lemma print_what_length: "print_what buf s out rest = (k, out', rest') \<Longrightarrow> length rest' \<le> length rest"
  by (auto simp: print_what_def Let_def split: if_splits prod.splits bool.splits dest: print_from_file_length)

lemma scan_buffer_length:
  "scan_buffer one_match buf e i n out rest = (d, n', out', rest') \<Longrightarrow> length rest' \<le> length rest"
proof (induction one_match buf e i n out rest rule: scan_buffer.induct)
  case (1 one_match buf e i n out rest)
  show ?case
  proof (cases "next_at buf e i")
    case None
    then show ?thesis using "1.prems" by (simp add: scan_buffer.simps [of one_match buf])
  next
    case (Some k)
    show ?thesis
    proof (cases "k + 3 < length buf \<and> take 4 (drop k buf) = CHR 0x40 # ''(#)''")
      case True
      obtain j out1 rest1 where p: "print_what buf (k + 4) out rest = (j, out1, rest1)" by (metis prod_cases3)
      from print_what_length [OF this] have "length rest1 \<le> length rest" .
      moreover have "j = Some a \<Longrightarrow> \<not> one_match
          \<Longrightarrow> scan_buffer one_match buf e (a + 1) (n + 1) (out1 @ [newline]) rest1 = (d, n', out', rest')
          \<Longrightarrow> length rest' \<le> length rest1" for a
        by (rule "1.IH"(1) [OF Some True p [symmetric] _ refl])
      ultimately show ?thesis
        using "1.prems" Some True p
        by (cases j) (fastforce simp: scan_buffer.simps [of one_match buf e i] split: if_splits)+
    next
      case False
      then show ?thesis
        using "1.prems" Some "1.IH"(2) [OF Some False] by (auto simp: scan_buffer.simps [of one_match buf e i])
    qed
  qed
qed

text \<open>The outer loop over the reads; \<open>carry\<close> is what the first three characters of the buffer hold.\<close>

function what_loop :: "nat \<Rightarrow> bool \<Rightarrow> string \<Rightarrow> nat \<Rightarrow> string \<Rightarrow> string \<Rightarrow> nat \<times> string" where
  "what_loop bsize one_match carry n out f =
     (let chunk = take bsize f; buf = carry @ chunk in
      if chunk = [] then (n, out)
      else
        (case scan_buffer one_match buf (length chunk) 0 n out (drop bsize f) of
           (True, n, out, rest) \<Rightarrow> (n, out)
         | (False, n, out, rest) \<Rightarrow> what_loop bsize one_match (take 3 (drop (length chunk) buf)) n out rest))"
  by pat_completeness auto
termination
proof (relation "measure (\<lambda>(bsize, one_match, carry, n, out, f). length f)", goal_cases)
  case (2 bsize one_match carry n out f chunk buf d a n' b out' rest')
  then have "take bsize f \<noteq> []" "length rest' \<le> length (drop bsize f)"
    using scan_buffer_length [of one_match buf "length chunk" 0 n out "drop bsize f" False n' out' rest'] by auto
  then show ?case by (cases f; cases bsize) auto
qed simp

declare what_loop.simps [simp del]

definition what :: "nat \<Rightarrow> bool \<Rightarrow> string \<Rightarrow> string \<Rightarrow> nat \<times> string" where
  "what bsize one_match filename file =
     what_loop bsize one_match [NUL, NUL, NUL] 0 (filename @ '':'' @ [newline]) file"

abbreviation (input) mark :: string where
  "mark \<equiv> CHR 0x40 # ''(#)''"

text \<open>
  \<open>main\<close>: the files in turn; with \<open>-s\<close> it stops after the first match. A file that cannot be opened
  ends the program. The loop runs up to the number of arguments that \<open>main\<close> was given, and \<open>reorder\<close> puts a null
  pointer, here \<open>None\<close>, at the end for every \<open>--\<close> that it drops. \<open>fs\<close> gives the contents of the files; the text of \<open>version\<close> and the messages are left out.
\<close>

fun what_files :: "nat \<Rightarrow> (string \<Rightarrow> string option) \<Rightarrow> bool \<Rightarrow> nat \<Rightarrow> string \<Rightarrow> string option list \<Rightarrow> (nat \<times> string) res" where
  "what_files bsize fs one_match n out [] = Inr (n, out)"
| "what_files bsize fs one_match n out (a # as) =
     (case Option.bind a (\<lambda>name. map_option (Pair name) (fs name)) of
        None \<Rightarrow> Inl (Fatal (Message ''Cannot open file''))
      | Some (name, contents) \<Rightarrow>
          (case what bsize one_match name contents of
             (k, t) \<Rightarrow>
               let n = n + k; out = out @ t in
               if one_match \<and> n \<noteq> 0 then Inr (n, out) else what_files bsize fs one_match n out as))"

definition what_main :: "nat \<Rightarrow> (string \<Rightarrow> string option) \<Rightarrow> string list \<Rightarrow> (int \<times> string) res" where
  "what_main bsize fs av =
     bindE (parse_arguments (\<lambda>one_match x. Inr (Inr (one_match \<or> fst x = CHR ''s''))) False ''r!snV'' 1 av) (\<lambda>r.
       case r of
         Inl status \<Rightarrow> Inr (status, [])
       | Inr (one_match, files) \<Rightarrow>
           let nulls = replicate (length av - length (reorder av)) None in
           bindE (what_files bsize fs one_match 0 [] (map Some files @ nulls)) (\<lambda>(n, out).
             Inr (if n \<noteq> 0 then 0 else 1, out)))"

text \<open>With \<open>--\<close> on the command line the last turn of the loop opens a null pointer and fails.\<close>

lemma what_dashes_fail: "what_main 16 (\<lambda>f. Some (mark @ ''x'')) [''what'', ''--'', ''f''] = Inl (Fatal (Message ''Cannot open file''))"
  by code_simp

section \<open>A search in the whole file\<close>

text \<open>
  The reference: the strings behind the marks of a text that is all there, each up to a terminator
  or the end of the text; the search goes on behind the terminator.
\<close>

function whats :: "bool \<Rightarrow> string \<Rightarrow> string list" where
  "whats one_match [] = []"
| "whats one_match (c # s) =
     (if take 4 (c # s) = mark then
        takeWhile (\<lambda>c. \<not> terminator c) (drop 3 s)
        # (if one_match then [] else whats one_match (drop 1 (dropWhile (\<lambda>c. \<not> terminator c) (drop 3 s))))
      else whats one_match s)"
  by pat_completeness auto
termination
proof (relation "measure (\<lambda>(one_match, s). length s)", goal_cases)
  case (2 one_match c s)
  then show ?case using length_dropWhile_le [of "\<lambda>c. \<not> terminator c" "drop 3 s"] by simp
qed simp_all

definition what_lines :: "string list \<Rightarrow> string" where
  "what_lines ws = concat (map (\<lambda>t. CHR 0x09 # t @ [newline]) ws)"

definition no_marks_inside :: "string list \<Rightarrow> bool" where
  "no_marks_inside ws \<longleftrightarrow> (\<forall>t \<in> set ws. CHR 0x40 \<notin> set t)"

lemma what_lines_simps [simp]:
  "what_lines [] = []" "what_lines (t # ws) = CHR 0x09 # t @ newline # what_lines ws"
  by (simp_all add: what_lines_def)

lemma what_lines_append [simp]: "what_lines (vs @ ws) = what_lines vs @ what_lines ws"
  by (simp add: what_lines_def)

lemma no_marks_inside_simps [simp]:
  "no_marks_inside []" "no_marks_inside (t # ws) \<longleftrightarrow> CHR 0x40 \<notin> set t \<and> no_marks_inside ws"
  by (simp_all add: no_marks_inside_def)

lemma whats_skip: "CHR 0x40 \<notin> set s \<Longrightarrow> whats one_match (s @ r) = whats one_match r"
  by (induction s) auto

lemma whats_mark:
  "whats one_match (mark @ s) =
     takeWhile (\<lambda>c. \<not> terminator c) s
     # (if one_match then [] else whats one_match (drop 1 (dropWhile (\<lambda>c. \<not> terminator c) s)))"
  by simp

lemma whats_no_mark: "take 4 (c # s) \<noteq> mark \<Longrightarrow> whats one_match (c # s) = whats one_match s"
  by auto

lemma print_from_file_spec:
  "CHR 0xFF \<notin> set s \<Longrightarrow>
     print_from_file out s =
       (\<exists>c \<in> set s. terminator c, out @ takeWhile (\<lambda>c. \<not> terminator c) s,
        drop 1 (dropWhile (\<lambda>c. \<not> terminator c) s))"
  by (induction out s rule: print_from_file.induct) auto

lemma takeWhile_eq_length: "\<not> length (takeWhile P xs) < length xs \<Longrightarrow> takeWhile P xs = xs \<and> (\<forall>x \<in> set xs. P x)"
  by (metis length_takeWhile_le linorder_not_le nat_less_le takeWhile_eq_all_conv takeWhile_eq_take take_all_iff)

lemma print_what_spec:
  assumes "CHR 0xFF \<notin> set rest" and "s \<le> length buf"
  obtains j rest' where "print_what buf s out rest
      = (j, out @ CHR 0x09 # takeWhile (\<lambda>c. \<not> terminator c) (drop s buf @ rest), rest')"
    "set rest' \<subseteq> set rest"
    "j = None \<Longrightarrow> dropWhile (\<lambda>c. \<not> terminator c) (drop s buf @ rest) = []"
    "\<And>k. j = Some k \<Longrightarrow>
       s \<le> k \<and> drop (k + 1) buf @ rest' = drop 1 (dropWhile (\<lambda>c. \<not> terminator c) (drop s buf @ rest))
       \<and> set (take (k - s) (drop s buf)) \<subseteq> set (takeWhile (\<lambda>c. \<not> terminator c) (drop s buf @ rest))
       \<and> (k < length buf \<longrightarrow> terminator (buf ! k))"
proof (cases "s + length (takeWhile (\<lambda>c. \<not> terminator c) (drop s buf)) < length buf")
  case True
  let ?t = "takeWhile (\<lambda>c. \<not> terminator c) (drop s buf)"
  let ?k = "s + length ?t"
  have *: "length ?t < length (drop s buf)" using True by simp
  then have tm: "terminator (drop s buf ! length ?t)" by (metis nth_length_takeWhile)
  have ex: "\<exists>c \<in> set (drop s buf). terminator c" using * tm nth_mem by blast
  have "drop s buf = ?t @ drop (length ?t) (drop s buf)"
    by (metis append_take_drop_id takeWhile_eq_take)
  then have d: "dropWhile (\<lambda>c. \<not> terminator c) (drop s buf) = drop ?k buf"
    by (metis add.commute drop_drop dropWhile_eq_drop)
  show ?thesis
  proof (rule that [of "Some ?k" rest])
    show "print_what buf s out rest
      = (Some ?k, out @ CHR 0x09 # takeWhile (\<lambda>c. \<not> terminator c) (drop s buf @ rest), rest)"
      using True ex by (auto simp: print_what_def Let_def takeWhile_append)
    show "s \<le> k \<and> drop (k + 1) buf @ rest = drop 1 (dropWhile (\<lambda>c. \<not> terminator c) (drop s buf @ rest))
       \<and> set (take (k - s) (drop s buf)) \<subseteq> set (takeWhile (\<lambda>c. \<not> terminator c) (drop s buf @ rest))
       \<and> (k < length buf \<longrightarrow> terminator (buf ! k))" if "Some ?k = Some k" for k
      using that True ex d tm assms(2)
      by (auto simp: dropWhile_append takeWhile_append simp flip: takeWhile_eq_take)
  qed auto
next
  case False
  let ?t = "drop s buf"
  have all: "takeWhile (\<lambda>c. \<not> terminator c) ?t = ?t" "\<forall>x \<in> set ?t. \<not> terminator x"
    using takeWhile_eq_length [of "\<lambda>c. \<not> terminator c" ?t] False assms(2) by auto
  show ?thesis
  proof (rule that [of "if \<exists>c \<in> set rest. terminator c then Some (length buf) else None"
        "drop 1 (dropWhile (\<lambda>c. \<not> terminator c) rest)"])
    show "print_what buf s out rest =
      (if \<exists>c \<in> set rest. terminator c then Some (length buf) else None,
       out @ CHR 0x09 # takeWhile (\<lambda>c. \<not> terminator c) (?t @ rest), drop 1 (dropWhile (\<lambda>c. \<not> terminator c) rest))"
      using all(2) assms by (simp add: print_what_def Let_def print_from_file_spec all(1))
    show "set (drop 1 (dropWhile (\<lambda>c. \<not> terminator c) rest)) \<subseteq> set rest"
      by (meson in_set_dropD set_dropWhileD subsetI)
  qed (use all assms(2) in \<open>auto split: if_splits\<close>)
qed


lemma next_at_SomeE:
  assumes "next_at buf e i = Some k" and "e \<le> length buf"
  obtains "i \<le> k" "k < e" "buf ! k = CHR 0x40" "CHR 0x40 \<notin> set (take (k - i) (drop i buf))"
proof -
  let ?t = "takeWhile (\<lambda>c. c \<noteq> CHR 0x40) (drop i buf)"
  have k: "k = i + length ?t" "k < e" using assms by (auto simp: next_at_def Let_def split: if_splits)
  then have *: "length ?t < length (drop i buf)" using assms(2) by simp
  from nth_length_takeWhile [OF this] have "buf ! k = CHR 0x40" using k * by simp
  moreover have "take (k - i) (drop i buf) = ?t" using k by (simp flip: takeWhile_eq_take)
  then have "CHR 0x40 \<notin> set (take (k - i) (drop i buf))" by (auto dest: set_takeWhileD)
  ultimately show thesis using that k by simp
qed

lemma next_at_NoneD:
  assumes "next_at buf e i = None" and "e \<le> length buf"
  shows "CHR 0x40 \<notin> set (take (e - i) (drop i buf))"
proof -
  let ?t = "takeWhile (\<lambda>c. c \<noteq> CHR 0x40) (drop i buf)"
  have "e - i \<le> length ?t" using assms by (auto simp: next_at_def Let_def split: if_splits)
  from set_take_subset_set_take [OF this, of "drop i buf"]
  have "set (take (e - i) (drop i buf)) \<subseteq> set ?t" by (simp flip: takeWhile_eq_take)
  then show ?thesis by (auto dest: set_takeWhileD)
qed

lemma whats_drop:
  assumes "CHR 0x40 \<notin> set (take (k - i) (drop i buf))" and "i \<le> k"
  shows "whats one_match (drop i buf @ r) = whats one_match (drop k buf @ r)"
proof -
  have "drop i buf = take (k - i) (drop i buf) @ drop k buf"
    using assms(2) by (metis append_take_drop_id drop_drop le_add_diff_inverse2)
  then show ?thesis using whats_skip [OF assms(1), of one_match "drop k buf @ r"] by (metis append.assoc)
qed


lemma no_mark_behind:
  assumes "take 4 (drop k buf) = mark" and "k < e" and "k + 4 \<le> l"
    and "CHR 0x40 \<notin> set (take (l - (k + 4)) (drop (k + 4) buf))"
    and "l < length buf \<longrightarrow> terminator (buf ! l)"
  shows "CHR 0x40 \<notin> set (take (l + 1 - e) (drop e buf))"
proof
  assume "CHR 0x40 \<in> set (take (l + 1 - e) (drop e buf))"
  then obtain j where j: "j < length (take (l + 1 - e) (drop e buf))" "take (l + 1 - e) (drop e buf) ! j = CHR 0x40"
    by (auto simp only: in_set_conv_nth)
  define m where "m = e + j"
  with j have m: "m < length buf" "e \<le> m" "m \<le> l" "buf ! m = CHR 0x40" by auto
  consider "m < k + 4" | "k + 4 \<le> m" "m < l" | "m = l" using m(3) by linarith
  then show False
  proof cases
    case 1
    then have "m - k \<in> {1, 2, 3}" using m(2) assms(2) by auto
    moreover have "take 4 (drop k buf) ! (m - k) = CHR 0x40" using 1 m assms(2) by simp
    ultimately show False unfolding assms(1) by auto
  next
    case 2
    then have "take (l - (k + 4)) (drop (k + 4) buf) ! (m - (k + 4)) = CHR 0x40" using m by simp
    then show False using 2 m assms(4) by (metis (no_types, lifting) diff_less_mono length_drop length_take min_less_iff_conj nth_mem)
  next
    case 3
    then show False using m assms(5) by (simp add: terminator_def)
  qed
qed

lemma scan_buffer_spec:
  assumes "length buf = e + 3" and "CHR 0xFF \<notin> set rest"
    and "no_marks_inside (whats one_match (drop i buf @ rest))"
    and "CHR 0x40 \<notin> set (take (i - e) (drop e buf))"
  obtains d ws rest' where
    "scan_buffer one_match buf e i n out rest = (d, n + length ws, out @ what_lines ws, rest')"
    "set rest' \<subseteq> set rest"
    "whats one_match (drop i buf @ rest) = ws @ (if d then [] else whats one_match (drop e buf @ rest'))"
  using assms
proof (induction one_match buf e i n out rest arbitrary: thesis rule: scan_buffer.induct)
  case (1 one_match buf e i n out rest)
  note pre = "1.prems"(2-5)
  show ?case
  proof (cases "next_at buf e i")
    case None
    have "whats one_match (drop i buf @ rest) = whats one_match (drop e buf @ rest)"
    proof (cases "i \<le> e")
      case True
      show ?thesis by (rule whats_drop [OF next_at_NoneD [OF None] True]) (simp add: pre(1))
    next
      case False
      then show ?thesis using whats_drop [OF pre(4), of one_match rest] by simp
    qed
    then show ?thesis using "1.prems"(1) [of False "[]" rest] None by (simp add: scan_buffer.simps [of one_match buf e i])
  next
    case (Some k)
    then obtain k: "i \<le> k" "k < e" "buf ! k = CHR 0x40" "CHR 0x40 \<notin> set (take (k - i) (drop i buf))"
      using next_at_SomeE pre(1) by (metis le_add1)
    from k have wk: "whats one_match (drop i buf @ rest) = whats one_match (drop k buf @ rest)"
      by (intro whats_drop)
    show ?thesis
    proof (cases "take 4 (drop k buf) = mark")
      case m: True
      then have True: "k + 3 < length buf \<and> take 4 (drop k buf) = mark" using k(2) pre(1) by simp
      let ?t = "takeWhile (\<lambda>c. \<not> terminator c) (drop (k + 4) buf @ rest)"
      let ?r = "drop 1 (dropWhile (\<lambda>c. \<not> terminator c) (drop (k + 4) buf @ rest))"
      have "drop k buf = mark @ drop (k + 4) buf" using m by (metis append_take_drop_id drop_drop add.commute)
      then have w: "whats one_match (drop i buf @ rest) = ?t # (if one_match then [] else whats one_match ?r)"
        using wk whats_mark [of one_match "drop (k + 4) buf @ rest"] by (simp only: append.assoc)
      obtain j rest1 where p: "print_what buf (k + 4) out rest = (j, out @ CHR 0x09 # ?t, rest1)" "set rest1 \<subseteq> set rest"
        and none: "j = None \<Longrightarrow> dropWhile (\<lambda>c. \<not> terminator c) (drop (k + 4) buf @ rest) = []"
        and some: "\<And>l. j = Some l \<Longrightarrow> k + 4 \<le> l \<and> drop (l + 1) buf @ rest1 = ?r
           \<and> set (take (l - (k + 4)) (drop (k + 4) buf)) \<subseteq> set ?t \<and> (l < length buf \<longrightarrow> terminator (buf ! l))"
        using print_what_spec [OF pre(2), of "k + 4" buf out] True by auto
      show ?thesis
      proof (cases "j = None \<or> one_match")
        assume "j = None \<or> one_match"
        then have "whats one_match (drop i buf @ rest) = [?t]" using w none by (cases "one_match") simp_all
        moreover have "scan_buffer one_match buf e i n out rest = (True, n + 1, (out @ CHR 0x09 # ?t) @ [newline], rest1)"
          using \<open>j = None \<or> one_match\<close> True
          by (subst scan_buffer.simps) (auto simp: Some p(1) split: option.split)
        ultimately show ?thesis using "1.prems"(1) [of True "[?t]" rest1] p(2) by simp
      next
        assume "\<not> (j = None \<or> one_match)"
        then obtain l where l: "j = Some l" and nm: "\<not> one_match" by auto
        note sl = some [OF l]
        have "CHR 0x40 \<notin> set ?t" "no_marks_inside (whats one_match ?r)" using pre(3) w nm by simp_all
        then have c: "CHR 0x40 \<notin> set (take (l + 1 - e) (drop e buf))" "no_marks_inside (whats one_match (drop (l + 1) buf @ rest1))"
          using no_mark_behind [OF m k(2), of l] sl by auto
        have ff: "CHR 0xFF \<notin> set rest1" using p(2) pre(2) by auto
        obtain d ws rest' where
          q: "scan_buffer one_match buf e (l + 1) (n + 1) ((out @ CHR 0x09 # ?t) @ [newline]) rest1
             = (d, n + 1 + length ws, ((out @ CHR 0x09 # ?t) @ [newline]) @ what_lines ws, rest')"
          "set rest' \<subseteq> set rest1"
          "whats one_match (drop (l + 1) buf @ rest1) = ws @ (if d then [] else whats one_match (drop e buf @ rest'))"
          by (rule "1.IH"(1) [OF Some True p(1) [symmetric] l refl nm _ pre(1) ff c(2) c(1)])
        show ?thesis
        proof (rule "1.prems"(1) [of d "?t # ws" rest'])
          have "scan_buffer one_match buf e i n out rest
            = scan_buffer one_match buf e (l + 1) (n + 1) ((out @ CHR 0x09 # ?t) @ [newline]) rest1"
            using True nm by (subst scan_buffer.simps) (simp add: Some p(1) l)
          with q(1) show "scan_buffer one_match buf e i n out rest
            = (d, n + length (?t # ws), out @ what_lines (?t # ws), rest')" by simp
          show "set rest' \<subseteq> set rest" using q(2) p(2) by simp
          have "whats one_match ?r = ws @ (if d then [] else whats one_match (drop e buf @ rest'))" using q(3) sl by metis
          with w nm show "whats one_match (drop i buf @ rest)
            = (?t # ws) @ (if d then [] else whats one_match (drop e buf @ rest'))" by simp
        qed
      qed
    next
      case False
      then have "take 4 (drop k buf @ rest) \<noteq> mark" using k(2) pre(1) by simp
      moreover have "drop k buf = CHR 0x40 # drop (Suc k) buf" using k(2,3) pre(1) by (metis Cons_nth_drop_Suc trans_less_add1)
      ultimately have "whats one_match (drop k buf @ rest) = whats one_match (drop (k + 1) buf @ rest)"
        using whats_no_mark [of "CHR 0x40" "drop (Suc k) buf @ rest"] by simp
      with wk show ?thesis
        using "1.IH"(2) [OF Some _ "1.prems"(1)] False pre k(2) Some
        by (simp add: scan_buffer.simps [of one_match buf e i])
    qed
  qed
qed


lemma what_loop_spec:
  assumes "0 < bsize" and "length carry = 3" and "CHR 0xFF \<notin> set f"
    and "no_marks_inside (whats one_match (carry @ f))"
  shows "what_loop bsize one_match carry n out f
    = (n + length (whats one_match (carry @ f)), out @ what_lines (whats one_match (carry @ f)))"
  using assms
proof (induction bsize one_match carry n out f rule: what_loop.induct)
  case (1 bsize one_match carry n out f)
  let ?chunk = "take bsize f" let ?buf = "carry @ ?chunk" let ?e = "length ?chunk"
  show ?case
  proof (cases "f = []")
    case True
    then have "whats one_match (carry @ f) = []"
      using "1.prems"(2) by (auto simp: numeral_eq_Suc length_Suc_conv)
    then show ?thesis using True by (simp add: what_loop.simps [of bsize one_match carry n out "[]"])
  next
    case False
    then have ne: "?chunk \<noteq> []" using "1.prems"(1) by (cases f; cases bsize) auto
    have cf: "drop 0 ?buf @ drop bsize f = carry @ f" by simp
    have ff: "CHR 0xFF \<notin> set (drop bsize f)" using "1.prems"(3) by (auto dest: in_set_dropD)
    have "length ?buf = ?e + 3" using "1.prems"(2) by simp
    from this ff obtain d ws rest' where
      s: "scan_buffer one_match ?buf ?e 0 n out (drop bsize f) = (d, n + length ws, out @ what_lines ws, rest')"
        "set rest' \<subseteq> set (drop bsize f)"
      and w: "whats one_match (drop 0 ?buf @ drop bsize f) = ws @ (if d then [] else whats one_match (drop ?e ?buf @ rest'))"
      by (rule scan_buffer_spec [where i = 0]) (use "1.prems"(4) cf in simp_all)
    note w = w [unfolded cf]
    show ?thesis
    proof (cases d)
      case True
      then show ?thesis using s w ne by (simp add: what_loop.simps [of bsize one_match carry n out f])
    next
      case False
      have l: "length (take 3 (drop ?e ?buf)) = 3" "take 3 (drop ?e ?buf) = drop ?e ?buf" using "1.prems"(2) by simp_all
      have ff': "CHR 0xFF \<notin> set rest'" using s(2) "1.prems"(3) by (auto dest: in_set_dropD)
      have nm: "no_marks_inside (whats one_match (take 3 (drop ?e ?buf) @ rest'))"
        using w "1.prems"(4) l(2) False by (simp add: no_marks_inside_def)
      have d: "d = False" using False by simp
      have "what_loop bsize one_match (take 3 (drop ?e ?buf)) (n + length ws) (out @ what_lines ws) rest'
        = (n + length ws + length (whats one_match (take 3 (drop ?e ?buf) @ rest')),
           (out @ what_lines ws) @ what_lines (whats one_match (take 3 (drop ?e ?buf) @ rest')))"
        by (rule "1.IH" [OF refl refl ne s(1) [symmetric] d refl refl "1.prems"(1) l(1) ff' nm])
      moreover have "what_loop bsize one_match carry n out f
        = what_loop bsize one_match (take 3 (drop ?e ?buf)) (n + length ws) (out @ what_lines ws) rest'"
        by (subst what_loop.simps) (simp only: Let_def ne s(1) d if_False prod.case bool.case)
      ultimately show ?thesis unfolding l(2) w using False by simp
    qed
  qed
qed

text \<open>
  C19. The search of \<open>what\<close> through its buffer prints what a search in the whole file prints, one
  line per string, and counts them, for every size of the buffer: a mark or a string that
  falls across the end of a buffer is found all the same. It needs that the file has no octet 255, which \<open>xgetc\<close>
  cannot tell from the end of the file, and that no printed string has an at sign, which could be
  kept in the buffer and taken for a mark after the string was printed.
\<close>

theorem what_finds_all:
  assumes "0 < bsize" and "CHR 0xFF \<notin> set contents" and "no_marks_inside (whats one_match contents)"
  shows "what bsize one_match filename contents
    = (length (whats one_match contents), filename @ '':'' @ [newline] @ what_lines (whats one_match contents))"
proof -
  have "whats one_match ([NUL, NUL, NUL] @ contents) = whats one_match contents" by (rule whats_skip) simp
  then show ?thesis
    using what_loop_spec [OF assms(1) _ assms(2), of "[NUL, NUL, NUL]" one_match 0] assms(3) by (simp add: what_def)
qed

theorem what_finds_all_witness:
  "what 5 False ''f'' (''ab'' @ mark @ ''one>'' @ mark @ ''two'' @ [newline])
    = (2, ''f:'' @ [newline] @ what_lines [''one'', ''two''])"
  using what_finds_all [of 5 "''ab'' @ mark @ ''one>'' @ mark @ ''two'' @ [newline]" False "''f''"]
  by (simp add: terminator_def)

end
