(* ===== verification/Spec2Isabelle.thy ===== *)
theory Spec2Isabelle
  imports Checkin Command_Roundtrip Sfile_Types What
begin

text \<open>
  A model of CSSC, a reimplementation of SCCS: the programs \<open>admin\<close>, \<open>get\<close>, \<open>delta\<close>, \<open>unget\<close>, \<open>sact\<close>,
  \<open>rmdel\<close>, \<open>cdc\<close>, \<open>prs\<close>, \<open>prt\<close>, \<open>val\<close> and \<open>what\<close> of the C++ sources in src/src.

  An s-file holds all versions of one file. Its header has a table of deltas (SID, date, user, sequence
  number, predecessor, lists of included, excluded and ignored deltas, MRs and comments), users, flags and a
  description; its body interleaves the lines of all versions with the control lines \<open>^AI n\<close>, \<open>^AD n\<close>
  and \<open>^AE n\<close>. \<open>get\<close> chooses a delta, computes which deltas make up its version, and scans the body for the
  lines that are visible in it; with \<open>-e\<close> it writes a lock into the p-file. \<open>delta\<close> looks the lock up, gets the
  old version, runs \<open>diff\<close> on it and on the new file, weaves the differences into the body and prepends a
  delta to the table. The other commands create, change, check and print s-files and p-files.

  Conventions. A class is a record, an enumeration a datatype, and a member function a definition with
  the name it has in the source (with the name of the class where it would clash). An operation that can fail
  gives a \<open>res\<close>: the error \<open>Corrupt\<close> for a call of \<open>corrupt\<close>, \<open>Assertion\<close> for a violated \<open>ASSERT\<close>, \<open>Fatal\<close> for a call of a
  function that ends the program, \<open>Failed\<close> for a returned \<open>Failure\<close>, \<open>Diverged\<close> for a loop that does not end. A \<open>short\<close> is an \<open>int\<close> that each store
  wraps with \<open>short_of\<close>, a sequence number (\<open>unsigned short\<close>) a \<open>nat\<close> that each store reduces with
  \<open>u16_of\<close>. A file is its contents, a directory a map from names to contents, and an open s-file the record
  \<open>sccs_file\<close> with the parsed header and the lines of the body.

  The theories and the sources that they model:
  \<^item> \<open>Prelude\<close>: errors, machine integers, C strings, decimal numbers, \<open>strtol\<close>.
  \<^item> \<open>Sid\<close> (sid, release and relvbr .h/.cc), \<open>Range_List\<close> (sid_list.h, sl-merge.h, rel_list, rl-merge.cc),
    \<open>Sccs_Date\<close> (sccsdate): the values that commands and files name. Parsing, printing, orders, lists.
  \<^item> \<open>Line_Reader\<close> (linebuf, base-reader): lines read through a buffer, fields and control lines.
  \<^item> \<open>Names\<close> (sccsname, fnsplit, l-split), \<open>Options\<close> (my-getopt), \<open>Pfile\<close> (pfile, pf-add, pf-del).
  \<^item> \<open>Delta\<close>, \<open>Delta_Table\<close> (delta, delta-table, dtbl-prepend, delta-iterator): the table and its index.
  \<^item> \<open>Seq_State\<close> (seqstate), \<open>Version_Select\<close> (sf-get, sf-get3): which deltas make up a version and whether
    a line is visible. \<open>Version_Grow\<close>: what adding a delta does to the versions.
  \<^item> \<open>Diff_State\<close> (diff-state): the state machine that reads the output of \<open>diff\<close>.
  \<^item> \<open>Body_Scanner\<close> (body-scanner): \<open>get\<close>, \<open>delta\<close> and \<open>remove\<close> on the body. \<open>Weave\<close>: what a body means, and
    that the scanner agrees.
  \<^item> \<open>Encoding\<close> (encoding, bodyio): text and binary bodies.
  \<^item> \<open>Sccs_File\<close> (sccsfile, sf-chkid, sf-kw), \<open>Sfile_Format\<close> (parser, sf-write, cap), \<open>Flag_Lines\<close>,
    \<open>Sfile_Roundtrip\<close>, \<open>Sfile_Update\<close>, \<open>Sfile_Types\<close>: the s-file object, its parser and its writer, that they
    are inverse, and what the parser guarantees.
  \<^item> \<open>Sid_Select\<close> (sf-get2), \<open>Keywords\<close> (writesubst), \<open>Get\<close> (sf-get, get.cc), \<open>Get_Version\<close>: \<open>get\<close>.
  \<^item> \<open>Sfile_Ops\<close> (sf-rmdel, sf-cdc), \<open>Sfile_Admin\<close> (sf-admin), \<open>Add_Delta\<close> (sf-delta, sf-add), \<open>Validate\<close> (sf-val),
    \<open>Prs\<close>, \<open>Prt\<close> (sf-prs, sf-prt), \<open>What\<close> (what.cc).
  \<^item> \<open>Command_Line\<close> (fileiter, prompt, run, the frame of each main), \<open>Edit_Commands\<close> (delta, unget, sact,
    rmdel, cdc, admin and get .cc), \<open>Report_Commands\<close> (prs, prt and val .cc): whole commands, from their
    arguments to the exit status, over a \<open>world\<close> of files, standard input and standard output.
  \<^item> \<open>Checkin\<close>, \<open>Command_Effects\<close>, \<open>Command_Roundtrip\<close>: properties across components.

  Interfaces. The locale \<open>range_elem\<close> states what \<open>range_list\<close> needs of its elements (interpreted for SIDs of one
  line of development), \<open>seq_index\<close> the laws of the index of the delta table (interpreted for \<open>table_add\<close>),
  \<open>line_selector\<close> what the body scanner needs of a \<open>seq_state\<close> (interpreted for \<open>seq_start\<close>, \<open>seq_end\<close> and
  \<open>include_line\<close>), \<open>confined_body\<close> what the loop of a command needs of its body (interpreted for all ten commands).

  What the lemmas show.
  \<^item> The weave: the body means the lines that a declarative rule makes visible; \<open>get\<close> writes them, \<open>delta\<close>
    makes the new version read as the new file and leaves all others, \<open>remove\<close> undoes it, the counts are right.
    \<open>diff\<close> is a parameter; its documented behaviour is the hypothesis \<open>normal_text_diff\<close>, for which \<open>whole_text_diff\<close> is an instance.
  \<^item> The version: \<open>prepare_seqstate_1\<close> selects the ancestors as the lists of the deltas change them; it
    succeeds on every consistent table.
  \<^item> The file format: what is written is read back, with the checksum, the counts and the flag written in place;
    what the parser accepts is well typed. The p-file is the list of locks.
  \<^item> The functions: SIDs, dates, names and lists are parsed and printed and are ordered as documented;
    keyword expansion is expansion token by token; \<open>what\<close> finds every string; \<open>validate\<close> ends and is sound; \<open>rmdel\<close>
    and \<open>cdc\<close> do what they promise.
  \<^item> The commands: a check-in followed by \<open>get\<close>, \<open>admin -i\<close> followed by \<open>get -p\<close>, and that each command
    changes only the files that belong to the s-files of its command line.

  Bounds and fuel. \<open>write_subst\<close> nests at most three deep and \<open>print_delta\<close> two (\<open>write_subst_ends\<close>, \<open>print_delta_depth\<close>);
  the search for an unused SID wraps after 65536 steps (\<open>find_next_sid_unused\<close>); the marking loop of \<open>validate\<close> needs
  at most one step more than there are sequence numbers (\<open>lf_mark_ends\<close>); the loop that makes null deltas has its own
  counter of 10000 in the source. Loops that count a sequence number up to the highest one do not end for 65535,
  so that \<open>new_seq_state\<close> and \<open>apply_exclusions\<close> are \<open>Diverged\<close> there, and the properties ask for a smaller number;
  \<open>decide_disposition\<close>, which has the same loop, runs only on states that \<open>new_seq_state\<close> has made.

  Not modelled: the front end sccs.c (C, runs the commands), showconfig, the wrappers of system calls in file.cc with
  permissions, hard links, the z-file that is the lock, signals and user identities, running programs,
  read errors, a failing rename, what a failed \<open>create\<close> leaves behind, messages on the standard error, the text of \<open>-V\<close>, and
  \<open>split_string\<close>, which reads a variable that has no value. The answers of the operating system are the record \<open>os\<close>.
\<close>

end
